(* ===== verification/Pac_Prelude.thy ===== *)
theory Pac_Prelude
  imports Main "HOL-Library.Word" "HOL-Library.Signed_Division" "HOL-Library.Monad_Syntax"
begin

text \<open>
  The shared vocabulary of the s2PAC development: the Go types the program uses, the
  conventions for panics and errors, and the generic lemmas on lists that the component theories
  share.

  Conventions.
  \<^item> \<open>byte\<close> is Go's \<open>byte\<close>/\<open>uint8\<close>; a digest (\<open>crypto.Digest\<close>, 32 bytes) is a byte list;
    \<open>uint8\<close> fields such as heights and levels are 8-bit words.
  \<^item> Go's \<open>int\<close> is 64 bits wide. It is modelled by \<open>int\<close>; where a value that a peer
    controls is added to, the wrap-around is written out with \<open>wrap64\<close>.
  \<^item> A computation of type \<open>'a option\<close> that models a Go function yields \<open>None\<close> exactly
    when the Go code panics (a nil dereference, an index out of range, a bad key length),
    which ends the whole process.
  \<^item> A Go \<open>error\<close> result is a value of the sum type \<open>string + 'a\<close> or of an \<open>error\<close>
    datatype; \<open>None\<close> is never used for it.
\<close>

section \<open>Go values\<close>

type_synonym byte = "8 word"
type_synonym bytes = "byte list"
type_synonym digest = "byte list"
type_synonym node_id = int

definition wrap64 :: "int \<Rightarrow> int" where
  "wrap64 x = (x + 2 ^ 63) mod 2 ^ 64 - 2 ^ 63"

definition in_int64 :: "int \<Rightarrow> bool" where
  "in_int64 x \<longleftrightarrow> - (2 ^ 63) \<le> x \<and> x < 2 ^ 63"

named_theorems go_simps \<open>evaluation rules for the Go conventions\<close>

lemma wrap64_id [go_simps]: "in_int64 x \<Longrightarrow> wrap64 x = x"
  by (simp add: wrap64_def in_int64_def)

lemma wrap64_bounds: "in_int64 (wrap64 x)"
proof -
  have "0 \<le> (x + 2 ^ 63) mod 2 ^ 64" and "(x + 2 ^ 63) mod 2 ^ 64 < (2 ^ 64 :: int)"
    by simp_all
  then show ?thesis
    by (simp add: wrap64_def in_int64_def)
qed

text \<open>The successor of a 64-bit value either is the next integer or wraps to the least one.\<close>

lemma wrap64_Suc:
  assumes "in_int64 v"
  shows "wrap64 (v + 1) = (if v = 2 ^ 63 - 1 then - (2 ^ 63) else v + 1)"
  using assms by (auto simp: wrap64_def in_int64_def)

lemma sdiv_nonneg [go_simps]: "0 \<le> a \<Longrightarrow> 0 < b \<Longrightarrow> (a :: int) sdiv b = a div b"
  by (cases "a = 0") (simp_all add: signed_divide_int_def)

lemma smod_nonneg [go_simps]: "0 \<le> a \<Longrightarrow> 0 < b \<Longrightarrow> (a :: int) smod b = a mod b"
  by (cases "a = 0") (simp_all add: signed_modulo_int_def)

lemma mod3_one: "(n :: int) mod 3 = 1 \<Longrightarrow> n = 3 * ((n - 1) div 3) + 1"
  by presburger

lemma mod3_not_one:
  "(n :: int) mod 3 \<noteq> 1 \<Longrightarrow> 2 * (2 * ((n - 1) div 3) + 1) - n < (n - 1) div 3 + 1"
  by presburger

section \<open>Lists\<close>

text \<open>Cutting a list into full pieces of a given size; what is left over is dropped.\<close>

fun chunks :: "nat \<Rightarrow> 'a list \<Rightarrow> 'a list list" where
  "chunks k xs = (if 0 < k \<and> k \<le> length xs then take k xs # chunks k (drop k xs) else [])"

declare chunks.simps [simp del]

lemma chunks_none: "\<not> (0 < k \<and> k \<le> length xs) \<Longrightarrow> chunks k xs = []"
  by (subst chunks.simps) (rule if_not_P)

lemma chunks_short [simp]: "length xs < k \<Longrightarrow> chunks k xs = []"
  by (simp add: chunks_none)

lemma chunks_step: "0 < k \<Longrightarrow> k \<le> length xs \<Longrightarrow> chunks k xs = take k xs # chunks k (drop k xs)"
  by (subst chunks.simps) simp

lemma chunks_append_full:
  "0 < k \<Longrightarrow> length ys = k \<Longrightarrow> chunks k (ys @ xs) = ys # chunks k xs"
  by (subst chunks.simps) simp

lemma concat_chunks_prefix: "concat (chunks k xs) = take (k * length (chunks k xs)) xs"
proof (induction k xs rule: chunks.induct)
  case (1 k xs)
  show ?case
  proof (cases "0 < k \<and> k \<le> length xs")
    case True
    with 1 show ?thesis
      by (simp add: chunks_step take_add)
  next
    case False
    then show ?thesis by (simp add: chunks_none)
  qed
qed

lemma chunks_length_elem: "c \<in> set (chunks k xs) \<Longrightarrow> length c = k"
proof (induction k xs rule: chunks.induct)
  case (1 k xs)
  then show ?case
    by (subst (asm) chunks.simps[of k xs]) (auto split: if_splits)
qed

end
