(* ===== verification/Crypto.thy ===== *)
theory Crypto
  imports Pac_Prelude
begin

text \<open>
  The package \<open>crypto\<close> (src/crypto/crypto.go): the byte hasher, Ed25519 signatures,
  threshold-signature shares and the signing service, together with the part of \<open>strconv\<close> that
  they use. The key encodings are in theory \<open>Keys\<close>.

  The primitives of \<open>crypto/ed25519\<close>, \<open>crypto/sha256\<close> and \<open>go.dedis.ch/kyber\<close> are the fields
  of the record \<open>crypto_ext\<close>, a parameter of every definition that uses them; \<open>'k\<close> is the
  type of kyber's opaque points, scalars and polynomials.
\<close>

section \<open>Primitives the package is built on\<close>

record 'k PriShare =
  ps_I :: int
  ps_V :: 'k

record 'k crypto_ext =
  sha256_Sum256 :: "bytes \<Rightarrow> digest"
  ed25519_verify :: "bytes \<Rightarrow> bytes \<Rightarrow> bytes \<Rightarrow> bool"
  ed25519_sign :: "bytes \<Rightarrow> bytes \<Rightarrow> bytes"
  bls_Verify :: "'k \<Rightarrow> bytes \<Rightarrow> bytes \<Rightarrow> string option"
  tbls_Recover :: "'k \<Rightarrow> bytes \<Rightarrow> bytes list \<Rightarrow> int \<Rightarrow> int \<Rightarrow> string + bytes"
  tbls_Sign :: "'k PriShare \<Rightarrow> bytes \<Rightarrow> string + bytes"
  pubpoly_Commit :: "'k \<Rightarrow> 'k"
  pubpoly_Info :: "'k \<Rightarrow> 'k \<times> 'k list"
  share_NewPubPoly :: "'k \<Rightarrow> 'k list \<Rightarrow> 'k"
  scalar_MarshalBinary :: "'k \<Rightarrow> string + bytes"
  scalar_UnmarshalBinary :: "bytes \<Rightarrow> string + 'k"
  point_MarshalBinary :: "'k \<Rightarrow> string + bytes"
  point_UnmarshalBinary :: "bytes \<Rightarrow> string + 'k"
  prishare_Hash :: "'k PriShare \<Rightarrow> bytes"

section \<open>strconv.AppendInt in base 2\<close>

text \<open>The digits of a non-negative number, most significant first, as ASCII \<open>0\<close> and \<open>1\<close>.\<close>

fun bin_digits :: "nat \<Rightarrow> bytes" where
  "bin_digits n =
     (if n < 2 then [48 + of_nat n] else bin_digits (n div 2) @ [48 + of_nat (n mod 2)])"

declare bin_digits.simps [simp del]

definition AppendInt2 :: "int \<Rightarrow> bytes" where
  "AppendInt2 i = (if i < 0 then 45 # bin_digits (nat (- i)) else bin_digits (nat i))"

fun bin_value :: "bytes \<Rightarrow> nat" where
  "bin_value bs = foldl (\<lambda>acc b. 2 * acc + unat (b - 48)) 0 bs"

lemma bin_digits_nonempty [simp]: "bin_digits n \<noteq> []"
  by (subst bin_digits.simps) simp

lemma bin_digits_range: "b \<in> set (bin_digits n) \<Longrightarrow> b = 48 \<or> b = 49"
proof (induction n rule: bin_digits.induct)
  case (1 n)
  have two: "m < 2 \<Longrightarrow> (48 + of_nat m :: byte) = 48 \<or> (48 + of_nat m :: byte) = 49" for m :: nat
    by (cases m) auto
  show ?case
    using 1 two[of n] two[of "n mod 2"]
    by (cases "n < 2") (auto simp: bin_digits.simps[of n])
qed

lemma bin_value_snoc: "bin_value (bs @ [b]) = 2 * bin_value bs + unat (b - 48)"
  by simp

lemma bin_value_digits: "bin_value (bin_digits n) = n"
proof (induction n rule: bin_digits.induct)
  case (1 n)
  have dig: "m < 2 \<Longrightarrow> unat (of_nat m :: byte) = m" for m :: nat
    by (cases m) auto
  show ?case
  proof (cases "n < 2")
    case True
    then show ?thesis by (simp add: bin_digits.simps[of n] dig)
  next
    case False
    then have "bin_value (bin_digits n) =
        2 * bin_value (bin_digits (n div 2)) + unat (of_nat (n mod 2) :: byte)"
      by (simp add: bin_digits.simps[of n] bin_value_snoc del: bin_value.simps)
    with 1 False dig[of "n mod 2"] show ?thesis by (simp del: bin_value.simps)
  qed
qed

lemma bin_digits_inj: "bin_digits m = bin_digits n \<Longrightarrow> m = n"
  by (metis bin_value_digits)

lemma minus_not_digits: "45 # xs \<noteq> bin_digits n"
proof
  assume "45 # xs = bin_digits n"
  then have "45 \<in> set (bin_digits n)" by (metis list.set_intros(1))
  then show False by (auto dest: bin_digits_range)
qed

lemma AppendInt2_inj: "AppendInt2 i = AppendInt2 j \<Longrightarrow> i = j"
  using minus_not_digits minus_not_digits[symmetric]
  by (auto simp: AppendInt2_def dest: bin_digits_inj split: if_splits)

text \<open>The renderings carry no length: a leading digit of one number may be the last of another.\<close>

lemma bin_digits_odd: "1 \<le> n \<Longrightarrow> bin_digits (2 * n + 1) = bin_digits n @ [49]"
  by (simp add: bin_digits.simps[of "Suc (2 * n)"])

lemma bin_digits_less: "n < 2 ^ length (bin_digits n)"
proof (induction n rule: bin_digits.induct)
  case (1 n)
  show ?case
  proof (cases "n < 2")
    case False
    with 1 have "n div 2 < 2 ^ length (bin_digits (n div 2))" by simp
    with False show ?thesis by (simp add: bin_digits.simps[of n])
  qed (simp add: bin_digits.simps[of n])
qed

lemma bin_digits_leading_one: "bin_digits (2 ^ length (bin_digits n) + n) = 49 # bin_digits n"
proof (induction n rule: bin_digits.induct)
  case (1 n)
  show ?case
  proof (cases "n < 2")
    case True
    then show ?thesis by (cases n) (simp_all add: bin_digits.simps)
  next
    case False
    let ?k = "length (bin_digits (n div 2))"
    have len: "length (bin_digits n) = Suc ?k" using False by (simp add: bin_digits.simps[of n])
    have half: "(2 ^ Suc ?k + n) div 2 = 2 ^ ?k + n div 2" "(2 ^ Suc ?k + n) mod 2 = n mod 2" by simp_all
    have "bin_digits (2 ^ Suc ?k + n) = bin_digits (2 ^ ?k + n div 2) @ [48 + of_nat (n mod 2)]"
      using False by (subst bin_digits.simps) (simp add: half del: power_Suc)
    also have "\<dots> = 49 # bin_digits n" using 1 False by (simp add: bin_digits.simps[of n])
    finally show ?thesis by (simp add: len)
  qed
qed

lemma AppendInt2_shift:
  assumes "1 \<le> a" "0 \<le> v"
  shows "AppendInt2 (2 * a + 1) @ AppendInt2 v = AppendInt2 a @ AppendInt2 (2 ^ length (AppendInt2 v) + v)"
proof -
  have a: "nat (2 * a + 1) = 2 * nat a + 1" and v: "nat (2 ^ k + v) = 2 ^ k + nat v" for k
    using assms by (simp_all add: nat_add_distrib nat_power_eq nat_mult_distrib)
  show ?thesis
    using assms bin_digits_odd[of "nat a"] bin_digits_leading_one[of "nat v"]
    by (simp add: AppendInt2_def a v add_nonneg_nonneg not_less)
qed

lemma AppendInt2_0 [simp]: "AppendInt2 0 = [48]"
  by (simp add: AppendInt2_def bin_digits.simps)

lemma AppendInt2_1 [simp]: "AppendInt2 1 = [49]"
  by (simp add: AppendInt2_def bin_digits.simps)

section \<open>Hasher\<close>

text \<open>\<open>Sum256\<close> returns the digest of the collected bytes and resets the hasher.\<close>

record Hasher =
  h_data :: bytes

definition NewHasher :: Hasher where
  "NewHasher = \<lparr>h_data = []\<rparr>"

definition Hasher_Add :: "bytes \<Rightarrow> Hasher \<Rightarrow> Hasher" where
  "Hasher_Add data h = h\<lparr>h_data := h_data h @ data\<rparr>"

definition Hasher_Sum256 :: "'k crypto_ext \<Rightarrow> bytes \<Rightarrow> Hasher \<Rightarrow> digest \<times> Hasher" where
  "Hasher_Sum256 cx data h = (sha256_Sum256 cx (h_data h @ data), h\<lparr>h_data := []\<rparr>)"

text \<open>What every \<open>Hash\<close> method does: add the parts to a fresh hasher and sum.\<close>

definition hash_parts :: "'k crypto_ext \<Rightarrow> bytes list \<Rightarrow> digest" where
  "hash_parts cx parts = fst (Hasher_Sum256 cx [] (fold Hasher_Add parts NewHasher))"

lemma fold_Hasher_Add: "h_data (fold Hasher_Add parts h) = h_data h @ concat parts"
  by (induction parts arbitrary: h) (auto simp: Hasher_Add_def)

lemma hash_parts_concat: "hash_parts cx parts = sha256_Sum256 cx (concat parts)"
  by (simp add: hash_parts_def Hasher_Sum256_def fold_Hasher_Add NewHasher_def)

section \<open>Keys, signatures and threshold shares\<close>

record PublickKey =
  Pubkey :: bytes

record PrivateKey =
  Prikey :: bytes

record 'k SecretShareKey =
  PubPoly :: 'k
  PriShare :: "'k PriShare"
  ssk_N :: int
  ssk_T :: int

record Signature =
  Sig :: bytes

record SignatureShare =
  PartialSig :: bytes

text \<open>
  \<open>ed25519.Verify\<close> panics when the public key does not have 32 bytes, and
  \<open>ed25519.Sign\<close> when the private key does not have 64.
\<close>

definition Signature_Verify :: "'k crypto_ext \<Rightarrow> Signature \<Rightarrow> PublickKey \<Rightarrow> digest \<Rightarrow> bool option" where
  "Signature_Verify cx s pub dig =
     (if length (Pubkey pub) = 32 then Some (ed25519_verify cx (Pubkey pub) dig (Sig s)) else None)"

definition SignatureShare_Verify :: "SignatureShare \<Rightarrow> digest \<Rightarrow> bool" where
  "SignatureShare_Verify s dig = True"

definition VerifyTs :: "'k crypto_ext \<Rightarrow> 'k SecretShareKey \<Rightarrow> digest \<Rightarrow> bytes \<Rightarrow> string option" where
  "VerifyTs cx skey dig intactSig = bls_Verify cx (pubpoly_Commit cx (PubPoly skey)) dig intactSig"

definition CombineIntactTSPartial ::
    "'k crypto_ext \<Rightarrow> SignatureShare list \<Rightarrow> 'k SecretShareKey \<Rightarrow> digest \<Rightarrow> string + bytes" where
  "CombineIntactTSPartial cx sigShares skey dig =
     tbls_Recover cx (PubPoly skey) dig (map PartialSig sigShares) (ssk_T skey) (ssk_N skey)"

section \<open>The signing service\<close>

text \<open>
  \<open>SigService\<close> is a goroutine that answers requests from a channel. A request carries its
  kind, the digest and, once answered, the result; \<open>sr_done\<close> records that \<open>done()\<close> was
  called, which is what the requester waits for. The dynamic type of \<open>ret any\<close> is the
  datatype \<open>sig_ret\<close>.
\<close>

datatype sig_ret = RetSignature Signature | RetShare SignatureShare

abbreviation (input) SIG :: int where "SIG \<equiv> 0"
abbreviation (input) SHARE :: int where "SHARE \<equiv> 1"

record sigReq =
  sr_typ :: int
  sr_digest :: digest
  sr_ret :: "sig_ret option"
  sr_err :: "string option"
  sr_done :: bool

record 'k SigService =
  ss_PriKey :: PrivateKey
  ss_ShareKey :: "'k SecretShareKey"

definition SigService_serve :: "'k crypto_ext \<Rightarrow> 'k SigService \<Rightarrow> sigReq \<Rightarrow> sigReq option" where
  "SigService_serve cx srvc req =
     (if sr_typ req = SIG then
        (if length (Prikey (ss_PriKey srvc)) = 64 then
           Some (req\<lparr>sr_ret := Some (RetSignature
                       \<lparr>Sig = ed25519_sign cx (Prikey (ss_PriKey srvc)) (sr_digest req)\<rparr>),
                     sr_done := True\<rparr>)
         else None)
      else if sr_typ req = SHARE then
        (case tbls_Sign cx (PriShare (ss_ShareKey srvc)) (sr_digest req) of
           Inl e \<Rightarrow> Some (req\<lparr>sr_ret := Some (RetShare \<lparr>PartialSig = []\<rparr>), sr_err := Some e,
                            sr_done := True\<rparr>)
         | Inr ps \<Rightarrow> Some (req\<lparr>sr_ret := Some (RetShare \<lparr>PartialSig = ps\<rparr>), sr_err := None,
                             sr_done := True\<rparr>))
      else Some req)"

definition RequestSignature :: "'k crypto_ext \<Rightarrow> 'k SigService \<Rightarrow> digest \<Rightarrow> Signature option" where
  "RequestSignature cx srvc dig =
     do { req \<leftarrow> SigService_serve cx srvc
            \<lparr>sr_typ = SIG, sr_digest = dig, sr_ret = None, sr_err = None, sr_done = False\<rparr>;
          Some (case sr_ret req of Some (RetSignature s) \<Rightarrow> s | _ \<Rightarrow> \<lparr>Sig = []\<rparr>) }"

definition RequestTsSugnature ::
    "'k crypto_ext \<Rightarrow> 'k SigService \<Rightarrow> digest \<Rightarrow> (SignatureShare \<times> string option) option" where
  "RequestTsSugnature cx srvc dig =
     do { req \<leftarrow> SigService_serve cx srvc
            \<lparr>sr_typ = SHARE, sr_digest = dig, sr_ret = None, sr_err = None, sr_done = False\<rparr>;
          Some (case sr_ret req of Some (RetShare s) \<Rightarrow> s | _ \<Rightarrow> \<lparr>PartialSig = []\<rparr>, sr_err req) }"

definition can_sign :: "'k SigService \<Rightarrow> bool" where
  "can_sign srvc \<longleftrightarrow> length (Prikey (ss_PriKey srvc)) = 64"

definition sig_by :: "'k crypto_ext \<Rightarrow> 'k SigService \<Rightarrow> digest \<Rightarrow> Signature" where
  "sig_by cx srvc dig = \<lparr>Sig = ed25519_sign cx (Prikey (ss_PriKey srvc)) dig\<rparr>"

lemma RequestSignature_eq [simp]:
  "RequestSignature cx srvc dig = (if can_sign srvc then Some (sig_by cx srvc dig) else None)"
  by (simp add: RequestSignature_def SigService_serve_def can_sign_def sig_by_def)

lemma RequestTsSugnature_eq:
  "RequestTsSugnature cx srvc dig =
     Some (case tbls_Sign cx (PriShare (ss_ShareKey srvc)) dig of
             Inl e \<Rightarrow> (\<lparr>PartialSig = []\<rparr>, Some e) | Inr ps \<Rightarrow> (\<lparr>PartialSig = ps\<rparr>, None))"
  by (simp add: RequestTsSugnature_def SigService_serve_def split: sum.split)

text \<open>The contract of a key pair: signatures by the private key verify under the public key.\<close>

definition key_pair :: "'k crypto_ext \<Rightarrow> PublickKey \<Rightarrow> PrivateKey \<Rightarrow> bool" where
  "key_pair cx pub pri \<longleftrightarrow>
     length (Pubkey pub) = 32 \<and> length (Prikey pri) = 64 \<and>
     (\<forall>dig. ed25519_verify cx (Pubkey pub) dig (ed25519_sign cx (Prikey pri) dig))"

lemma sign_then_verify:
  assumes "key_pair cx pub (ss_PriKey srvc)"
  shows "can_sign srvc \<and> Signature_Verify cx (sig_by cx srvc dig) pub dig = Some True"
  using assms by (simp add: key_pair_def can_sign_def sig_by_def Signature_Verify_def)

text \<open>
  Concrete primitives for the witnesses: a digest is the text itself, a signature is the
  digest, and a threshold signature can be recovered from enough equal shares.
\<close>

definition sample_cx :: "unit crypto_ext" where
  "sample_cx =
     \<lparr>sha256_Sum256 = (\<lambda>bs. bs), ed25519_verify = (\<lambda>pk d s. s = d), ed25519_sign = (\<lambda>sk d. d),
      bls_Verify = (\<lambda>k d s. if s = d then None else Some ''bls''),
      tbls_Recover = (\<lambda>k d ps t n. if t \<le> int (length ps) then Inr (d @ [0, 0, 0, 7]) else Inl ''few''),
      tbls_Sign = (\<lambda>k d. Inr d), pubpoly_Commit = (\<lambda>k. k), pubpoly_Info = (\<lambda>k. (k, [k])),
      share_NewPubPoly = (\<lambda>k ks. k), scalar_MarshalBinary = (\<lambda>k. Inr []),
      scalar_UnmarshalBinary = (\<lambda>bs. Inr ()), point_MarshalBinary = (\<lambda>k. Inr []), point_UnmarshalBinary = (\<lambda>bs. Inr ()), prishare_Hash = (\<lambda>p. [])\<rparr>"

definition sample_service :: "unit SigService" where
  "sample_service =
     \<lparr>ss_PriKey = \<lparr>Prikey = replicate 64 0\<rparr>,
      ss_ShareKey = \<lparr>PubPoly = (), PriShare = \<lparr>ps_I = 0, ps_V = ()\<rparr>, ssk_N = 4, ssk_T = 3\<rparr>\<rparr>"

lemma sample_can_sign [simp]: "can_sign sample_service"
  by (simp add: can_sign_def sample_service_def)

lemma sample_key_pair: "length (Pubkey pub) = 32 \<Longrightarrow> key_pair sample_cx pub (ss_PriKey sample_service)"
  by (simp add: key_pair_def sample_cx_def sample_service_def)

end
