(* ===== verification/Committee.thy ===== *)
theory Committee
  imports Crypto
begin

text \<open>
  src/core/config.go: the consensus parameters, the committee and its two thresholds.
  A Go map is an association list with distinct keys (\<open>committee_wf\<close>); the order of the
  list is the order in which a \<open>range\<close> over the map happens to visit it.
  The locale \<open>byzantine_quorums\<close> states what the protocol relies on when it waits for
  \<open>HightThreshold\<close> or \<open>LowThreshold\<close> messages.
\<close>

section \<open>Parameters and committee\<close>

record Parameters =
  SyncTimeout :: int
  NetwrokDelay :: int
  MinBlockDelay :: int
  DDos :: bool
  Faults :: int
  RetryDelay :: int
  Protocol :: int
  Latency :: "int list list"

definition DefaultParameters :: Parameters where
  "DefaultParameters =
     \<lparr>SyncTimeout = 500, NetwrokDelay = 2000, MinBlockDelay = 0, DDos = False, Faults = 0,
      RetryDelay = 5000, Protocol = 0, Latency = []\<rparr>"

definition NONE :: node_id where
  "NONE = - 1"

record Authority =
  auth_Name :: PublickKey
  auth_Id :: node_id
  auth_Addr :: string

definition zero_Authority :: Authority where
  "zero_Authority = \<lparr>auth_Name = \<lparr>Pubkey = []\<rparr>, auth_Id = 0, auth_Addr = []\<rparr>"

record Committee =
  Authorities :: "(node_id \<times> Authority) list"

definition committee_wf :: "Committee \<Rightarrow> bool" where
  "committee_wf c \<longleftrightarrow> distinct (map fst (Authorities c))"

definition members :: "Committee \<Rightarrow> node_id set" where
  "members c = fst ` set (Authorities c)"

text \<open>The loops of \<open>ID\<close> and \<open>IDByAddres\<close> return the first entry that matches.\<close>

definition Committee_ID :: "Committee \<Rightarrow> PublickKey \<Rightarrow> node_id" where
  "Committee_ID c name =
     (case find (\<lambda>(i, a). Pubkey (auth_Name a) = Pubkey name) (Authorities c) of
        Some (i, a) \<Rightarrow> i | None \<Rightarrow> NONE)"

definition Committee_IDByAddres :: "Committee \<Rightarrow> string \<Rightarrow> node_id" where
  "Committee_IDByAddres c address =
     (case find (\<lambda>(i, a). auth_Addr a = address) (Authorities c) of
        Some (i, a) \<Rightarrow> i | None \<Rightarrow> NONE)"

definition Committee_Size :: "Committee \<Rightarrow> int" where
  "Committee_Size c = int (length (Authorities c))"

text \<open>A missing key reads as the zero value of \<open>Authority\<close>.\<close>

definition authority_of :: "Committee \<Rightarrow> node_id \<Rightarrow> Authority" where
  "authority_of c i = (case map_of (Authorities c) i of Some a \<Rightarrow> a | None \<Rightarrow> zero_Authority)"

definition Committee_Name :: "Committee \<Rightarrow> node_id \<Rightarrow> PublickKey" where
  "Committee_Name c i = auth_Name (authority_of c i)"

definition Committee_Address :: "Committee \<Rightarrow> node_id \<Rightarrow> string" where
  "Committee_Address c i = auth_Addr (authority_of c i)"

definition Committee_BroadCast :: "Committee \<Rightarrow> node_id \<Rightarrow> string list" where
  "Committee_BroadCast c i = [auth_Addr a. (j, a) \<leftarrow> Authorities c, j \<noteq> i]"

definition HightThreshold :: "Committee \<Rightarrow> int" where
  "HightThreshold c = (let n = int (length (Authorities c)) in 2 * ((n - 1) sdiv 3) + 1)"

definition LowThreshold :: "Committee \<Rightarrow> int" where
  "LowThreshold c = (let n = int (length (Authorities c)) in (n - 1) sdiv 3 + 1)"

section \<open>Membership\<close>

lemma finite_members [simp]: "finite (members c)"
  by (simp add: members_def)

lemma card_members: "committee_wf c \<Longrightarrow> int (card (members c)) = Committee_Size c"
  unfolding members_def committee_wf_def Committee_Size_def
  by (metis distinct_card length_map set_map)

lemma authority_of_absent: "i \<notin> members c \<Longrightarrow> authority_of c i = zero_Authority"
  by (simp add: authority_of_def members_def map_of_eq_None_iff[symmetric])

lemma Committee_ID_Some:
  "Committee_ID c name = i \<Longrightarrow> i \<noteq> NONE \<Longrightarrow>
     \<exists>a. (i, a) \<in> set (Authorities c) \<and> Pubkey (auth_Name a) = Pubkey name"
  unfolding Committee_ID_def
  by (cases "find (\<lambda>(i, a). Pubkey (auth_Name a) = Pubkey name) (Authorities c)")
     (auto simp: find_Some_iff, metis nth_mem)

section \<open>Thresholds\<close>

lemma threshold_values:
  assumes "Authorities c \<noteq> []"
  shows "HightThreshold c = 2 * ((Committee_Size c - 1) div 3) + 1"
    and "LowThreshold c = (Committee_Size c - 1) div 3 + 1"
proof -
  from assms have "0 \<le> int (length (Authorities c)) - 1" by (cases "Authorities c") auto
  then show "HightThreshold c = 2 * ((Committee_Size c - 1) div 3) + 1"
    and "LowThreshold c = (Committee_Size c - 1) div 3 + 1"
    by (simp_all add: HightThreshold_def LowThreshold_def Committee_Size_def Let_def sdiv_nonneg)
qed

lemma HightThreshold_pos: "0 < HightThreshold c"
proof (cases "Authorities c = []")
  case True
  then show ?thesis by (simp add: HightThreshold_def signed_divide_int_def)
next
  case False
  then show ?thesis
    using threshold_values(1)[OF False] by (cases "Authorities c") (auto simp: Committee_Size_def)
qed

lemma HightThreshold_le_Size: "Authorities c \<noteq> [] \<Longrightarrow> HightThreshold c \<le> Committee_Size c"
  using threshold_values(1)[of c] by (cases "Authorities c") (auto simp: Committee_Size_def)

section \<open>Quorums\<close>

text \<open>
  The contract of the two thresholds: a committee of \<open>3f + 1\<close> members, of which at most
  \<open>f\<close> are faulty, waits for \<open>2f + 1\<close> or for \<open>f + 1\<close> of them.
\<close>

locale byzantine_quorums =
  fixes universe :: "'c \<Rightarrow> node_id set"
    and high :: "'c \<Rightarrow> int"
    and low :: "'c \<Rightarrow> int"
    and faults :: "'c \<Rightarrow> int"
    and sized :: "'c \<Rightarrow> bool"
  assumes finite_universe: "finite (universe c)"
    and universe_card: "sized c \<Longrightarrow> int (card (universe c)) = 3 * faults c + 1"
    and high_value: "sized c \<Longrightarrow> high c = 2 * faults c + 1"
    and low_value: "sized c \<Longrightarrow> low c = faults c + 1"
begin

lemma intersection_card:
  assumes "sized c" "A \<subseteq> universe c" "B \<subseteq> universe c"
    and "high c \<le> int (card A)" "high c \<le> int (card B)"
  shows "low c \<le> int (card (A \<inter> B))"
proof -
  have fin: "finite A" "finite B"
    using assms(2,3) finite_universe finite_subset by blast+
  have "card (A \<union> B) \<le> card (universe c)"
    using assms(2,3) finite_universe by (intro card_mono) auto
  moreover have "card (A \<union> B) + card (A \<inter> B) = card A + card B"
    using card_Un_Int[OF fin] by simp
  ultimately show ?thesis
    using assms(4,5) universe_card[OF assms(1)] high_value[OF assms(1)] low_value[OF assms(1)]
    by linarith
qed

text \<open>A set of \<open>low\<close> members contains one that is not among the \<open>f\<close> faulty ones.\<close>

lemma low_has_honest:
  assumes "sized c" "low c \<le> int (card A)" "finite Bad" "int (card Bad) \<le> faults c"
  shows "\<exists>i \<in> A. i \<notin> Bad"
proof (rule ccontr)
  assume "\<not> ?thesis"
  then have "A \<subseteq> Bad" by blast
  then have "card A \<le> card Bad" using assms(3) by (intro card_mono)
  then show False using assms(2,4) low_value[OF assms(1)] by linarith
qed

text \<open>The honest members alone reach the high threshold, so waiting for it cannot block.\<close>

lemma honest_reach_high:
  assumes "sized c" "Bad \<subseteq> universe c" "int (card Bad) \<le> faults c"
  shows "high c \<le> int (card (universe c - Bad))"
proof -
  have "card (universe c - Bad) = card (universe c) - card Bad"
    using assms(2) finite_universe finite_subset by (intro card_Diff_subset) blast+
  moreover have "card Bad \<le> card (universe c)"
    using assms(2) finite_universe by (intro card_mono)
  ultimately show ?thesis
    using assms(3) universe_card[OF assms(1)] high_value[OF assms(1)] by linarith
qed

lemma quorums_share_honest:
  assumes "sized c" "A \<subseteq> universe c" "B \<subseteq> universe c"
    and "high c \<le> int (card A)" "high c \<le> int (card B)"
    and "finite Bad" "int (card Bad) \<le> faults c"
  shows "\<exists>i \<in> A \<inter> B. i \<notin> Bad"
  using low_has_honest[OF assms(1) intersection_card[OF assms(1-5)] assms(6,7)] .

end

definition byz_bound :: "Committee \<Rightarrow> int" where
  "byz_bound c = (Committee_Size c - 1) div 3"

definition three_f_plus_1 :: "Committee \<Rightarrow> bool" where
  "three_f_plus_1 c \<longleftrightarrow> committee_wf c \<and> Committee_Size c mod 3 = 1"

lemma three_f_plus_1_nonempty: "three_f_plus_1 c \<Longrightarrow> Authorities c \<noteq> []"
  by (auto simp: three_f_plus_1_def Committee_Size_def)

interpretation cq: byzantine_quorums members HightThreshold LowThreshold byz_bound three_f_plus_1
proof
  fix c assume c: "three_f_plus_1 c"
  then have "Committee_Size c = 3 * byz_bound c + 1"
    unfolding three_f_plus_1_def byz_bound_def by (blast dest: mod3_one)
  with c show "int (card (members c)) = 3 * byz_bound c + 1"
    by (simp add: three_f_plus_1_def card_members)
  show "HightThreshold c = 2 * byz_bound c + 1" and "LowThreshold c = byz_bound c + 1"
    using threshold_values[OF three_f_plus_1_nonempty[OF c]] by (simp_all add: byz_bound_def)
qed simp

text \<open>Two quorums of size \<open>h\<close> in a set of size \<open>n\<close> that overlap as little as possible.\<close>

lemma least_overlap:
  assumes "finite U" "h \<le> card U"
  obtains A B where "A \<subseteq> U" "B \<subseteq> U" "card A = h" "card B = h"
    "card (A \<inter> B) = 2 * h - card U"
proof -
  obtain A where A: "A \<subseteq> U" "card A = h"
    using assms obtain_subset_with_card_n by metis
  have fin: "finite A" using A assms(1) finite_subset by blast
  have rest: "card (U - A) = card U - h"
    using A fin by (simp add: card_Diff_subset)
  show ?thesis
  proof (cases "h \<le> card (U - A)")
    case True
    then obtain B where B: "B \<subseteq> U - A" "card B = h"
      using obtain_subset_with_card_n by metis
    then have "A \<inter> B = {}" by blast
    with True rest have "card (A \<inter> B) = 2 * h - card U" by simp
    with A B that show ?thesis by blast
  next
    case False
    then have "2 * h - card U \<le> card A" using A assms(2) by simp
    then obtain C where C: "C \<subseteq> A" "card C = 2 * h - card U"
      using obtain_subset_with_card_n by metis
    have finC: "finite C" using C fin finite_subset by blast
    have "card (C \<union> (U - A)) = card C + card (U - A)"
      using C assms(1) finC by (intro card_Un_disjoint) auto
    with C False rest assms(2) have "card (C \<union> (U - A)) = h" by linarith
    moreover have "A \<inter> (C \<union> (U - A)) = C" using C by blast
    moreover have "C \<union> (U - A) \<subseteq> U" using A C by blast
    ultimately show ?thesis using A C that by metis
  qed
qed

definition quorums_overlap :: "Committee \<Rightarrow> bool" where
  "quorums_overlap c \<longleftrightarrow>
     (\<forall>A B. A \<subseteq> members c \<longrightarrow> B \<subseteq> members c \<longrightarrow>
        HightThreshold c \<le> int (card A) \<longrightarrow> HightThreshold c \<le> int (card B) \<longrightarrow>
        LowThreshold c \<le> int (card (A \<inter> B)))"

lemma quorums_overlap_only_if:
  assumes wf: "committee_wf c" and ne: "Authorities c \<noteq> []" and ov: "quorums_overlap c"
  shows "Committee_Size c mod 3 = 1"
proof (rule ccontr)
  assume bad: "Committee_Size c mod 3 \<noteq> 1"
  let ?h = "nat (HightThreshold c)"
  have n: "int (card (members c)) = Committee_Size c" using wf by (rule card_members)
  have "?h \<le> card (members c)"
    using HightThreshold_le_Size[OF ne] n by linarith
  then obtain A B where AB: "A \<subseteq> members c" "B \<subseteq> members c" "card A = ?h" "card B = ?h"
      "card (A \<inter> B) = 2 * ?h - card (members c)"
    using least_overlap[of "members c" ?h] by auto
  have "LowThreshold c \<le> int (card (A \<inter> B))"
    using ov AB(1-4) HightThreshold_pos[of c] unfolding quorums_overlap_def by auto
  moreover have "int (card (A \<inter> B)) < LowThreshold c"
  proof -
    have "int (card (A \<inter> B)) = max 0 (2 * HightThreshold c - Committee_Size c)"
      using AB(5) n HightThreshold_pos[of c] by linarith
    then show ?thesis
      using mod3_not_one[OF bad] threshold_values[OF ne] HightThreshold_pos[of c]
      by (simp add: max_def)
  qed
  ultimately show False by simp
qed

text \<open>
  C5. The committee's thresholds have the Byzantine quorum property, that any two sets of
  \<open>HightThreshold\<close> members share at least \<open>LowThreshold\<close> (\<open>f + 1\<close>) members, exactly for the
  committee sizes of the form \<open>3f + 1\<close>; with any other size there are two quorums whose
  common members may all be faulty.
\<close>

theorem quorums_overlap_iff:
  assumes "committee_wf c" "Authorities c \<noteq> []"
  shows "quorums_overlap c \<longleftrightarrow> Committee_Size c mod 3 = 1"
proof
  assume "quorums_overlap c"
  with assms show "Committee_Size c mod 3 = 1" by (rule quorums_overlap_only_if)
next
  assume "Committee_Size c mod 3 = 1"
  with assms have "three_f_plus_1 c" by (simp add: three_f_plus_1_def)
  then show "quorums_overlap c"
    unfolding quorums_overlap_def using cq.intersection_card by blast
qed

text \<open>The committees of the witnesses: \<open>n\<close> members with distinct 32-byte keys.\<close>

definition sample_authority :: "nat \<Rightarrow> node_id \<times> Authority" where
  "sample_authority i =
     (int i, \<lparr>auth_Name = \<lparr>Pubkey = replicate 31 0 @ [of_nat i]\<rparr>, auth_Id = int i,
              auth_Addr = replicate i CHR ''a''\<rparr>)"

definition sample_committee :: "nat \<Rightarrow> Committee" where
  "sample_committee n = \<lparr>Authorities = map sample_authority [0..<n]\<rparr>"

lemma sample_committee_wf [simp]: "committee_wf (sample_committee n)"
  by (simp add: committee_wf_def sample_committee_def sample_authority_def comp_def
      distinct_map inj_on_def)

lemma sample_committee_size [simp]: "Committee_Size (sample_committee n) = int n"
  by (simp add: Committee_Size_def sample_committee_def)

lemma sample_committee_nonempty: "Authorities (sample_committee n) \<noteq> [] \<longleftrightarrow> 0 < n"
  by (simp add: sample_committee_def)

theorem quorums_overlap_iff_witness:
  "quorums_overlap (sample_committee 4) \<and> \<not> quorums_overlap (sample_committee 5)"
  using quorums_overlap_iff[of "sample_committee 4"] quorums_overlap_iff[of "sample_committee 5"]
  by (simp add: sample_committee_nonempty)

text \<open>
  In a committee of \<open>3f + 1\<close> members with at most \<open>f\<close> faulty ones, two quorums of
  \<open>HightThreshold\<close> members share an honest member, and the honest members alone form such a
  quorum, so that waiting for \<open>HightThreshold\<close> messages is both safe and live.
\<close>

theorem honest_quorums:
  assumes "three_f_plus_1 c" "Bad \<subseteq> members c" "int (card Bad) \<le> byz_bound c"
  shows "HightThreshold c \<le> int (card (members c - Bad)) \<and>
    (\<forall>A B. A \<subseteq> members c \<longrightarrow> B \<subseteq> members c \<longrightarrow> HightThreshold c \<le> int (card A) \<longrightarrow>
       HightThreshold c \<le> int (card B) \<longrightarrow> (\<exists>i \<in> A \<inter> B. i \<notin> Bad))"
proof (intro conjI allI impI)
  show "HightThreshold c \<le> int (card (members c - Bad))"
    using assms by (rule cq.honest_reach_high)
next
  fix A B
  assume "A \<subseteq> members c" "B \<subseteq> members c" "HightThreshold c \<le> int (card A)"
    "HightThreshold c \<le> int (card B)"
  moreover have "finite Bad" using assms(2) finite_members finite_subset by blast
  ultimately show "\<exists>i \<in> A \<inter> B. i \<notin> Bad"
    using cq.quorums_share_honest[OF assms(1)] assms(3) by blast
qed

lemma members_sample: "members (sample_committee n) = int ` {0..<n}"
  by (simp add: members_def sample_committee_def sample_authority_def image_image)

lemma HightThreshold_sample:
  "0 < n \<Longrightarrow> HightThreshold (sample_committee n) = 2 * ((int n - 1) div 3) + 1"
  using threshold_values(1)[of "sample_committee n"] by (simp add: sample_committee_nonempty)

theorem honest_quorums_witness:
  "HightThreshold (sample_committee 4) \<le> int (card (members (sample_committee 4) - {3})) \<and>
   (\<exists>i \<in> {0, 1, 3} \<inter> {1, 2, 3}. i \<notin> {3 :: int})"
proof -
  have m: "members (sample_committee 4) = {0, 1, 2, 3}"
    by (simp add: members_sample atLeast0_lessThan_Suc numeral_eq_Suc insert_commute)
  have t: "three_f_plus_1 (sample_committee 4)" by (simp add: three_f_plus_1_def)
  have b: "{3} \<subseteq> members (sample_committee 4)" "int (card {3 :: int}) \<le> byz_bound (sample_committee 4)"
    by (simp_all add: m byz_bound_def)
  show ?thesis
    using honest_quorums[OF t b] by (simp add: HightThreshold_sample m)
qed

end
