(* ===== verification/Pool.thy ===== *)
theory Pool
  imports Pac_Prelude
begin

text \<open>
  The transaction pool (src/pool): a ring buffer of transactions that is cut into batches,
  the synthetic transaction maker, and the pool that connects them by channels.

  Two goroutines run concurrently: \<open>txQueue.run\<close> receives transactions, and the consensus
  code calls \<open>GetBatch\<close>. The only point at which \<open>run\<close> can be suspended in the middle of
  an iteration is the send of the finished batch to the bounded channel \<open>batchChannel\<close>;
  \<open>txQueue_recv\<close> therefore yields the batch to be sent, and \<open>pool_step\<close> interleaves that
  send with the other goroutines.
\<close>

section \<open>Data\<close>

type_synonym Transaction = bytes

record Batch =
  batch_ID :: int
  batch_Txs :: "Transaction list"

record PoolParameters =
  pp_Rate :: int
  pp_TxSize :: int
  pp_BatchSize :: int
  pp_MaxQueueSize :: int

definition DefaultPoolParameters :: PoolParameters where
  "DefaultPoolParameters =
     \<lparr>pp_Rate = 1000, pp_TxSize = 16, pp_BatchSize = 200, pp_MaxQueueSize = 10000\<rparr>"

record txQueue =
  q_queue :: "Transaction list"
  q_batchChannel :: "Batch list"
  q_wind :: int
  q_rind :: int
  q_nums :: int
  q_maxQueueSize :: int
  q_batchSize :: int
  q_N :: int
  q_Id :: int
  q_bcnt :: int

section \<open>The ring buffer\<close>

text \<open>\<open>make([]Transaction, maxQueueSize)\<close> panics on a negative size.\<close>

definition newTxQueue :: "int \<Rightarrow> int \<Rightarrow> int \<Rightarrow> int \<Rightarrow> txQueue option" where
  "newTxQueue maxQueueSize batchSize N ident =
     (if maxQueueSize < 0 then None
      else Some \<lparr>q_queue = replicate (nat maxQueueSize) [], q_batchChannel = [], q_wind = 0,
                 q_rind = - 1, q_nums = 0, q_maxQueueSize = maxQueueSize,
                 q_batchSize = batchSize, q_N = N, q_Id = ident, q_bcnt = 0\<rparr>)"

text \<open>
  The loop of \<open>make\<close>: it moves the read index \<open>n\<close> times and collects the slots it passes.
\<close>

fun txQueue_collect :: "nat \<Rightarrow> txQueue \<Rightarrow> Transaction list \<Rightarrow> (txQueue \<times> Transaction list) option" where
  "txQueue_collect 0 q txs = Some (q, txs)"
| "txQueue_collect (Suc n) q txs =
     (if q_maxQueueSize q = 0 then None
      else let r = (q_rind q + 1) smod q_maxQueueSize q in
        if 0 \<le> r \<and> r < int (length (q_queue q)) then
          txQueue_collect n (q\<lparr>q_rind := r, q_nums := q_nums q - 1\<rparr>) (txs @ [q_queue q ! nat r])
        else None)"

text \<open>\<open>make\<close> up to its channel send: the batch and the queue with the slots consumed.\<close>

definition txQueue_make :: "txQueue \<Rightarrow> (txQueue \<times> Batch) option" where
  "txQueue_make q =
     do { (q', txs) \<leftarrow> txQueue_collect (nat (q_batchSize q)) q [];
          Some (q', \<lparr>batch_ID = q_Id q + q_N q * q_bcnt q, batch_Txs = txs\<rparr>) }"

text \<open>The channel send at the end of \<open>make\<close> and its deferred function.\<close>

definition txQueue_send :: "txQueue \<Rightarrow> Batch \<Rightarrow> txQueue" where
  "txQueue_send q b = q\<lparr>q_batchChannel := q_batchChannel q @ [b], q_bcnt := q_bcnt q + 1\<rparr>"

text \<open>One iteration of the loop of \<open>run\<close>, up to the send of a finished batch.\<close>

definition txQueue_recv :: "txQueue \<Rightarrow> Transaction \<Rightarrow> (txQueue \<times> Batch option) option" where
  "txQueue_recv q tx =
     (if q_wind q = q_rind q then Some (q, None)
      else if \<not> (0 \<le> q_wind q \<and> q_wind q < int (length (q_queue q))) then None
      else let q1 = q\<lparr>q_queue := (q_queue q)[nat (q_wind q) := tx],
                      q_wind := (q_wind q + 1) smod q_maxQueueSize q,
                      q_nums := q_nums q + 1\<rparr> in
        if q_batchSize q \<le> q_nums q1 then
          do { (q2, b) \<leftarrow> txQueue_make q1; Some (q2, Some b) }
        else Some (q1, None))"

text \<open>\<open>run\<close> over a sequence of transactions while the batch channel has room.\<close>

fun txQueue_run :: "txQueue \<Rightarrow> Transaction list \<Rightarrow> txQueue option" where
  "txQueue_run q [] = Some q"
| "txQueue_run q (tx # txs) =
     do { (q', ob) \<leftarrow> txQueue_recv q tx;
          txQueue_run (case ob of None \<Rightarrow> q' | Some b \<Rightarrow> txQueue_send q' b) txs }"

definition empty_batch :: Batch where
  "empty_batch = \<lparr>batch_ID = - 1, batch_Txs = []\<rparr>"

definition txQueue_get :: "txQueue \<Rightarrow> Batch \<times> txQueue" where
  "txQueue_get q =
     (case q_batchChannel q of
        [] \<Rightarrow> (empty_batch, q)
      | b # bs \<Rightarrow> (b, q\<lparr>q_batchChannel := bs\<rparr>))"

section \<open>The transaction maker and the pool\<close>

abbreviation (input) PRECISION :: int where "PRECISION \<equiv> 20"

definition BURST_DURATION :: int where
  "BURST_DURATION = 1000 sdiv PRECISION"

record txMaker =
  mk_txSize :: int
  mk_rate :: int

definition newTxMaker :: "int \<Rightarrow> int \<Rightarrow> txMaker" where
  "newTxMaker txSize rate = \<lparr>mk_txSize = txSize, mk_rate = rate\<rparr>"

text \<open>The transactions one tick of \<open>txMaker.run\<close> sends.\<close>

definition txMaker_burst :: "txMaker \<Rightarrow> Transaction list option" where
  "txMaker_burst m =
     (let nums = mk_rate m sdiv PRECISION in
      if 0 < nums \<and> mk_txSize m < 0 then None
      else Some (replicate (nat nums) (replicate (nat (mk_txSize m)) 0)))"

text \<open>
  \<open>Pool\<close>. \<open>p_pending\<close> is the batch that \<open>make\<close> is about to send: while it is \<open>Some b\<close> the
  queue's goroutine is suspended in that send.
\<close>

record Pool =
  p_parameters :: PoolParameters
  p_queue :: txQueue
  p_maker :: txMaker
  p_txChannel :: "Transaction list"
  p_pending :: "Batch option"

definition NewPool :: "PoolParameters \<Rightarrow> int \<Rightarrow> int \<Rightarrow> Pool option" where
  "NewPool ps N ident =
     do { q \<leftarrow> newTxQueue (pp_MaxQueueSize ps) (pp_BatchSize ps) N ident;
          Some \<lparr>p_parameters = ps, p_queue = q,
                p_maker = newTxMaker (pp_TxSize ps) (pp_Rate ps),
                p_txChannel = [], p_pending = None\<rparr> }"

definition GetBatch :: "Pool \<Rightarrow> Batch \<times> Pool" where
  "GetBatch p = (case txQueue_get (p_queue p) of (b, q) \<Rightarrow> (b, p\<lparr>p_queue := q\<rparr>))"

text \<open>
  The steps of the goroutines that \<open>Pool.Run\<close> starts and of a caller of \<open>GetBatch\<close>, with
  the capacities \<open>10_000\<close> and \<open>1_000\<close> of the two channels.
\<close>

datatype pool_event =
    TxSent Transaction          \<comment> \<open>the maker's \<open>txChannel <- tx\<close>\<close>
  | TxTaken Transaction         \<comment> \<open>the queue received a transaction\<close>
  | BatchSent Batch             \<comment> \<open>the queue's \<open>batchChannel <- batch\<close>\<close>
  | BatchTaken Batch            \<comment> \<open>\<open>GetBatch\<close> returned\<close>

inductive pool_step :: "Pool \<Rightarrow> pool_event \<Rightarrow> Pool \<Rightarrow> bool" where
  step_maker: "\<lbrakk>txMaker_burst (p_maker p) = Some txs; tx \<in> set txs; length (p_txChannel p) < 10000\<rbrakk> \<Longrightarrow>
     pool_step p (TxSent tx) (p\<lparr>p_txChannel := p_txChannel p @ [tx]\<rparr>)"
| step_recv: "\<lbrakk>p_pending p = None; p_txChannel p = tx # rest;
     txQueue_recv (p_queue p) tx = Some (q', ob)\<rbrakk> \<Longrightarrow>
     pool_step p (TxTaken tx) (p\<lparr>p_txChannel := rest, p_queue := q', p_pending := ob\<rparr>)"
| step_send: "\<lbrakk>p_pending p = Some b; length (q_batchChannel (p_queue p)) < 1000\<rbrakk> \<Longrightarrow>
     pool_step p (BatchSent b) (p\<lparr>p_queue := txQueue_send (p_queue p) b, p_pending := None\<rparr>)"
| step_get: "GetBatch p = (b, p') \<Longrightarrow> pool_step p (BatchTaken b) p'"

inductive pool_run :: "Pool \<Rightarrow> pool_event list \<Rightarrow> Pool \<Rightarrow> bool" where
  run_start: "pool_run p [] p"
| run_step: "pool_run p es p' \<Longrightarrow> pool_step p' e p'' \<Longrightarrow> pool_run p (es @ [e]) p''"

section \<open>The ring buffer refines a list\<close>

text \<open>
  The transactions in the ring, oldest first, and the shape of the ring: the write index is
  \<open>q_nums\<close> slots after the slot that follows the read index.
\<close>

definition ring_index :: "txQueue \<Rightarrow> nat \<Rightarrow> nat" where
  "ring_index q i = nat ((q_rind q + 1 + int i) mod q_maxQueueSize q)"

definition ring_contents :: "txQueue \<Rightarrow> Transaction list" where
  "ring_contents q = map (\<lambda>i. q_queue q ! ring_index q i) [0..<nat (q_nums q)]"

definition ring_ok :: "txQueue \<Rightarrow> bool" where
  "ring_ok q \<longleftrightarrow>
     0 < q_maxQueueSize q \<and> int (length (q_queue q)) = q_maxQueueSize q \<and>
     - 1 \<le> q_rind q \<and> q_rind q < q_maxQueueSize q \<and>
     0 \<le> q_nums q \<and> q_nums q \<le> q_maxQueueSize q \<and>
     q_wind q = (q_rind q + 1 + q_nums q) mod q_maxQueueSize q"

text \<open>The invariant between iterations of \<open>run\<close>, for a batch size below the capacity.\<close>

definition txQueue_inv :: "txQueue \<Rightarrow> bool" where
  "txQueue_inv q \<longleftrightarrow>
     ring_ok q \<and> 0 < q_batchSize q \<and> q_batchSize q < q_maxQueueSize q \<and> q_nums q < q_batchSize q"

lemma ring_contents_length [simp]: "length (ring_contents q) = nat (q_nums q)"
  by (simp add: ring_contents_def)

lemma mod_eq_window:
  assumes "(a + i) mod m = (a + j) mod m" "0 \<le> i" "i < m" "0 \<le> j" "j < m"
  shows "i = (j :: int)"
proof -
  have "(i - j) mod m = 0"
    using assms(1) mod_diff_cong[of "a + i" m "a + j" "a + j" "a + j"] by (simp add: algebra_simps)
  then have d: "m dvd i - j" by (simp add: dvd_eq_mod_eq_0)
  then have d': "m dvd j - i" using dvd_minus_iff[of m "i - j"] by simp
  show ?thesis
    using assms(2-5) zdvd_imp_le[OF d] zdvd_imp_le[OF d'] by linarith
qed

lemma ring_index_bound: "ring_ok q \<Longrightarrow> ring_index q i < length (q_queue q)"
  using pos_mod_bound[of "q_maxQueueSize q" "q_rind q + 1 + int i"]
    pos_mod_sign[of "q_maxQueueSize q" "q_rind q + 1 + int i"]
  by (auto simp: ring_ok_def ring_index_def nat_less_iff)

lemma ring_index_inj:
  assumes "ring_ok q" "ring_index q i = ring_index q j"
    "int i < q_maxQueueSize q" "int j < q_maxQueueSize q"
  shows "i = j"
proof -
  have "(q_rind q + 1 + int i) mod q_maxQueueSize q = (q_rind q + 1 + int j) mod q_maxQueueSize q"
    using assms(1,2) by (simp add: ring_index_def ring_ok_def eq_nat_nat_iff)
  then show ?thesis using mod_eq_window[of "q_rind q + 1" "int i"] assms(3,4) by fastforce
qed

text \<open>Moving the read index by one removes the oldest element.\<close>

lemma ring_pop:
  assumes "ring_ok q" "0 < q_nums q"
  defines "r \<equiv> (q_rind q + 1) mod q_maxQueueSize q"
  defines "q' \<equiv> q\<lparr>q_rind := r, q_nums := q_nums q - 1\<rparr>"
  shows "ring_ok q' \<and> ring_contents q = q_queue q ! nat r # ring_contents q'"
proof
  have m: "0 < q_maxQueueSize q" and r: "0 \<le> r" "r < q_maxQueueSize q"
    using assms(1) by (auto simp: ring_ok_def r_def)
  have shift: "(r + 1 + x) mod q_maxQueueSize q = (q_rind q + 1 + (1 + x)) mod q_maxQueueSize q" for x
    unfolding r_def add.assoc[of "_ mod _"] by (rule mod_add_left_eq)
  show "ring_ok q'"
    using assms(1,2) r shift[of "q_nums q - 1"] by (auto simp: ring_ok_def q'_def)
  have "ring_index q' i = ring_index q (Suc i)" for i
    using shift[of "int i"] by (simp add: ring_index_def q'_def algebra_simps)
  moreover have "nat (q_nums q) = Suc (nat (q_nums q - 1))" using assms(2) by simp
  moreover have "ring_index q 0 = nat r" by (simp add: ring_index_def r_def)
  ultimately show "ring_contents q = q_queue q ! nat r # ring_contents q'"
    by (simp add: ring_contents_def q'_def map_upt_Suc del: upt_Suc)
qed

lemma collect_spec:
  assumes "ring_ok q" "int n \<le> q_nums q"
  shows "\<exists>q'. txQueue_collect n q txs = Some (q', txs @ take n (ring_contents q)) \<and> ring_ok q' \<and>
     ring_contents q' = drop n (ring_contents q) \<and> q_nums q' = q_nums q - int n \<and>
     q_rind q' = (if n = 0 then q_rind q else (q_rind q + int n) mod q_maxQueueSize q) \<and>
     q' = q\<lparr>q_rind := q_rind q', q_nums := q_nums q'\<rparr>"
  using assms
proof (induction n arbitrary: q txs)
  case 0
  then show ?case by simp
next
  case (Suc n)
  let ?r = "(q_rind q + 1) mod q_maxQueueSize q"
  let ?q = "q\<lparr>q_rind := ?r, q_nums := q_nums q - 1\<rparr>"
  have pop: "ring_ok ?q" "ring_contents q = q_queue q ! nat ?r # ring_contents ?q"
    using ring_pop[of q] Suc.prems by auto
  have step: "txQueue_collect (Suc n) q txs = txQueue_collect n ?q (txs @ [q_queue q ! nat ?r])"
    using Suc.prems(1) by (auto simp: ring_ok_def Let_def smod_nonneg)
  have "int n \<le> q_nums ?q" using Suc.prems(2) by simp
  from Suc.IH[OF pop(1) this, of "txs @ [q_queue q ! nat ?r]"]
  obtain q' where q': "txQueue_collect n ?q (txs @ [q_queue q ! nat ?r]) =
        Some (q', (txs @ [q_queue q ! nat ?r]) @ take n (ring_contents ?q))"
      "ring_ok q'" "ring_contents q' = drop n (ring_contents ?q)"
      "q_nums q' = q_nums ?q - int n"
      "q_rind q' = (if n = 0 then q_rind ?q else (q_rind ?q + int n) mod q_maxQueueSize ?q)"
      "q' = ?q\<lparr>q_rind := q_rind q', q_nums := q_nums q'\<rparr>"
    by blast
  have "q' = q\<lparr>q_rind := q_rind q', q_nums := q_nums q'\<rparr>"
    using q'(6) by simp
  moreover have "q_rind q' = (q_rind q + int (Suc n)) mod q_maxQueueSize q"
    using q'(5) mod_add_left_eq[of "q_rind q + 1" "q_maxQueueSize q" "int n"]
    by (auto simp: add.assoc)
  ultimately show ?case using q'(1-4) pop(2) step by auto
qed

text \<open>Writing at the write index appends an element.\<close>

lemma ring_push:
  fixes tx :: Transaction
  assumes "ring_ok q" "q_nums q < q_maxQueueSize q"
  defines "q' \<equiv> q\<lparr>q_queue := (q_queue q)[nat (q_wind q) := tx],
                  q_wind := (q_wind q + 1) smod q_maxQueueSize q, q_nums := q_nums q + 1\<rparr>"
  shows "ring_ok q' \<and> ring_contents q' = ring_contents q @ [tx]"
proof
  have m: "0 < q_maxQueueSize q" and n: "0 \<le> q_nums q"
    and w: "q_wind q = (q_rind q + 1 + q_nums q) mod q_maxQueueSize q"
    using assms(1) by (auto simp: ring_ok_def)
  have "0 \<le> q_wind q" using m w by simp
  then have "(q_wind q + 1) smod q_maxQueueSize q = (q_wind q + 1) mod q_maxQueueSize q"
    using m by (simp add: smod_nonneg)
  then have w': "q_wind q' = (q_rind q + 1 + (q_nums q + 1)) mod q_maxQueueSize q"
    by (simp add: q'_def w mod_simps algebra_simps)
  then show "ring_ok q'" using assms(1,2) by (auto simp: ring_ok_def q'_def)
  have widx: "nat (q_wind q) = ring_index q (nat (q_nums q))"
    using n by (simp add: ring_index_def w)
  have idx: "ring_index q' = ring_index q" by (simp add: ring_index_def q'_def fun_eq_iff)
  have "q_queue q' ! ring_index q i = q_queue q ! ring_index q i" if "i < nat (q_nums q)" for i
  proof -
    have "ring_index q i \<noteq> nat (q_wind q)"
      using that ring_index_inj[OF assms(1), of i "nat (q_nums q)"] assms(2) n widx by auto
    then show ?thesis by (simp add: q'_def)
  qed
  moreover have "q_queue q' ! ring_index q (nat (q_nums q)) = tx"
    using ring_index_bound[OF assms(1)] widx by (simp add: q'_def)
  moreover have "nat (q_nums q') = Suc (nat (q_nums q))" using n by (simp add: q'_def)
  ultimately show "ring_contents q' = ring_contents q @ [tx]"
    by (simp add: ring_contents_def idx)
qed

lemma ring_not_full:
  assumes "ring_ok q" "q_nums q < q_maxQueueSize q - 1"
  shows "q_wind q \<noteq> q_rind q"
proof
  assume eq: "q_wind q = q_rind q"
  have w: "q_wind q = (q_rind q + 1 + q_nums q) mod q_maxQueueSize q"
    and m: "0 < q_maxQueueSize q" and r: "q_rind q < q_maxQueueSize q" and n: "0 \<le> q_nums q"
    using assms(1) by (auto simp: ring_ok_def)
  have "0 \<le> q_rind q" using w m eq by (metis pos_mod_sign)
  then have "(q_rind q + 0) mod q_maxQueueSize q = (q_rind q + (1 + q_nums q)) mod q_maxQueueSize q"
    using eq w r by (simp add: algebra_simps)
  from mod_eq_window[OF this] n m assms(2) show False by simp
qed

text \<open>What one iteration of \<open>run\<close> does, seen on the list.\<close>

lemma txQueue_recv_spec:
  assumes inv: "txQueue_inv q"
  shows "\<exists>q' ob. txQueue_recv q tx = Some (q', ob) \<and> txQueue_inv q' \<and>
     (if int (length (ring_contents q)) + 1 < q_batchSize q
      then ob = None \<and> ring_contents q' = ring_contents q @ [tx]
      else ob = Some \<lparr>batch_ID = q_Id q + q_N q * q_bcnt q, batch_Txs = ring_contents q @ [tx]\<rparr> \<and>
           ring_contents q' = []) \<and>
     q_batchChannel q' = q_batchChannel q \<and> q_batchSize q' = q_batchSize q \<and>
     q_Id q' = q_Id q \<and> q_N q' = q_N q \<and> q_bcnt q' = q_bcnt q"
proof -
  let ?q1 = "q\<lparr>q_queue := (q_queue q)[nat (q_wind q) := tx],
               q_wind := (q_wind q + 1) smod q_maxQueueSize q, q_nums := q_nums q + 1\<rparr>"
  have ok: "ring_ok q" and b: "0 < q_batchSize q" "q_batchSize q < q_maxQueueSize q"
      "q_nums q < q_batchSize q" and n: "0 \<le> q_nums q"
    using inv by (auto simp: txQueue_inv_def ring_ok_def)
  have nf: "q_wind q \<noteq> q_rind q" using ring_not_full[OF ok] b by linarith
  have rng: "0 \<le> q_wind q \<and> q_wind q < int (length (q_queue q))"
    using ok by (auto simp: ring_ok_def)
  have push: "ring_ok ?q1" "ring_contents ?q1 = ring_contents q @ [tx]"
    using ring_push[OF ok, of tx] b by auto
  show ?thesis
  proof (cases "q_batchSize q \<le> q_nums q + 1")
    case False
    then have "txQueue_recv q tx = Some (?q1, None)"
      using nf rng by (simp add: txQueue_recv_def Let_def)
    moreover have "txQueue_inv ?q1" using push(1) b False by (simp add: txQueue_inv_def)
    ultimately show ?thesis using push(2) False n by simp
  next
    case True
    have "int (nat (q_batchSize q)) \<le> q_nums ?q1" using True b by simp
    from collect_spec[OF push(1) this, of "[]"] obtain q' where
        q': "txQueue_collect (nat (q_batchSize q)) ?q1 [] =
             Some (q', take (nat (q_batchSize q)) (ring_contents ?q1))"
          "ring_ok q'" "ring_contents q' = drop (nat (q_batchSize q)) (ring_contents ?q1)"
          "q_nums q' = q_nums ?q1 - int (nat (q_batchSize q))"
          "q' = ?q1\<lparr>q_rind := q_rind q', q_nums := q_nums q'\<rparr>"
      by auto
    have full: "nat (q_batchSize q) = length (ring_contents ?q1)"
      using True b(3) n push(2) by simp
    have f: "q_batchChannel q' = q_batchChannel q" "q_batchSize q' = q_batchSize q" "q_Id q' = q_Id q"
        "q_N q' = q_N q" "q_bcnt q' = q_bcnt q" "q_maxQueueSize q' = q_maxQueueSize q"
      by (subst q'(5), simp)+
    have "txQueue_recv q tx =
        Some (q', Some \<lparr>batch_ID = q_Id q + q_N q * q_bcnt q, batch_Txs = ring_contents q @ [tx]\<rparr>)"
      using nf rng True q'(1) full push(2)
      by (simp add: txQueue_recv_def txQueue_make_def Let_def)
    moreover have "txQueue_inv q'"
      using q'(2,4) b True by (simp add: txQueue_inv_def f)
    moreover have "ring_contents q' = []" using q'(3) full by simp
    ultimately show ?thesis using True n by (simp add: f)
  qed
qed

lemma txQueue_send_sel [simp]:
  "q_batchChannel (txQueue_send q b) = q_batchChannel q @ [b]"
  "q_batchSize (txQueue_send q b) = q_batchSize q"
  "q_Id (txQueue_send q b) = q_Id q" "q_N (txQueue_send q b) = q_N q"
  "q_bcnt (txQueue_send q b) = q_bcnt q + 1"
  by (simp_all add: txQueue_send_def)

lemma txQueue_send_inv [simp]: "txQueue_inv (txQueue_send q b) = txQueue_inv q"
  by (simp add: txQueue_inv_def ring_ok_def txQueue_send_def)

lemma txQueue_send_contents [simp]: "ring_contents (txQueue_send q b) = ring_contents q"
  by (simp add: ring_contents_def ring_index_def txQueue_send_def)

section \<open>The contract of a batcher\<close>

text \<open>
  What the consensus code relies on: transactions are cut into batches of a fixed size in the
  order in which they arrive, each exactly once, and the batches carry consecutive labels.
\<close>

locale batcher =
  fixes accept :: "'q \<Rightarrow> 'a \<Rightarrow> ('q \<times> 'b option) option"
    and emit :: "'q \<Rightarrow> 'b \<Rightarrow> 'q"
    and run :: "'q \<Rightarrow> 'a list \<Rightarrow> 'q option"
    and buf :: "'q \<Rightarrow> 'a list"
    and out :: "'q \<Rightarrow> 'b list"
    and size_of :: "'q \<Rightarrow> nat"
    and mk :: "int \<Rightarrow> 'a list \<Rightarrow> 'b"
    and lbl :: "'q \<Rightarrow> int"
    and stride :: "'q \<Rightarrow> int"
    and inv :: "'q \<Rightarrow> bool"
  assumes run_Nil: "run q [] = Some q"
    and run_Cons: "run q (x # xs) =
          do { (q', ob) \<leftarrow> accept q x; run (case ob of None \<Rightarrow> q' | Some b \<Rightarrow> emit q' b) xs }"
    and buf_short: "inv q \<Longrightarrow> length (buf q) < size_of q"
    and accept_ok: "inv q \<Longrightarrow> \<exists>q' ob. accept q x = Some (q', ob) \<and> inv q' \<and>
          (if Suc (length (buf q)) < size_of q then ob = None \<and> buf q' = buf q @ [x]
           else ob = Some (mk (lbl q) (buf q @ [x])) \<and> buf q' = []) \<and>
          out q' = out q \<and> size_of q' = size_of q \<and> lbl q' = lbl q \<and> stride q' = stride q"
    and emit_ok: "inv (emit q b) = inv q \<and> buf (emit q b) = buf q \<and> out (emit q b) = out q @ [b] \<and>
          size_of (emit q b) = size_of q \<and> lbl (emit q b) = lbl q + stride q \<and>
          stride (emit q b) = stride q"
begin

text \<open>The batches a run puts out, as a function of what was buffered and what arrived.\<close>

definition labelled :: "int \<Rightarrow> int \<Rightarrow> 'a list list \<Rightarrow> 'b list" where
  "labelled l s cs = map (\<lambda>k. mk (l + s * int k) (cs ! k)) [0..<length cs]"

lemma labelled_Nil: "labelled l s [] = []"
  by (simp add: labelled_def)

lemma labelled_Cons: "labelled l s (c # cs) = mk l c # labelled (l + s) s cs"
  by (simp add: labelled_def map_upt_Suc algebra_simps del: upt_Suc)

lemma run_batches:
  assumes "inv q"
  shows "\<exists>q'. run q xs = Some q' \<and> inv q' \<and>
     out q' = out q @ labelled (lbl q) (stride q) (chunks (size_of q) (buf q @ xs)) \<and>
     buf q' = drop (size_of q * length (chunks (size_of q) (buf q @ xs))) (buf q @ xs) \<and>
     size_of q' = size_of q"
  using assms
proof (induction xs arbitrary: q)
  case Nil
  then show ?case using buf_short[OF Nil] by (simp add: run_Nil labelled_Nil)
next
  case (Cons x xs)
  obtain q1 ob where a: "accept q x = Some (q1, ob)" "inv q1"
      "if Suc (length (buf q)) < size_of q then ob = None \<and> buf q1 = buf q @ [x]
       else ob = Some (mk (lbl q) (buf q @ [x])) \<and> buf q1 = []"
      "out q1 = out q" "size_of q1 = size_of q" "lbl q1 = lbl q" "stride q1 = stride q"
    using accept_ok[OF Cons.prems] by blast
  show ?case
  proof (cases "Suc (length (buf q)) < size_of q")
    case True
    with a Cons.IH[OF a(2)] show ?thesis by (auto simp: run_Cons)
  next
    case False
    with a have ob: "ob = Some (mk (lbl q) (buf q @ [x]))" and b: "buf q1 = []" by auto
    let ?q2 = "emit q1 (mk (lbl q) (buf q @ [x]))"
    note e = emit_ok[of q1 "mk (lbl q) (buf q @ [x])"]
    from e a(2) have inv2: "inv ?q2" by simp
    have full: "length (buf q @ [x]) = size_of q" using False buf_short[OF Cons.prems] by simp
    then have "chunks (size_of q) (buf q @ x # xs) = (buf q @ [x]) # chunks (size_of q) xs"
      using chunks_append_full[of "size_of q" "buf q @ [x]" xs] by (cases "size_of q") auto
    moreover have "drop (size_of q + n) (buf q @ x # xs) = drop n xs" for n
      using full by (simp add: drop_Cons')
    ultimately show ?thesis
      using Cons.IH[OF inv2] a e ob b by (simp add: run_Cons labelled_Cons)
  qed
qed

end

interpretation txq: batcher txQueue_recv txQueue_send txQueue_run ring_contents q_batchChannel
  "\<lambda>q. nat (q_batchSize q)" "\<lambda>l c. \<lparr>batch_ID = l, batch_Txs = c\<rparr>"
  "\<lambda>q. q_Id q + q_N q * q_bcnt q" q_N txQueue_inv
proof
  fix q :: txQueue and tx :: Transaction
  assume inv: "txQueue_inv q"
  then show "length (ring_contents q) < nat (q_batchSize q)"
    by (auto simp: txQueue_inv_def ring_ok_def)
  have "int (length (ring_contents q)) + 1 < q_batchSize q \<longleftrightarrow>
        Suc (length (ring_contents q)) < nat (q_batchSize q)" by linarith
  with txQueue_recv_spec[OF inv, of tx]
  show "\<exists>q' ob. txQueue_recv q tx = Some (q', ob) \<and> txQueue_inv q' \<and>
     (if Suc (length (ring_contents q)) < nat (q_batchSize q)
      then ob = None \<and> ring_contents q' = ring_contents q @ [tx]
      else ob = Some \<lparr>batch_ID = q_Id q + q_N q * q_bcnt q, batch_Txs = ring_contents q @ [tx]\<rparr> \<and>
           ring_contents q' = []) \<and>
     q_batchChannel q' = q_batchChannel q \<and> nat (q_batchSize q') = nat (q_batchSize q) \<and>
     q_Id q' + q_N q' * q_bcnt q' = q_Id q + q_N q * q_bcnt q \<and> q_N q' = q_N q"
    by (auto split: if_splits)
qed (simp_all add: algebra_simps)

section \<open>Properties\<close>

lemma newTxQueue_inv:
  assumes "newTxQueue M B N ident = Some q" "0 < B" "B < M"
  shows "txQueue_inv q \<and> ring_contents q = [] \<and> q_batchChannel q = [] \<and> q_batchSize q = B \<and>
    q_Id q = ident \<and> q_N q = N \<and> q_bcnt q = 0"
  using assms
  by (auto simp: newTxQueue_def txQueue_inv_def ring_ok_def ring_contents_def split: if_splits)

text \<open>
  C29. With a batch size below the ring's capacity the pool never drops, repeats or reorders a
  transaction: whatever sequence of transactions a fresh queue receives, it puts out exactly
  the consecutive full pieces of \<open>BatchSize\<close> transactions, the \<open>k\<close>-th labelled
  \<open>Id + N * k\<close>, and keeps the rest, in order, in the ring.
\<close>

theorem txQueue_run_batches:
  assumes "newTxQueue M B N ident = Some q" "0 < B" "B < M"
  shows "\<exists>q'. txQueue_run q txs = Some q' \<and>
     q_batchChannel q' =
       map (\<lambda>k. \<lparr>batch_ID = ident + N * int k, batch_Txs = chunks (nat B) txs ! k\<rparr>)
           [0..<length (chunks (nat B) txs)] \<and>
     concat (chunks (nat B) txs) @ ring_contents q' = txs"
proof -
  from newTxQueue_inv[OF assms] have inv: "txQueue_inv q" and
    f: "ring_contents q = []" "q_batchChannel q = []" "q_batchSize q = B" "q_Id q = ident"
       "q_N q = N" "q_bcnt q = 0" by auto
  from txq.run_batches[OF inv, of txs] obtain q' where "txQueue_run q txs = Some q'"
      "q_batchChannel q' = txq.labelled ident N (chunks (nat B) txs)"
      "ring_contents q' = drop (nat B * length (chunks (nat B) txs)) txs"
    by (auto simp: f)
  then show ?thesis
    by (auto simp: txq.labelled_def concat_chunks_prefix)
qed

theorem txQueue_run_batches_witness:
  "\<exists>q q'. newTxQueue 3 2 4 1 = Some q \<and> txQueue_run q [[1], [2], [3], [4], [5]] = Some q' \<and>
     q_batchChannel q' = [\<lparr>batch_ID = 1, batch_Txs = [[1], [2]]\<rparr>, \<lparr>batch_ID = 5, batch_Txs = [[3], [4]]\<rparr>] \<and>
     ring_contents q' = [[5]]"
proof -
  obtain q where q: "newTxQueue 3 2 4 1 = Some q" by (simp add: newTxQueue_def)
  have c: "chunks 2 [[1 :: byte], [2], [3], [4], [5]] = [[[1], [2]], [[3], [4]]]"
    by (simp add: chunks_step)
  show ?thesis
    using txQueue_run_batches[OF q, of "[[1], [2], [3], [4], [5]]"] q
    by (auto simp: c numeral_2_eq_2[symmetric] upt_rec)
qed

subsection \<open>The concurrent pool\<close>

fun taken_txs :: "pool_event list \<Rightarrow> Transaction list" where
  "taken_txs [] = []"
| "taken_txs (TxTaken tx # es) = tx # taken_txs es"
| "taken_txs (_ # es) = taken_txs es"

fun taken_batches :: "pool_event list \<Rightarrow> Batch list" where
  "taken_batches [] = []"
| "taken_batches (BatchTaken b # es) = b # taken_batches es"
| "taken_batches (_ # es) = taken_batches es"

lemma taken_txs_append [simp]: "taken_txs (es @ fs) = taken_txs es @ taken_txs fs"
  by (induction es rule: taken_txs.induct) auto

lemma taken_batches_append [simp]: "taken_batches (es @ fs) = taken_batches es @ taken_batches fs"
  by (induction es rule: taken_batches.induct) auto

text \<open>Every batch made so far, in order: handed out, waiting in the channel, or being sent.\<close>

definition batches_made :: "pool_event list \<Rightarrow> Pool \<Rightarrow> Batch list" where
  "batches_made es p =
     filter (\<lambda>b. b \<noteq> empty_batch) (taken_batches es) @ q_batchChannel (p_queue p) @
     (case p_pending p of None \<Rightarrow> [] | Some b \<Rightarrow> [b])"

definition pool_inv :: "int \<Rightarrow> int \<Rightarrow> pool_event list \<Rightarrow> Pool \<Rightarrow> bool" where
  "pool_inv N ident es p \<longleftrightarrow>
     txQueue_inv (p_queue p) \<and> q_N (p_queue p) = N \<and> q_Id (p_queue p) = ident \<and>
     q_bcnt (p_queue p) = int (length (batches_made es p)) - (if p_pending p = None then 0 else 1) \<and>
     map batch_ID (batches_made es p) = map (\<lambda>k. ident + N * int k) [0..<length (batches_made es p)] \<and>
     (\<forall>b \<in> set (batches_made es p). batch_Txs b \<noteq> []) \<and>
     concat (map batch_Txs (batches_made es p)) @ ring_contents (p_queue p) = taken_txs es \<and>
     length (p_txChannel p) \<le> 10000 \<and> length (q_batchChannel (p_queue p)) \<le> 1000"

lemma pool_inv_recv:
  assumes inv: "pool_inv N ident es p" and pend: "p_pending p = None"
    and tx: "p_txChannel p = tx # rest" and rv: "txQueue_recv (p_queue p) tx = Some (q', ob)"
  shows "pool_inv N ident (es @ [TxTaken tx])
           (p\<lparr>p_txChannel := rest, p_queue := q', p_pending := ob\<rparr>)"
proof -
  have q: "txQueue_inv (p_queue p)" using inv by (simp add: pool_inv_def)
  from txQueue_recv_spec[OF q, of tx] rv
  have r: "txQueue_inv q'" "q_batchChannel q' = q_batchChannel (p_queue p)"
      "q_Id q' = q_Id (p_queue p)" "q_N q' = q_N (p_queue p)" "q_bcnt q' = q_bcnt (p_queue p)"
      "if int (length (ring_contents (p_queue p))) + 1 < q_batchSize (p_queue p)
       then ob = None \<and> ring_contents q' = ring_contents (p_queue p) @ [tx]
       else ob = Some \<lparr>batch_ID = q_Id (p_queue p) + q_N (p_queue p) * q_bcnt (p_queue p),
                       batch_Txs = ring_contents (p_queue p) @ [tx]\<rparr> \<and> ring_contents q' = []"
    by auto
  show ?thesis
  proof (cases ob)
    case None
    with r inv pend tx show ?thesis
      by (auto simp: pool_inv_def batches_made_def split: if_splits)
  next
    case (Some b)
    with r have b: "b = \<lparr>batch_ID = q_Id (p_queue p) + q_N (p_queue p) * q_bcnt (p_queue p),
                       batch_Txs = ring_contents (p_queue p) @ [tx]\<rparr>" "ring_contents q' = []"
      by (auto split: if_splits)
    have made: "batches_made (es @ [TxTaken tx])
        (p\<lparr>p_txChannel := rest, p_queue := q', p_pending := ob\<rparr>) = batches_made es p @ [b]"
      using Some pend r(2) by (simp add: batches_made_def)
    from inv r(1-5) pend tx Some b made show ?thesis
      by (auto simp: pool_inv_def)
  qed
qed

lemma pool_inv_send:
  assumes "pool_inv N ident es p" "p_pending p = Some b" "length (q_batchChannel (p_queue p)) < 1000"
  shows "pool_inv N ident (es @ [BatchSent b])
           (p\<lparr>p_queue := txQueue_send (p_queue p) b, p_pending := None\<rparr>)"
proof -
  have "batches_made (es @ [BatchSent b]) (p\<lparr>p_queue := txQueue_send (p_queue p) b, p_pending := None\<rparr>)
      = batches_made es p"
    using assms(2) by (simp add: batches_made_def)
  with assms show ?thesis by (simp add: pool_inv_def)
qed

lemma pool_inv_get:
  assumes inv: "pool_inv N ident es p" and get: "GetBatch p = (b, p')"
  shows "pool_inv N ident (es @ [BatchTaken b]) p'"
proof (cases "q_batchChannel (p_queue p)")
  case Nil
  with get have p': "p' = p" "b = empty_batch"
    by (auto simp: GetBatch_def txQueue_get_def)
  then have "batches_made (es @ [BatchTaken b]) p' = batches_made es p"
    by (simp add: batches_made_def)
  with inv p' show ?thesis by (simp add: pool_inv_def)
next
  case (Cons c cs)
  with get have p': "p' = p\<lparr>p_queue := (p_queue p)\<lparr>q_batchChannel := cs\<rparr>\<rparr>" "b = c"
    by (auto simp: GetBatch_def txQueue_get_def)
  have "c \<noteq> empty_batch"
    using inv Cons by (auto simp: pool_inv_def batches_made_def empty_batch_def)
  then have "batches_made (es @ [BatchTaken b]) p' = batches_made es p"
    using Cons p' by (simp add: batches_made_def)
  moreover have "txQueue_inv ((p_queue p)\<lparr>q_batchChannel := cs\<rparr>) = txQueue_inv (p_queue p)"
      "ring_contents ((p_queue p)\<lparr>q_batchChannel := cs\<rparr>) = ring_contents (p_queue p)"
    by (simp_all add: txQueue_inv_def ring_ok_def ring_contents_def ring_index_def)
  ultimately show ?thesis using inv p' Cons by (simp add: pool_inv_def)
qed

lemma pool_inv_step:
  assumes "pool_step p e p'" "pool_inv N ident es p"
  shows "pool_inv N ident (es @ [e]) p'"
  using assms
proof (cases rule: pool_step.cases)
  case (step_maker txs tx)
  then show ?thesis using assms(2) by (simp add: pool_inv_def batches_made_def)
qed (auto intro: pool_inv_recv pool_inv_send pool_inv_get assms(2))

lemma NewPool_inv:
  assumes "NewPool ps N ident = Some p" "0 < pp_BatchSize ps" "pp_BatchSize ps < pp_MaxQueueSize ps"
  shows "pool_inv N ident [] p"
proof -
  obtain q where q: "newTxQueue (pp_MaxQueueSize ps) (pp_BatchSize ps) N ident = Some q"
      "p = \<lparr>p_parameters = ps, p_queue = q, p_maker = newTxMaker (pp_TxSize ps) (pp_Rate ps),
            p_txChannel = [], p_pending = None\<rparr>"
    using assms(1) by (auto simp: NewPool_def Option.bind_eq_Some_conv)
  from newTxQueue_inv[OF q(1) assms(2,3)] q(2) show ?thesis
    by (simp add: pool_inv_def batches_made_def)
qed

lemma pool_run_inv: "pool_run p es p' \<Longrightarrow> pool_inv N ident [] p \<Longrightarrow> pool_inv N ident es p'"
  by (induction rule: pool_run.induct) (auto intro: pool_inv_step)

text \<open>
  C28. In every interleaving of the transaction maker, the queue's goroutine and callers of
  \<open>GetBatch\<close>, including those in which the queue blocks on a full batch channel, the batches
  handed out, the batches waiting in the channel or being sent, and the transactions left in
  the ring make up, in order, exactly the transactions the queue received; the batches carry
  the labels \<open>Id\<close>, \<open>Id + N\<close>, \<open>Id + 2N\<close> and so on; the channels stay within their capacities.
\<close>

theorem pool_run_fifo:
  assumes "NewPool ps N ident = Some p" "0 < pp_BatchSize ps" "pp_BatchSize ps < pp_MaxQueueSize ps"
    and "pool_run p es p'"
  shows "concat (map batch_Txs (batches_made es p')) @ ring_contents (p_queue p') = taken_txs es \<and>
     map batch_ID (batches_made es p') =
       map (\<lambda>k. ident + N * int k) [0..<length (batches_made es p')] \<and>
     length (p_txChannel p') \<le> 10000 \<and> length (q_batchChannel (p_queue p')) \<le> 1000"
  using pool_run_inv[OF assms(4) NewPool_inv[OF assms(1-3)]] by (simp add: pool_inv_def)

definition sample_pool_params :: PoolParameters where
  "sample_pool_params = \<lparr>pp_Rate = 20, pp_TxSize = 2, pp_BatchSize = 1, pp_MaxQueueSize = 2\<rparr>"

theorem pool_run_fifo_witness:
  "\<exists>p es p'. NewPool sample_pool_params 4 3 = Some p \<and> pool_run p es p' \<and>
     taken_batches es = [\<lparr>batch_ID = 3, batch_Txs = [[0, 0]]\<rparr>] \<and> taken_txs es = [[0, 0]] \<and>
     concat (map batch_Txs (batches_made es p')) @ ring_contents (p_queue p') = taken_txs es"
proof -
  let ?q0 = "\<lparr>q_queue = [[], []], q_batchChannel = [], q_wind = 0, q_rind = - 1, q_nums = 0,
      q_maxQueueSize = 2, q_batchSize = 1, q_N = 4, q_Id = 3, q_bcnt = 0\<rparr>"
  let ?q1 = "?q0\<lparr>q_queue := [[0, 0], []], q_wind := 1, q_rind := 0\<rparr>"
  let ?b = "\<lparr>batch_ID = 3, batch_Txs = [[0, 0]]\<rparr> :: Batch"
  let ?p0 = "\<lparr>p_parameters = sample_pool_params, p_queue = ?q0,
      p_maker = \<lparr>mk_txSize = 2, mk_rate = 20\<rparr>, p_txChannel = [], p_pending = None\<rparr>"
  let ?p1 = "?p0\<lparr>p_txChannel := [[0, 0]]\<rparr>"
  let ?p2 = "?p0\<lparr>p_queue := ?q1, p_pending := Some ?b\<rparr>"
  let ?p3 = "?p0\<lparr>p_queue := txQueue_send ?q1 ?b\<rparr>"
  let ?p4 = "?p0\<lparr>p_queue := ?q1\<lparr>q_bcnt := 1\<rparr>\<rparr>"
  have new: "NewPool sample_pool_params 4 3 = Some ?p0"
    by (simp add: NewPool_def newTxQueue_def newTxMaker_def sample_pool_params_def numeral_2_eq_2)
  have s1: "pool_step ?p0 (TxSent [0, 0]) ?p1"
    using step_maker[of ?p0 "[[0, 0]]" "[0, 0]"]
    by (simp add: txMaker_burst_def signed_divide_int_def numeral_2_eq_2)
  have "txQueue_recv ?q0 [0, 0] = Some (?q1, Some ?b)"
    by (simp add: txQueue_recv_def txQueue_make_def Let_def signed_modulo_int_def)
  then have s2: "pool_step ?p1 (TxTaken [0, 0]) ?p2"
    using step_recv[of ?p1 "[0, 0]" "[]" ?q1 "Some ?b"] by simp
  have s3: "pool_step ?p2 (BatchSent ?b) ?p3"
    using step_send[of ?p2 ?b] by simp
  have s4: "pool_step ?p3 (BatchTaken ?b) ?p4"
    using step_get[of ?p3 ?b ?p4] by (simp add: GetBatch_def txQueue_get_def txQueue_send_def)
  have run: "pool_run ?p0 ([] @ [TxSent [0, 0]] @ [TxTaken [0, 0]] @ [BatchSent ?b] @ [BatchTaken ?b]) ?p4"
    using run_step[OF run_step[OF run_step[OF run_step[OF run_start s1] s2] s3] s4] by simp
  show ?thesis
    using pool_run_fifo[OF new _ _ run] new run by (fastforce simp: sample_pool_params_def)
qed

subsection \<open>Batch identifiers\<close>

lemma batch_id_eq:
  assumes "i + N * int a = j + N * int b" "0 \<le> i" "i < N" "0 \<le> j" "j < N"
  shows "i = j \<and> a = b"
proof -
  have "(i + N * int a) mod N = (j + N * int b) mod N" using assms(1) by simp
  with assms(2-5) have "i = j" by simp
  with assms show ?thesis by simp
qed

lemma pool_run_ids:
  assumes "NewPool ps N ident = Some p" "0 < pp_BatchSize ps" "pp_BatchSize ps < pp_MaxQueueSize ps"
    "pool_run p es p'"
  shows "map batch_ID (batches_made es p') =
       map (\<lambda>k. ident + N * int k) [0..<length (batches_made es p')]"
  using pool_run_inv[OF assms(4) NewPool_inv[OF assms(1-3)]] by (simp add: pool_inv_def)

text \<open>
  Batch identifiers are unique in the whole system: whatever the pools of two nodes of an
  \<open>N\<close>-node committee do, no identifier is used twice by one node, and none is used by both.
\<close>

theorem batch_ids_unique:
  assumes "NewPool ps N i = Some p" "0 < pp_BatchSize ps" "pp_BatchSize ps < pp_MaxQueueSize ps"
    and "pool_run p es p'" "0 \<le> i" "i < N"
    and "NewPool ps' N j = Some r" "0 < pp_BatchSize ps'" "pp_BatchSize ps' < pp_MaxQueueSize ps'"
    and "pool_run r fs r'" "0 \<le> j" "j < N" "i \<noteq> j"
  shows "distinct (map batch_ID (batches_made es p')) \<and>
     batch_ID ` set (batches_made es p') \<inter> batch_ID ` set (batches_made fs r') = {}"
proof
  note p = pool_run_ids[OF assms(1-4)] and r = pool_run_ids[OF assms(7-10)]
  show "distinct (map batch_ID (batches_made es p'))"
    unfolding p using assms(5,6) by (auto simp: distinct_map inj_on_def)
  have 1: "batch_ID ` set (batches_made es p') = (\<lambda>k. i + N * int k) ` {0..<length (batches_made es p')}"
    using arg_cong[OF p, of set] by simp
  have 2: "batch_ID ` set (batches_made fs r') = (\<lambda>k. j + N * int k) ` {0..<length (batches_made fs r')}"
    using arg_cong[OF r, of set] by simp
  have "i + N * int a \<noteq> j + N * int b" for a b
    using batch_id_eq[of i N a j b] assms(5,6,11-13) by blast
  then show "batch_ID ` set (batches_made es p') \<inter> batch_ID ` set (batches_made fs r') = {}"
    unfolding 1 2 by blast
qed

theorem batch_ids_unique_witness:
  "\<exists>p r. NewPool sample_pool_params 4 0 = Some p \<and> NewPool sample_pool_params 4 1 = Some r \<and>
     pool_run p [] p \<and> pool_run r [] r \<and>
     batch_ID ` set (batches_made [] p) \<inter> batch_ID ` set (batches_made [] r) = {}"
proof -
  have s: "0 < pp_BatchSize sample_pool_params"
      "pp_BatchSize sample_pool_params < pp_MaxQueueSize sample_pool_params"
    by (simp_all add: sample_pool_params_def)
  obtain p r where pr: "NewPool sample_pool_params 4 0 = Some p"
      "NewPool sample_pool_params 4 1 = Some r"
    by (simp add: NewPool_def newTxQueue_def sample_pool_params_def)
  then show ?thesis
    using batch_ids_unique[OF pr(1) s run_start _ _ pr(2) s run_start] run_start[of p] run_start[of r]
    by simp
qed

subsection \<open>A batch size equal to the capacity\<close>

text \<open>
  With \<open>BatchSize = MaxQueueSize\<close> the first batch is made while the read index is still
  \<open>-1\<close>; from then on the ring holds one slot less than a batch needs.
\<close>

definition tight_phase1 :: "int \<Rightarrow> txQueue \<Rightarrow> bool" where
  "tight_phase1 M q \<longleftrightarrow> ring_ok q \<and> q_maxQueueSize q = M \<and> q_batchSize q = M \<and> q_rind q = - 1 \<and>
     q_nums q < M \<and> q_batchChannel q = []"

definition tight_phase2 :: "int \<Rightarrow> txQueue \<Rightarrow> bool" where
  "tight_phase2 M q \<longleftrightarrow> ring_ok q \<and> q_maxQueueSize q = M \<and> q_batchSize q = M \<and> q_rind q = M - 1 \<and>
     q_nums q < M \<and> length (q_batchChannel q) = 1"

lemma tight_phase2_recv:
  assumes "tight_phase2 M q"
  shows "\<exists>q'. txQueue_recv q tx = Some (q', None) \<and> tight_phase2 M q'"
proof -
  let ?q1 = "q\<lparr>q_queue := (q_queue q)[nat (q_wind q) := tx],
               q_wind := (q_wind q + 1) smod q_maxQueueSize q, q_nums := q_nums q + 1\<rparr>"
  have ok: "ring_ok q" and f: "q_maxQueueSize q = M" "q_batchSize q = M" "q_rind q = M - 1"
      "q_nums q < M" "length (q_batchChannel q) = 1"
    using assms by (auto simp: tight_phase2_def)
  have m: "0 < M" and n: "0 \<le> q_nums q" using ok f by (auto simp: ring_ok_def)
  have w: "q_wind q = q_nums q"
    using ok f n by (simp add: ring_ok_def)
  show ?thesis
  proof (cases "q_nums q = M - 1")
    case True
    then show ?thesis using assms w f by (auto simp: txQueue_recv_def)
  next
    case False
    have len: "q_wind q < int (length (q_queue q))" using ok w f by (simp add: ring_ok_def)
    have push: "ring_ok ?q1" using ring_push[OF ok, of tx] f by auto
    have "txQueue_recv q tx = Some (?q1, None)"
      using False w f n len by (simp add: txQueue_recv_def Let_def)
    moreover have "tight_phase2 M ?q1"
      using push f False by (simp add: tight_phase2_def)
    ultimately show ?thesis by blast
  qed
qed

lemma tight_phase1_recv:
  assumes "tight_phase1 M q"
  shows "\<exists>q' ob. txQueue_recv q tx = Some (q', ob) \<and>
     (case ob of None \<Rightarrow> tight_phase1 M q' | Some b \<Rightarrow> tight_phase2 M (txQueue_send q' b))"
proof -
  let ?q1 = "q\<lparr>q_queue := (q_queue q)[nat (q_wind q) := tx],
               q_wind := (q_wind q + 1) smod q_maxQueueSize q, q_nums := q_nums q + 1\<rparr>"
  have ok: "ring_ok q" and f: "q_maxQueueSize q = M" "q_batchSize q = M" "q_rind q = - 1"
      "q_nums q < M" "q_batchChannel q = []"
    using assms by (auto simp: tight_phase1_def)
  have m: "0 < M" and n: "0 \<le> q_nums q" using ok f by (auto simp: ring_ok_def)
  have w: "q_wind q = q_nums q" using ok f n by (simp add: ring_ok_def)
  have len: "q_wind q < int (length (q_queue q))" using ok w f by (simp add: ring_ok_def)
  have push: "ring_ok ?q1" using ring_push[OF ok, of tx] f by auto
  show ?thesis
  proof (cases "q_nums q + 1 = M")
    case False
    then have "txQueue_recv q tx = Some (?q1, None)"
      using w f n len by (simp add: txQueue_recv_def Let_def)
    moreover have "tight_phase1 M ?q1" using push f False by (simp add: tight_phase1_def)
    ultimately show ?thesis by auto
  next
    case True
    from collect_spec[OF push, of "nat M" "[]"] True m obtain q' where
        q': "txQueue_collect (nat M) ?q1 [] = Some (q', take (nat M) (ring_contents ?q1))"
          "ring_ok q'" "q_nums q' = 0" "q_rind q' = M - 1"
          "q' = ?q1\<lparr>q_rind := q_rind q', q_nums := q_nums q'\<rparr>"
      by (auto simp: f zmod_minus1)
    have g: "q_batchChannel q' = []" "q_batchSize q' = M" "q_maxQueueSize q' = M"
      by (subst q'(5), simp add: f)+
    let ?b = "\<lparr>batch_ID = q_Id q + q_N q * q_bcnt q, batch_Txs = take (nat M) (ring_contents ?q1)\<rparr>"
    have "txQueue_recv q tx = Some (q', Some ?b)"
      using w f n len True q'(1) by (simp add: txQueue_recv_def txQueue_make_def Let_def)
    moreover have "tight_phase2 M (txQueue_send q' ?b)"
      using q'(2-4) g m by (simp add: tight_phase2_def ring_ok_def txQueue_send_def)
    ultimately show ?thesis by auto
  qed
qed

lemma tight_run:
  assumes "tight_phase1 M q \<or> tight_phase2 M q"
  shows "\<exists>q'. txQueue_run q txs = Some q' \<and> (tight_phase1 M q' \<or> tight_phase2 M q')"
  using assms
proof (induction txs arbitrary: q)
  case Nil
  then show ?case by simp
next
  case (Cons tx txs)
  from Cons.prems show ?case
  proof
    assume "tight_phase1 M q"
    from tight_phase1_recv[OF this, of tx] obtain q1 ob where
        1: "txQueue_recv q tx = Some (q1, ob)"
           "case ob of None \<Rightarrow> tight_phase1 M q1 | Some b \<Rightarrow> tight_phase2 M (txQueue_send q1 b)"
      by blast
    then show ?thesis
      using Cons.IH[of q1] Cons.IH[of "txQueue_send q1 (the ob)"] by (cases ob) auto
  next
    assume "tight_phase2 M q"
    from tight_phase2_recv[OF this, of tx] Cons.IH show ?thesis by fastforce
  qed
qed

text \<open>
  C30. A pool configured with a batch size equal to its queue capacity stalls: however many
  transactions it receives, it makes at most one batch and drops everything that follows.
\<close>

theorem full_ring_stalls:
  assumes "newTxQueue M M N ident = Some q" "0 < M"
  shows "\<exists>q'. txQueue_run q txs = Some q' \<and> length (q_batchChannel q') \<le> 1"
proof -
  have "tight_phase1 M q"
    using assms by (auto simp: newTxQueue_def tight_phase1_def ring_ok_def split: if_splits)
  then obtain q' where "txQueue_run q txs = Some q'" "tight_phase1 M q' \<or> tight_phase2 M q'"
    using tight_run[of M q txs] by blast
  then show ?thesis by (auto simp: tight_phase1_def tight_phase2_def)
qed

theorem full_ring_stalls_witness:
  "\<exists>q q'. newTxQueue 2 2 4 0 = Some q \<and> txQueue_run q (replicate 100 [1]) = Some q' \<and>
     length (q_batchChannel q') \<le> 1"
proof -
  obtain q where q: "newTxQueue 2 2 4 0 = Some q" by (simp add: newTxQueue_def)
  from full_ring_stalls[OF q, of "replicate 100 [1]"]
  obtain q' where "txQueue_run q (replicate 100 [1]) = Some q'" "length (q_batchChannel q') \<le> 1"
    by (meson zero_less_numeral)
  with q show ?thesis by blast
qed

subsection \<open>The transaction rate\<close>

text \<open>
  The maker's twenty ticks per second send at most the configured rate, and fall short of
  it by less than twenty transactions, because the division by the sampling precision rounds
  down.
\<close>

theorem txMaker_rate:
  assumes "0 \<le> mk_rate m" "0 \<le> mk_txSize m"
  shows "\<exists>txs. txMaker_burst m = Some txs \<and> (\<forall>tx \<in> set txs. int (length tx) = mk_txSize m) \<and>
     20 * int (length txs) \<le> mk_rate m \<and> mk_rate m < 20 * int (length txs) + 20"
  using assms by (auto simp: txMaker_burst_def Let_def sdiv_nonneg)

theorem txMaker_rate_witness:
  "\<exists>txs. txMaker_burst \<lparr>mk_txSize = 16, mk_rate = 1019\<rparr> = Some txs \<and>
     20 * int (length txs) \<le> 1019 \<and> 1019 < 20 * int (length txs) + 20"
  using txMaker_rate[of "\<lparr>mk_txSize = 16, mk_rate = 1019\<rparr>"] by auto

end
