(* ===== verification/Messages.thy ===== *)
theory Messages
  imports Committee Pool
begin

text \<open>
  src/core/message.go and src/core/error.go: blocks, quorum certificates and the consensus
  messages, with their digests, constructors and signature checks.

  A pointer that may be nil is an \<open>option\<close>: the block of a proposal, the certificate of a
  block, of a finish vote and of a report. Dereferencing \<open>None\<close> is a panic. The maps and
  slices of certificates are lists. Every \<open>Hash\<close> method concatenates the base-2 renderings of
  its fields without separators; \<open>hash_parts\<close> is exactly that.
\<close>

section \<open>Heights, levels and message types\<close>

abbreviation (input) HEIGHT_1 :: "8 word" where "HEIGHT_1 \<equiv> 0"
abbreviation (input) HEIGHT_2 :: "8 word" where "HEIGHT_2 \<equiv> 1"

abbreviation (input) LEVEL_2 :: "8 word" where "LEVEL_2 \<equiv> 0"
abbreviation (input) LEVEL_1 :: "8 word" where "LEVEL_1 \<equiv> 1"
abbreviation (input) LEVEL_0 :: "8 word" where "LEVEL_0 \<equiv> 2"

definition ProposeType :: int where "ProposeType = 0"
definition VoteType :: int where "VoteType = 1"
definition FinVoteType :: int where "FinVoteType = 2"
definition SpeedVoteType :: int where "SpeedVoteType = 3"
definition ElectType :: int where "ElectType = 4"
definition RandomCoinType :: int where "RandomCoinType = 5"
definition ReportType :: int where "ReportType = 6"
definition DocGQCType :: int where "DocGQCType = 7"

lemmas msg_type_defs = ProposeType_def VoteType_def FinVoteType_def SpeedVoteType_def ElectType_def
  RandomCoinType_def ReportType_def DocGQCType_def

text \<open>The errors the handlers return; the first three carry message type, view and node.\<close>

datatype error =
    ErrSignature int int node_id
  | ErrReference int int node_id
  | ErrUsedElect int int node_id
  | ErrDocG
  | ErrStore string
  | ErrCrypto string

section \<open>Blocks and certificates\<close>

record BlockQC =
  qc_View :: int
  qc_Height :: "8 word"
  qc_Proposer :: node_id
  qc_ParentBlockHash :: digest
  qc_Shares :: "(node_id \<times> SignatureShare) list"

record Block =
  b_Author :: node_id
  b_View :: int
  b_Height :: "8 word"
  b_Batch :: Batch
  b_Qc :: "BlockQC option"
  b_References :: "BlockQC list"

definition Block_parts :: "Block \<Rightarrow> bytes list" where
  "Block_parts b =
     [AppendInt2 (b_Author b), AppendInt2 (b_View b), AppendInt2 (uint (b_Height b)),
      AppendInt2 (batch_ID (b_Batch b))]"

definition Block_Hash :: "'k crypto_ext \<Rightarrow> Block \<Rightarrow> digest" where
  "Block_Hash cx b = hash_parts cx (Block_parts b)"

definition BlockQC_Verify :: "'k crypto_ext \<Rightarrow> 'k SigService \<Rightarrow> BlockQC \<Rightarrow> bool" where
  "BlockQC_Verify cx srvc q =
     (case CombineIntactTSPartial cx (map snd (qc_Shares q)) (ss_ShareKey srvc)
             (hash_parts cx [AppendInt2 (qc_View q), AppendInt2 (uint (qc_Height q)),
                AppendInt2 (qc_Proposer q), qc_ParentBlockHash q]) of
        Inl e \<Rightarrow> True | Inr sig \<Rightarrow> False)"

section \<open>Reports and their collections\<close>

record ReportMsg =
  rm_Author :: node_id
  rm_View :: int
  rm_Level :: "8 word"
  rm_BlockQc :: "BlockQC option"
  rm_Signature :: Signature

definition ReportMsg_Hash :: "'k crypto_ext \<Rightarrow> ReportMsg \<Rightarrow> digest" where
  "ReportMsg_Hash cx r =
     hash_parts cx [AppendInt2 (rm_Author r), AppendInt2 (rm_View r), AppendInt2 (uint (rm_Level r))]"

definition NewReportMsg ::
    "'k crypto_ext \<Rightarrow> 'k SigService \<Rightarrow> node_id \<Rightarrow> int \<Rightarrow> 8 word \<Rightarrow> BlockQC option \<Rightarrow> ReportMsg option" where
  "NewReportMsg cx srvc author view level qc =
     (let r = \<lparr>rm_Author = author, rm_View = view, rm_Level = level, rm_BlockQc = qc,
               rm_Signature = \<lparr>Sig = []\<rparr>\<rparr> in
      do { sig \<leftarrow> RequestSignature cx srvc (ReportMsg_Hash cx r); Some (r\<lparr>rm_Signature := sig\<rparr>) })"

definition ReportMsg_Verify :: "'k crypto_ext \<Rightarrow> Committee \<Rightarrow> ReportMsg \<Rightarrow> bool option" where
  "ReportMsg_Verify cx c r =
     Signature_Verify cx (rm_Signature r) (Committee_Name c (rm_Author r)) (ReportMsg_Hash cx r)"

record DocGQCMsg =
  dg_View :: int
  dg_Level :: "8 word"
  dg_Shares :: "ReportMsg list"

definition NewDocGQCMsg :: "int \<Rightarrow> 8 word \<Rightarrow> ReportMsg list \<Rightarrow> DocGQCMsg" where
  "NewDocGQCMsg view level shares = \<lparr>dg_View = view, dg_Level = level, dg_Shares = shares\<rparr>"

text \<open>The loop evaluates every share's check, which may panic, and discards its result.\<close>

fun verify_shares :: "'k crypto_ext \<Rightarrow> Committee \<Rightarrow> ReportMsg list \<Rightarrow> unit option" where
  "verify_shares cx c [] = Some ()"
| "verify_shares cx c (r # rs) = do { ok \<leftarrow> ReportMsg_Verify cx c r; verify_shares cx c rs }"

definition DocGQCMsg_Verify :: "'k crypto_ext \<Rightarrow> Committee \<Rightarrow> DocGQCMsg \<Rightarrow> bool option" where
  "DocGQCMsg_Verify cx c d = do { verify_shares cx c (dg_Shares d); Some True }"

section \<open>Proposals\<close>

record ProposeMsg =
  pm_Author :: node_id
  pm_B :: "Block option"
  pm_View :: int
  pm_Height :: "8 word"
  pm_DocG :: "DocGQCMsg option"
  pm_Signature :: Signature

definition ProposeMsg_Hash :: "'k crypto_ext \<Rightarrow> ProposeMsg \<Rightarrow> digest option" where
  "ProposeMsg_Hash cx p =
     do { b \<leftarrow> pm_B p;
          Some (hash_parts cx [AppendInt2 (pm_Author p), AppendInt2 (pm_View p),
                  AppendInt2 (uint (pm_Height p)), Block_Hash cx b]) }"

definition NewProposeMsg :: "'k crypto_ext \<Rightarrow> 'k SigService \<Rightarrow> Block \<Rightarrow> ProposeMsg option" where
  "NewProposeMsg cx srvc b =
     (let p = \<lparr>pm_Author = b_Author b, pm_B = Some b, pm_View = b_View b, pm_Height = b_Height b,
               pm_DocG = None, pm_Signature = \<lparr>Sig = []\<rparr>\<rparr> in
      do { h \<leftarrow> ProposeMsg_Hash cx p; sig \<leftarrow> RequestSignature cx srvc h;
           Some (p\<lparr>pm_Signature := sig\<rparr>) })"

definition ProposeMsg_Verify :: "'k crypto_ext \<Rightarrow> Committee \<Rightarrow> ProposeMsg \<Rightarrow> bool option" where
  "ProposeMsg_Verify cx c p =
     do { h \<leftarrow> ProposeMsg_Hash cx p;
          Signature_Verify cx (pm_Signature p) (Committee_Name c (pm_Author p)) h }"

section \<open>Votes\<close>

record VoteMsg =
  vm_Author :: node_id
  vm_Proposer :: node_id
  vm_BlockHash :: digest
  vm_View :: int
  vm_Height :: "8 word"
  vm_Signature :: Signature

definition VoteMsg_Hash :: "'k crypto_ext \<Rightarrow> VoteMsg \<Rightarrow> digest" where
  "VoteMsg_Hash cx v =
     hash_parts cx [AppendInt2 (vm_View v), AppendInt2 (uint (vm_Height v)),
       AppendInt2 (vm_Proposer v), vm_BlockHash v]"

definition NewVoteMsg :: "'k crypto_ext \<Rightarrow> 'k SigService \<Rightarrow> node_id \<Rightarrow> Block \<Rightarrow> VoteMsg option" where
  "NewVoteMsg cx srvc author b =
     (let v = \<lparr>vm_Author = author, vm_Proposer = b_Author b, vm_BlockHash = Block_Hash cx b,
               vm_View = b_View b, vm_Height = b_Height b, vm_Signature = \<lparr>Sig = []\<rparr>\<rparr> in
      do { sig \<leftarrow> RequestSignature cx srvc (VoteMsg_Hash cx v); Some (v\<lparr>vm_Signature := sig\<rparr>) })"

definition VoteMsg_Verify :: "'k crypto_ext \<Rightarrow> Committee \<Rightarrow> VoteMsg \<Rightarrow> bool option" where
  "VoteMsg_Verify cx c v =
     Signature_Verify cx (vm_Signature v) (Committee_Name c (vm_Author v)) (VoteMsg_Hash cx v)"

record FinVoteMsg =
  fv_Author :: node_id
  fv_View :: int
  fv_Qc :: "BlockQC option"
  fv_Signature :: Signature

definition FinVoteMsg_Hash :: "'k crypto_ext \<Rightarrow> FinVoteMsg \<Rightarrow> digest" where
  "FinVoteMsg_Hash cx f = hash_parts cx [AppendInt2 (fv_Author f), AppendInt2 (fv_View f)]"

definition NewFinVoteMsg ::
    "'k crypto_ext \<Rightarrow> 'k SigService \<Rightarrow> node_id \<Rightarrow> int \<Rightarrow> BlockQC \<Rightarrow> FinVoteMsg option" where
  "NewFinVoteMsg cx srvc author view qc =
     (let f = \<lparr>fv_Author = author, fv_View = view, fv_Qc = Some qc, fv_Signature = \<lparr>Sig = []\<rparr>\<rparr> in
      do { sig \<leftarrow> RequestSignature cx srvc (FinVoteMsg_Hash cx f); Some (f\<lparr>fv_Signature := sig\<rparr>) })"

definition FinVoteMsg_Verify :: "'k crypto_ext \<Rightarrow> Committee \<Rightarrow> FinVoteMsg \<Rightarrow> bool option" where
  "FinVoteMsg_Verify cx c f =
     Signature_Verify cx (fv_Signature f) (Committee_Name c (fv_Author f)) (FinVoteMsg_Hash cx f)"

record SpeedVoteMsg =
  sv_Author :: node_id
  sv_Proposer :: node_id
  sv_BlockHash :: digest
  sv_View :: int
  sv_Signature :: Signature

definition SpeedVoteMsg_Hash :: "'k crypto_ext \<Rightarrow> SpeedVoteMsg \<Rightarrow> digest" where
  "SpeedVoteMsg_Hash cx v =
     hash_parts cx [AppendInt2 (sv_View v), AppendInt2 (sv_Proposer v), sv_BlockHash v]"

definition NewSpeedVoteMsg ::
    "'k crypto_ext \<Rightarrow> 'k SigService \<Rightarrow> node_id \<Rightarrow> BlockQC \<Rightarrow> SpeedVoteMsg option" where
  "NewSpeedVoteMsg cx srvc author qc =
     (let v = \<lparr>sv_Author = author, sv_Proposer = qc_Proposer qc, sv_BlockHash = qc_ParentBlockHash qc,
               sv_View = qc_View qc, sv_Signature = \<lparr>Sig = []\<rparr>\<rparr> in
      do { sig \<leftarrow> RequestSignature cx srvc (SpeedVoteMsg_Hash cx v); Some (v\<lparr>sv_Signature := sig\<rparr>) })"

definition SpeedVoteMsg_Verify :: "'k crypto_ext \<Rightarrow> Committee \<Rightarrow> SpeedVoteMsg \<Rightarrow> bool option" where
  "SpeedVoteMsg_Verify cx c v =
     Signature_Verify cx (sv_Signature v) (Committee_Name c (sv_Author v)) (SpeedVoteMsg_Hash cx v)"

section \<open>Election\<close>

record ElectMsg =
  em_Author :: node_id
  em_View :: int
  em_SigShare :: SignatureShare

definition ElectMsg_Hash :: "'k crypto_ext \<Rightarrow> ElectMsg \<Rightarrow> digest" where
  "ElectMsg_Hash cx m = hash_parts cx [AppendInt2 (em_View m)]"

text \<open>The only constructor that can fail; callers that ignore the error hold a nil message.\<close>

definition NewElectMsg ::
    "'k crypto_ext \<Rightarrow> 'k SigService \<Rightarrow> node_id \<Rightarrow> int \<Rightarrow> (error + ElectMsg) option" where
  "NewElectMsg cx srvc author view =
     (let m = \<lparr>em_Author = author, em_View = view, em_SigShare = \<lparr>PartialSig = []\<rparr>\<rparr> in
      do { (share, err) \<leftarrow> RequestTsSugnature cx srvc (ElectMsg_Hash cx m);
           Some (case err of Some e \<Rightarrow> Inl (ErrCrypto e) | None \<Rightarrow> Inr (m\<lparr>em_SigShare := share\<rparr>)) })"

definition ElectMsg_Verify :: "'k crypto_ext \<Rightarrow> ElectMsg \<Rightarrow> bool" where
  "ElectMsg_Verify cx m = SignatureShare_Verify (em_SigShare m) (ElectMsg_Hash cx m)"

record RandomCoinMsg =
  rc_Leader :: node_id
  rc_View :: int
  rc_Author :: node_id
  rc_Signature :: Signature

definition RandomCoinMsg_Hash :: "'k crypto_ext \<Rightarrow> RandomCoinMsg \<Rightarrow> digest" where
  "RandomCoinMsg_Hash cx m =
     hash_parts cx [AppendInt2 (rc_View m), AppendInt2 (rc_Leader m), AppendInt2 (rc_Author m)]"

definition NewRandomCoinMsg ::
    "'k crypto_ext \<Rightarrow> 'k SigService \<Rightarrow> node_id \<Rightarrow> node_id \<Rightarrow> int \<Rightarrow> RandomCoinMsg option" where
  "NewRandomCoinMsg cx srvc leader author view =
     (let m = \<lparr>rc_Leader = leader, rc_View = view, rc_Author = author, rc_Signature = \<lparr>Sig = []\<rparr>\<rparr> in
      do { sig \<leftarrow> RequestSignature cx srvc (RandomCoinMsg_Hash cx m); Some (m\<lparr>rc_Signature := sig\<rparr>) })"

definition RandomCoinMsg_Verify :: "'k crypto_ext \<Rightarrow> Committee \<Rightarrow> RandomCoinMsg \<Rightarrow> bool option" where
  "RandomCoinMsg_Verify cx c m =
     Signature_Verify cx (rc_Signature m) (Committee_Name c (rc_Author m)) (RandomCoinMsg_Hash cx m)"

section \<open>The message type\<close>

text \<open>\<open>ElectM None\<close> is the nil \<open>*ElectMsg\<close> that \<open>NewElectMsg\<close> returns beside an error.\<close>

datatype msg =
    ProposeM ProposeMsg
  | VoteM VoteMsg
  | FinVoteM FinVoteMsg
  | SpeedVoteM SpeedVoteMsg
  | ElectM "ElectMsg option"
  | RandomCoinM RandomCoinMsg
  | ReportM ReportMsg
  | DocGQCM DocGQCMsg

fun MsgType :: "msg \<Rightarrow> int" where
  "MsgType (ProposeM p) = ProposeType"
| "MsgType (VoteM v) = VoteType"
| "MsgType (FinVoteM f) = FinVoteType"
| "MsgType (SpeedVoteM v) = SpeedVoteType"
| "MsgType (ElectM e) = ElectType"
| "MsgType (RandomCoinM m) = RandomCoinType"
| "MsgType (ReportM r) = ReportType"
| "MsgType (DocGQCM d) = DocGQCType"

text \<open>
  The messages with the methods of \<open>ConsensusMessage\<close>: all but \<open>DocGQCMsg\<close>, which has no \<open>Hash\<close>.
\<close>

fun is_ConsensusMessage :: "msg \<Rightarrow> bool" where
  "is_ConsensusMessage (DocGQCM d) = False"
| "is_ConsensusMessage _ = True"

section \<open>The contract of a signed message\<close>

text \<open>
  What the handlers rely on when they check a message: the signature is checked over the
  message's digest under the key that the committee holds for the message's author.
\<close>

locale signed_message =
  fixes author :: "'m \<Rightarrow> node_id"
    and hash :: "'k crypto_ext \<Rightarrow> 'm \<Rightarrow> digest option"
    and signature :: "'m \<Rightarrow> Signature"
    and verify :: "'k crypto_ext \<Rightarrow> Committee \<Rightarrow> 'm \<Rightarrow> bool option"
  assumes verify_checks: "verify cx c m =
      do { d \<leftarrow> hash cx m; Signature_Verify cx (signature m) (Committee_Name c (author m)) d }"
begin

text \<open>An author without an entry has the empty key, on which \<open>ed25519.Verify\<close> panics.\<close>

lemma outsider_panics: "author m \<notin> members c \<Longrightarrow> verify cx c m = None"
  by (cases "hash cx m")
     (simp_all add: verify_checks Committee_Name_def authority_of_absent zero_Authority_def
        Signature_Verify_def)

lemma own_signature_verifies:
  assumes "key_pair cx (Committee_Name c (author m)) (ss_PriKey srvc)"
    and "hash cx m = Some d" and "signature m = sig_by cx srvc d"
  shows "verify cx c m = Some True"
  using assms(2,3) sign_then_verify[OF assms(1), of d] by (simp add: verify_checks)

end

interpretation propose_msg: signed_message pm_Author ProposeMsg_Hash pm_Signature ProposeMsg_Verify
  by unfold_locales (simp add: ProposeMsg_Verify_def)

interpretation vote_msg: signed_message vm_Author "\<lambda>cx m. Some (VoteMsg_Hash cx m)" vm_Signature VoteMsg_Verify
  by unfold_locales (simp add: VoteMsg_Verify_def)

interpretation finvote_msg: signed_message fv_Author "\<lambda>cx m. Some (FinVoteMsg_Hash cx m)" fv_Signature FinVoteMsg_Verify
  by unfold_locales (simp add: FinVoteMsg_Verify_def)

interpretation speedvote_msg: signed_message sv_Author "\<lambda>cx m. Some (SpeedVoteMsg_Hash cx m)" sv_Signature SpeedVoteMsg_Verify
  by unfold_locales (simp add: SpeedVoteMsg_Verify_def)

interpretation coin_msg: signed_message rc_Author "\<lambda>cx m. Some (RandomCoinMsg_Hash cx m)" rc_Signature RandomCoinMsg_Verify
  by unfold_locales (simp add: RandomCoinMsg_Verify_def)

interpretation report_msg: signed_message rm_Author "\<lambda>cx m. Some (ReportMsg_Hash cx m)" rm_Signature ReportMsg_Verify
  by unfold_locales (simp add: ReportMsg_Verify_def)

lemmas msg_hash_defs = ProposeMsg_Hash_def VoteMsg_Hash_def FinVoteMsg_Hash_def SpeedVoteMsg_Hash_def
  RandomCoinMsg_Hash_def ReportMsg_Hash_def

text \<open>The digests cover no signature, so filling one in does not change them.\<close>

lemma hash_signature_irrelevant [simp]:
  "ProposeMsg_Hash cx (p\<lparr>pm_Signature := s\<rparr>) = ProposeMsg_Hash cx p"
  "VoteMsg_Hash cx (v\<lparr>vm_Signature := s\<rparr>) = VoteMsg_Hash cx v"
  "FinVoteMsg_Hash cx (f\<lparr>fv_Signature := s\<rparr>) = FinVoteMsg_Hash cx f"
  "SpeedVoteMsg_Hash cx (sv\<lparr>sv_Signature := s\<rparr>) = SpeedVoteMsg_Hash cx sv"
  "RandomCoinMsg_Hash cx (m\<lparr>rc_Signature := s\<rparr>) = RandomCoinMsg_Hash cx m"
  "ReportMsg_Hash cx (r\<lparr>rm_Signature := s\<rparr>) = ReportMsg_Hash cx r"
  by (simp_all add: msg_hash_defs)

text \<open>The constructors panic exactly when the service cannot sign.\<close>

lemma New_msg_panics [simp]:
  "NewProposeMsg cx srvc b = None \<longleftrightarrow> \<not> can_sign srvc"
  "NewVoteMsg cx srvc i b = None \<longleftrightarrow> \<not> can_sign srvc"
  "NewFinVoteMsg cx srvc i v qc = None \<longleftrightarrow> \<not> can_sign srvc"
  "NewSpeedVoteMsg cx srvc i qc = None \<longleftrightarrow> \<not> can_sign srvc"
  "NewRandomCoinMsg cx srvc l i v = None \<longleftrightarrow> \<not> can_sign srvc"
  "NewReportMsg cx srvc i v lv oqc = None \<longleftrightarrow> \<not> can_sign srvc"
  by (simp_all add: NewProposeMsg_def NewVoteMsg_def NewFinVoteMsg_def NewSpeedVoteMsg_def
      NewRandomCoinMsg_def NewReportMsg_def ProposeMsg_Hash_def Let_def)

text \<open>What the constructors put into a message.\<close>

lemma NewProposeMsg_fields:
  "NewProposeMsg cx srvc b = Some p \<Longrightarrow>
     pm_Author p = b_Author b \<and> pm_B p = Some b \<and> pm_View p = b_View b \<and> pm_Height p = b_Height b \<and>
     pm_DocG p = None"
  by (auto simp: NewProposeMsg_def ProposeMsg_Hash_def Let_def split: if_splits)

lemma NewVoteMsg_fields:
  "NewVoteMsg cx srvc i b = Some v \<Longrightarrow>
     vm_Author v = i \<and> vm_Proposer v = b_Author b \<and> vm_BlockHash v = Block_Hash cx b \<and>
     vm_View v = b_View b \<and> vm_Height v = b_Height b"
  by (auto simp: NewVoteMsg_def Let_def split: if_splits)

lemma NewSpeedVoteMsg_fields:
  "NewSpeedVoteMsg cx srvc i qc = Some v \<Longrightarrow>
     sv_Author v = i \<and> sv_Proposer v = qc_Proposer qc \<and> sv_BlockHash v = qc_ParentBlockHash qc \<and>
     sv_View v = qc_View qc"
  by (auto simp: NewSpeedVoteMsg_def Let_def split: if_splits)

lemma NewFinVoteMsg_fields:
  "NewFinVoteMsg cx srvc i v qc = Some f \<Longrightarrow> fv_Author f = i \<and> fv_View f = v \<and> fv_Qc f = Some qc"
  by (auto simp: NewFinVoteMsg_def Let_def split: if_splits)

lemma NewReportMsg_fields:
  "NewReportMsg cx srvc i v lv oqc = Some r \<Longrightarrow>
     rm_Author r = i \<and> rm_View r = v \<and> rm_Level r = lv \<and> rm_BlockQc r = oqc"
  by (auto simp: NewReportMsg_def Let_def split: if_splits)

section \<open>Properties\<close>

text \<open>Each constructor signs the digest of the message it returns.\<close>

lemma New_msg_signed:
  "NewProposeMsg cx srvc b = Some p \<Longrightarrow>
     \<exists>d. ProposeMsg_Hash cx p = Some d \<and> pm_Signature p = sig_by cx srvc d"
  "NewVoteMsg cx srvc i b = Some v \<Longrightarrow> vm_Signature v = sig_by cx srvc (VoteMsg_Hash cx v)"
  "NewFinVoteMsg cx srvc i w qc = Some f \<Longrightarrow> fv_Signature f = sig_by cx srvc (FinVoteMsg_Hash cx f)"
  "NewSpeedVoteMsg cx srvc i qc = Some sv \<Longrightarrow> sv_Signature sv = sig_by cx srvc (SpeedVoteMsg_Hash cx sv)"
  "NewRandomCoinMsg cx srvc l i w = Some m \<Longrightarrow> rc_Signature m = sig_by cx srvc (RandomCoinMsg_Hash cx m)"
  "NewReportMsg cx srvc i w lv oqc = Some r \<Longrightarrow> rm_Signature r = sig_by cx srvc (ReportMsg_Hash cx r)"
  by (auto simp: NewProposeMsg_def NewVoteMsg_def NewFinVoteMsg_def NewSpeedVoteMsg_def
      NewRandomCoinMsg_def NewReportMsg_def Let_def msg_hash_defs split: if_splits)

lemma NewRandomCoinMsg_fields:
  "NewRandomCoinMsg cx srvc l i v = Some m \<Longrightarrow> rc_Leader m = l \<and> rc_Author m = i \<and> rc_View m = v"
  by (auto simp: NewRandomCoinMsg_def Let_def split: if_splits)

text \<open>
  C26. Every message a committee member builds with the constructors is accepted by the
  signature check of every node that has the same committee file: proposals, votes, finish
  votes, speed votes, coin announcements and reports. The hypothesis is the contract of
  Ed25519 for the member's registered key pair.
\<close>

theorem own_messages_verify:
  assumes "key_pair cx (Committee_Name c i) (ss_PriKey srvc)"
  shows "(NewProposeMsg cx srvc b = Some p \<and> b_Author b = i \<longrightarrow> ProposeMsg_Verify cx c p = Some True) \<and>
    (NewVoteMsg cx srvc i b = Some v \<longrightarrow> VoteMsg_Verify cx c v = Some True) \<and>
    (NewFinVoteMsg cx srvc i w qc = Some f \<longrightarrow> FinVoteMsg_Verify cx c f = Some True) \<and>
    (NewSpeedVoteMsg cx srvc i qc = Some sv \<longrightarrow> SpeedVoteMsg_Verify cx c sv = Some True) \<and>
    (NewRandomCoinMsg cx srvc l i w = Some m \<longrightarrow> RandomCoinMsg_Verify cx c m = Some True) \<and>
    (NewReportMsg cx srvc i w lv oqc = Some r \<longrightarrow> ReportMsg_Verify cx c r = Some True)"
proof (intro conjI impI)
  assume p: "NewProposeMsg cx srvc b = Some p \<and> b_Author b = i"
  then have "pm_Author p = i" by (auto dest: NewProposeMsg_fields)
  then show "ProposeMsg_Verify cx c p = Some True"
    using assms p by (auto dest!: New_msg_signed(1) intro: propose_msg.own_signature_verifies)
next
  assume n: "NewVoteMsg cx srvc i b = Some v"
  show "VoteMsg_Verify cx c v = Some True"
    using assms NewVoteMsg_fields[OF n] New_msg_signed(2)[OF n]
    by (auto intro: vote_msg.own_signature_verifies)
next
  assume n: "NewFinVoteMsg cx srvc i w qc = Some f"
  show "FinVoteMsg_Verify cx c f = Some True"
    using assms NewFinVoteMsg_fields[OF n] New_msg_signed(3)[OF n]
    by (auto intro: finvote_msg.own_signature_verifies)
next
  assume n: "NewSpeedVoteMsg cx srvc i qc = Some sv"
  show "SpeedVoteMsg_Verify cx c sv = Some True"
    using assms NewSpeedVoteMsg_fields[OF n] New_msg_signed(4)[OF n]
    by (auto intro: speedvote_msg.own_signature_verifies)
next
  assume n: "NewRandomCoinMsg cx srvc l i w = Some m"
  show "RandomCoinMsg_Verify cx c m = Some True"
    using assms NewRandomCoinMsg_fields[OF n] New_msg_signed(5)[OF n]
    by (auto intro: coin_msg.own_signature_verifies)
next
  assume n: "NewReportMsg cx srvc i w lv oqc = Some r"
  show "ReportMsg_Verify cx c r = Some True"
    using assms NewReportMsg_fields[OF n] New_msg_signed(6)[OF n]
    by (auto intro: report_msg.own_signature_verifies)
qed

lemma sample_committee_key:
  "i < n \<Longrightarrow> key_pair sample_cx (Committee_Name (sample_committee n) (int i)) (ss_PriKey sample_service)"
proof -
  assume "i < n"
  then have "map_of (map sample_authority [0..<n]) (int i) = Some (snd (sample_authority i))"
    by (intro map_of_is_SomeI)
       (auto simp: sample_authority_def comp_def distinct_map inj_on_def image_iff)
  then show ?thesis
    by (intro sample_key_pair)
       (simp add: Committee_Name_def authority_of_def sample_committee_def sample_authority_def)
qed

theorem own_messages_verify_witness:
  "\<exists>v. NewVoteMsg sample_cx sample_service 2
      \<lparr>b_Author = 1, b_View = 5, b_Height = 0, b_Batch = empty_batch, b_Qc = None, b_References = []\<rparr> = Some v \<and>
     VoteMsg_Verify sample_cx (sample_committee 4) v = Some True"
proof -
  have k: "key_pair sample_cx (Committee_Name (sample_committee 4) 2) (ss_PriKey sample_service)"
    using sample_committee_key[of 2 4] by simp
  let ?b = "\<lparr>b_Author = 1, b_View = 5, b_Height = 0, b_Batch = empty_batch, b_Qc = None,
             b_References = []\<rparr> :: Block"
  obtain v where v: "NewVoteMsg sample_cx sample_service 2 ?b = Some v"
    using New_msg_panics(2)[of sample_cx sample_service 2 ?b]
    by (cases "NewVoteMsg sample_cx sample_service 2 ?b") auto
  with own_messages_verify[OF k] show ?thesis by blast
qed

text \<open>
  Within one slot the block digest identifies the batch: if the hash function has no
  collision, two blocks of the same author, view and height have the same digest exactly when
  their batch identifiers agree.
\<close>

theorem Block_Hash_slot:
  assumes "inj (sha256_Sum256 cx)"
    and "b_Author b = b_Author b'" "b_View b = b_View b'" "b_Height b = b_Height b'"
  shows "Block_Hash cx b = Block_Hash cx b' \<longleftrightarrow> batch_ID (b_Batch b) = batch_ID (b_Batch b')"
  using assms
  by (auto simp: Block_Hash_def Block_parts_def hash_parts_concat inj_eq dest: AppendInt2_inj)

theorem Block_Hash_slot_witness:
  "let b = \<lparr>b_Author = 1, b_View = 5, b_Height = 0, b_Batch = empty_batch, b_Qc = None, b_References = []\<rparr>
   in Block_Hash sample_cx b \<noteq> Block_Hash sample_cx (b\<lparr>b_Batch := \<lparr>batch_ID = 9, batch_Txs = []\<rparr>\<rparr>)"
proof -
  have "inj (sha256_Sum256 sample_cx)" by (simp add: sample_cx_def)
  from Block_Hash_slot[OF this] show ?thesis by (simp add: Let_def empty_batch_def)
qed

text \<open>
  Across slots the block digest is ambiguous whatever the hash function: the base-2 renderings
  of author and view run into each other.
\<close>

lemma Block_Hash_collision:
  assumes "1 \<le> b_Author b'" "0 \<le> b_View b" "b_Author b = 2 * b_Author b' + 1"
    and "b_View b' = 2 ^ length (AppendInt2 (b_View b)) + b_View b"
    and "b_Height b' = b_Height b" "batch_ID (b_Batch b') = batch_ID (b_Batch b)"
  shows "Block_Hash cx b' = Block_Hash cx b"
proof -
  have "concat (Block_parts b') = concat (Block_parts b)"
    using AppendInt2_shift[OF assms(1,2)] by (simp add: Block_parts_def assms)
  then show ?thesis by (simp add: Block_Hash_def hash_parts_concat)
qed

text \<open>
  \<open>BlockQC.Verify\<close> has its result inverted: a certificate whose shares combine to a
  threshold signature is rejected and one whose shares do not is accepted.
\<close>

theorem BlockQC_Verify_inverted:
  "BlockQC_Verify cx srvc q \<longleftrightarrow>
     (\<exists>e. CombineIntactTSPartial cx (map snd (qc_Shares q)) (ss_ShareKey srvc)
        (sha256_Sum256 cx (AppendInt2 (qc_View q) @ AppendInt2 (uint (qc_Height q)) @
           AppendInt2 (qc_Proposer q) @ qc_ParentBlockHash q)) = Inl e)"
  by (simp add: BlockQC_Verify_def hash_parts_concat split: sum.split)

text \<open>
  The check of a report collection accepts whatever it is given: it never yields
  \<open>false\<close>, not even when the signature of every report in it is invalid.
\<close>

theorem DocGQCMsg_Verify_accepts:
  "DocGQCMsg_Verify cx c d \<noteq> Some False"
  by (cases "verify_shares cx c (dg_Shares d)") (simp_all add: DocGQCMsg_Verify_def)

end
