(* ===== verification/Store.thy ===== *)
theory Store
  imports Messages
begin

text \<open>
  The block store: src/store/store.go (the goroutine that serialises reads and writes),
  src/store/nutsdb.go (the key-value database behind the \<open>DB\<close> interface) and the functions
  \<open>storeBlock\<close> and \<open>getBlock\<close> of src/core/core.go.

  The database library nutsdb and the \<open>encoding/gob\<close> rendering of a block are the fields of
  \<open>store_ext\<close>; \<open>'db\<close> is the type of the database's states. The named hypotheses are
  \<open>nutsdb_contract\<close> (a completed put is what later gets see) and \<open>gob_faithful\<close> (a block that can
  be encoded decodes to itself).
\<close>

section \<open>The database\<close>

record 'db store_ext =
  nuts_Open :: "string \<Rightarrow> string + 'db"
  nuts_NewBucket :: "'db \<Rightarrow> string \<Rightarrow> string + 'db"
  nuts_Closed :: "'db \<Rightarrow> bool"
  nuts_tx_Get :: "'db \<Rightarrow> string \<Rightarrow> bytes \<Rightarrow> string + bytes"
  nuts_tx_Put :: "'db \<Rightarrow> string \<Rightarrow> bytes \<Rightarrow> bytes \<Rightarrow> string + 'db"
  gob_Block_enc :: "Block \<Rightarrow> string + bytes"
  gob_Block_dec :: "bytes \<Rightarrow> string + Block"

definition DefaultBucket :: string where
  "DefaultBucket = ''DefaultBucket''"

definition NewDefaultNutsDB :: "'db store_ext \<Rightarrow> string \<Rightarrow> 'db option" where
  "NewDefaultNutsDB dx dir =
     (case nuts_Open dx dir of
        Inl e \<Rightarrow> None
      | Inr db \<Rightarrow> (case nuts_NewBucket dx db DefaultBucket of Inl e \<Rightarrow> None | Inr db' \<Rightarrow> Some db'))"

text \<open>
  \<open>Get\<close> discards the result of \<open>db.View\<close>: on a closed database the callback does not run and
  the named results are the nil slice and the nil error.
\<close>

definition NutsDB_Get :: "'db store_ext \<Rightarrow> 'db \<Rightarrow> bytes \<Rightarrow> string + bytes" where
  "NutsDB_Get dx db key =
     (if nuts_Closed dx db then Inr [] else nuts_tx_Get dx db DefaultBucket key)"

definition NutsDB_Put :: "'db store_ext \<Rightarrow> 'db \<Rightarrow> bytes \<Rightarrow> bytes \<Rightarrow> string option \<times> 'db" where
  "NutsDB_Put dx db key val =
     (if nuts_Closed dx db then (Some ''db is closed'', db)
      else case nuts_tx_Put dx db DefaultBucket key val of
             Inl e \<Rightarrow> (Some e, db) | Inr db' \<Rightarrow> (None, db'))"

section \<open>The store's goroutine\<close>

abbreviation (input) READ :: int where "READ \<equiv> 0"
abbreviation (input) WRITE :: int where "WRITE \<equiv> 1"

record storeReq =
  sq_typ :: int
  sq_key :: bytes
  sq_val :: bytes
  sq_err :: "string option"
  sq_done :: bool

definition Store_serve :: "'db store_ext \<Rightarrow> 'db \<Rightarrow> storeReq \<Rightarrow> 'db \<times> storeReq" where
  "Store_serve dx db req =
     (if sq_typ req = READ then
        (case NutsDB_Get dx db (sq_key req) of
           Inl e \<Rightarrow> (db, req\<lparr>sq_val := [], sq_err := Some e, sq_done := True\<rparr>)
         | Inr v \<Rightarrow> (db, req\<lparr>sq_val := v, sq_err := None, sq_done := True\<rparr>))
      else if sq_typ req = WRITE then
        (case NutsDB_Put dx db (sq_key req) (sq_val req) of
           (err, db') \<Rightarrow> (db', req\<lparr>sq_err := err, sq_done := True\<rparr>))
      else (db, req))"

definition Store_Read :: "'db store_ext \<Rightarrow> 'db \<Rightarrow> bytes \<Rightarrow> string + bytes" where
  "Store_Read dx db key =
     (case Store_serve dx db
             \<lparr>sq_typ = READ, sq_key = key, sq_val = [], sq_err = None, sq_done = False\<rparr> of
        (_, req) \<Rightarrow> (case sq_err req of Some e \<Rightarrow> Inl e | None \<Rightarrow> Inr (sq_val req)))"

definition Store_Write :: "'db store_ext \<Rightarrow> 'db \<Rightarrow> bytes \<Rightarrow> bytes \<Rightarrow> string option \<times> 'db" where
  "Store_Write dx db key val =
     (case Store_serve dx db
             \<lparr>sq_typ = WRITE, sq_key = key, sq_val = val, sq_err = None, sq_done = False\<rparr> of
        (db', req) \<Rightarrow> (sq_err req, db'))"

section \<open>Blocks in the store\<close>

text \<open>\<open>storeBlock\<close> returns the encoder's error but drops the error of the write.\<close>

definition storeBlock :: "'k crypto_ext \<Rightarrow> 'db store_ext \<Rightarrow> 'db \<Rightarrow> Block \<Rightarrow> error option \<times> 'db" where
  "storeBlock cx dx db b =
     (case gob_Block_enc dx b of
        Inl e \<Rightarrow> (Some (ErrStore e), db)
      | Inr val \<Rightarrow> (None, snd (Store_Write dx db (Block_Hash cx b) val)))"

definition getBlock :: "'db store_ext \<Rightarrow> 'db \<Rightarrow> digest \<Rightarrow> error + Block" where
  "getBlock dx db dig =
     (case Store_Read dx db dig of
        Inl e \<Rightarrow> Inl (ErrStore e)
      | Inr val \<Rightarrow> (case gob_Block_dec dx val of Inl e \<Rightarrow> Inl (ErrStore e) | Inr b \<Rightarrow> Inr b))"

section \<open>The contract of a database\<close>

text \<open>
  The \<open>DB\<close> interface of store.go. \<open>lawful x\<close> is what the provider needs of the library it
  wraps.
\<close>

locale DB =
  fixes Put :: "'x \<Rightarrow> 'd \<Rightarrow> bytes \<Rightarrow> bytes \<Rightarrow> string option \<times> 'd"
    and Get :: "'x \<Rightarrow> 'd \<Rightarrow> bytes \<Rightarrow> string + bytes"
    and lawful :: "'x \<Rightarrow> bool"
  assumes get_after_put: "lawful x \<Longrightarrow> Put x d k v = (None, d') \<Longrightarrow>
            Get x d' k' = (if k' = k then Inr v else Get x d k')"
    and failed_put: "lawful x \<Longrightarrow> Put x d k v = (Some e, d') \<Longrightarrow> Get x d' k' = Get x d k'"
begin

text \<open>A run of puts, in which some may fail, and the keys and values that went through.\<close>

fun puts :: "'x \<Rightarrow> 'd \<Rightarrow> (bytes \<times> bytes) list \<Rightarrow> 'd" where
  "puts x d [] = d"
| "puts x d ((k, v) # kvs) = puts x (snd (Put x d k v)) kvs"

fun completed :: "'x \<Rightarrow> 'd \<Rightarrow> (bytes \<times> bytes) list \<Rightarrow> (bytes \<times> bytes) list" where
  "completed x d [] = []"
| "completed x d ((k, v) # kvs) =
     (if fst (Put x d k v) = None then (k, v) # completed x (snd (Put x d k v)) kvs
      else completed x (snd (Put x d k v)) kvs)"

text \<open>A get sees the last completed put of its key.\<close>

lemma get_puts:
  "lawful x \<Longrightarrow> Get x (puts x d kvs) k =
     (case map_of (rev (completed x d kvs)) k of Some v \<Rightarrow> Inr v | None \<Rightarrow> Get x d k)"
proof (induction kvs arbitrary: d)
  case (Cons kv kvs)
  obtain k' v where kv: "kv = (k', v)" by (cases kv)
  obtain e d' where p: "Put x d k' v = (e, d')" by (cases "Put x d k' v")
  show ?case
  proof (cases e)
    case None
    with p Cons get_after_put[OF Cons.prems, of d k' v d' k] show ?thesis
      by (auto simp: kv map_add_def split: option.split)
  next
    case (Some e')
    with p Cons failed_put[OF Cons.prems, of d k' v e' d' k] show ?thesis
      by (simp add: kv split: option.split)
  qed
qed simp

end

definition nutsdb_contract :: "'db store_ext \<Rightarrow> bool" where
  "nutsdb_contract dx \<longleftrightarrow>
     (\<forall>db b k v db'. nuts_tx_Put dx db b k v = Inr db' \<longrightarrow>
        nuts_Closed dx db' = nuts_Closed dx db \<and>
        (\<forall>k'. nuts_tx_Get dx db' b k' = (if k' = k then Inr v else nuts_tx_Get dx db b k')))"

interpretation nuts: DB NutsDB_Put NutsDB_Get nutsdb_contract
proof
  fix dx :: "'a store_ext" and d d' k k' v
  assume c: "nutsdb_contract dx" and p: "NutsDB_Put dx d k v = (None, d')"
  then have "\<not> nuts_Closed dx d" "nuts_tx_Put dx d DefaultBucket k v = Inr d'"
    by (auto simp: NutsDB_Put_def split: if_splits sum.splits)
  with c show "NutsDB_Get dx d' k' = (if k' = k then Inr v else NutsDB_Get dx d k')"
    unfolding nutsdb_contract_def NutsDB_Get_def by simp
next
  fix dx :: "'a store_ext" and d d' k k' v e
  assume "nutsdb_contract dx" "NutsDB_Put dx d k v = (Some e, d')"
  then show "NutsDB_Get dx d' k' = NutsDB_Get dx d k'"
    by (auto simp: NutsDB_Put_def split: if_splits sum.splits)
qed

lemma Store_Read_eq: "Store_Read dx db key = NutsDB_Get dx db key"
  by (simp add: Store_Read_def Store_serve_def split: sum.split)

lemma Store_Write_eq: "Store_Write dx db key val = NutsDB_Put dx db key val"
  by (simp add: Store_Write_def Store_serve_def split: prod.split)

definition gob_ok :: "'db store_ext \<Rightarrow> Block \<Rightarrow> bool" where
  "gob_ok dx b \<longleftrightarrow> (\<exists>v. gob_Block_enc dx b = Inr v \<and> gob_Block_dec dx v = Inr b)"

text \<open>Gob decodes what it encoded; that it can encode is not assumed.\<close>

definition gob_faithful :: "'db store_ext \<Rightarrow> Block \<Rightarrow> bool" where
  "gob_faithful dx b \<longleftrightarrow> pred_sum (\<lambda>_. True) (\<lambda>v. gob_Block_dec dx v = Inr b) (gob_Block_enc dx b)"

lemma gob_ok_faithful: "gob_ok dx b \<Longrightarrow> gob_faithful dx b"
  by (auto simp: gob_ok_def gob_faithful_def)

fun storeBlocks :: "'k crypto_ext \<Rightarrow> 'db store_ext \<Rightarrow> 'db \<Rightarrow> Block list \<Rightarrow> 'db" where
  "storeBlocks cx dx db [] = db"
| "storeBlocks cx dx db (b # bs) = storeBlocks cx dx (snd (storeBlock cx dx db b)) bs"

text \<open>Whether storing a block changes the database: it is encoded and the write does not fail.\<close>

definition written :: "'k crypto_ext \<Rightarrow> 'db store_ext \<Rightarrow> 'db \<Rightarrow> Block \<Rightarrow> bool" where
  "written cx dx db b \<longleftrightarrow>
     (case gob_Block_enc dx b of Inl e \<Rightarrow> False | Inr val \<Rightarrow> fst (Store_Write dx db (Block_Hash cx b) val) = None)"

fun written_blocks :: "'k crypto_ext \<Rightarrow> 'db store_ext \<Rightarrow> 'db \<Rightarrow> Block list \<Rightarrow> Block list" where
  "written_blocks cx dx db [] = []"
| "written_blocks cx dx db (b # bs) =
     (if written cx dx db b then [b] else []) @ written_blocks cx dx (snd (storeBlock cx dx db b)) bs"

lemma getBlock_storeBlock:
  assumes "nutsdb_contract dx" "gob_faithful dx b"
  shows "getBlock dx (snd (storeBlock cx dx db b)) dig =
     (if dig = Block_Hash cx b \<and> written cx dx db b then Inr b else getBlock dx db dig)"
proof (cases "gob_Block_enc dx b")
  case (Inl e)
  then show ?thesis by (simp add: storeBlock_def written_def)
next
  case (Inr v)
  then have v: "gob_Block_dec dx v = Inr b" using assms(2) by (simp add: gob_faithful_def)
  obtain e db' where p: "NutsDB_Put dx db (Block_Hash cx b) v = (e, db')" by (cases "NutsDB_Put dx db (Block_Hash cx b) v")
  show ?thesis
  proof (cases e)
    case None
    with nuts.get_after_put[OF assms(1), of db "Block_Hash cx b" v db' dig] p v Inr show ?thesis
      by (simp add: storeBlock_def getBlock_def written_def Store_Read_eq Store_Write_eq)
  next
    case (Some e')
    with nuts.failed_put[OF assms(1), of db "Block_Hash cx b" v e' db' dig] p Inr show ?thesis
      by (simp add: storeBlock_def getBlock_def written_def Store_Read_eq Store_Write_eq)
  qed
qed

lemma find_snoc: "find P (xs @ [y]) = (case find P xs of Some z \<Rightarrow> Some z | None \<Rightarrow> if P y then Some y else None)"
  by (induction xs) auto

text \<open>
  C20. The block store returns what was written last. Whatever sequence of blocks is stored, and whichever of
  the writes fail (which \<open>storeBlock\<close> does not report), reading a digest yields the last block with that
  digest whose write went through, and if there is none it reads as before. Hypotheses: a write that nutsdb
  reports as done is visible and leaves the other keys alone, and gob decodes what it encoded of the blocks.
\<close>

theorem getBlock_storeBlocks:
  assumes "nutsdb_contract dx" "\<forall>b \<in> set bs. gob_faithful dx b"
  shows "getBlock dx (storeBlocks cx dx db bs) dig =
     (case find (\<lambda>b. Block_Hash cx b = dig) (rev (written_blocks cx dx db bs)) of Some b \<Rightarrow> Inr b | None \<Rightarrow> getBlock dx db dig)"
  using assms(2)
proof (induction bs arbitrary: db)
  case (Cons b bs)
  have "getBlock dx (snd (storeBlock cx dx db b)) dig =
      (if dig = Block_Hash cx b \<and> written cx dx db b then Inr b else getBlock dx db dig)"
    using assms(1) Cons.prems by (intro getBlock_storeBlock) auto
  with Cons show ?case by (auto simp: find_snoc split: option.split)
qed simp

text \<open>A concrete store for the witnesses: a map, with blocks encoded by their index in a list.\<close>

definition sample_dx :: "Block list \<Rightarrow> (string \<times> bytes \<Rightarrow> bytes option) store_ext" where
  "sample_dx bs =
     \<lparr>nuts_Open = (\<lambda>dir. Inr Map.empty), nuts_NewBucket = (\<lambda>m b. Inr m), nuts_Closed = (\<lambda>m. False),
      nuts_tx_Get = (\<lambda>m b k. case m (b, k) of Some v \<Rightarrow> Inr v | None \<Rightarrow> Inl ''key not found''),
      nuts_tx_Put = (\<lambda>m b k v. Inr (m((b, k) \<mapsto> v))),
      gob_Block_enc = (\<lambda>b. if b \<in> set bs then Inr [of_nat (length (takeWhile (\<lambda>x. x \<noteq> b) bs))]
                           else Inl ''gob''),
      gob_Block_dec = (\<lambda>v. case v of [i] \<Rightarrow> (if unat i < length bs then Inr (bs ! unat i) else Inl ''gob'')
                           | _ \<Rightarrow> Inl ''gob'')\<rparr>"

lemma sample_dx_contract [simp]: "nutsdb_contract (sample_dx bs)"
  by (simp add: nutsdb_contract_def sample_dx_def)

lemma sample_dx_gob:
  assumes "b \<in> set bs" "length bs < 256"
  shows "gob_ok (sample_dx bs) b"
proof -
  let ?i = "length (takeWhile (\<lambda>x. x \<noteq> b) bs)"
  have i: "?i < length bs" using assms(1) by (induction bs) auto
  then have "bs ! ?i = b" using nth_length_takeWhile[OF i] by simp
  moreover have "unat (word_of_nat ?i :: byte) = ?i"
    using i assms(2) by (simp add: unat_of_nat)
  ultimately show ?thesis using assms(1) i by (simp add: gob_ok_def sample_dx_def)
qed

lemma sample_written: "b \<in> set bs \<Longrightarrow> written cx (sample_dx bs) db b"
  by (simp add: written_def Store_Write_eq NutsDB_Put_def sample_dx_def)

lemma sample_store_read:
  "set cs \<subseteq> set bs \<Longrightarrow> length bs < 256 \<Longrightarrow>
   getBlock (sample_dx bs) (storeBlocks cx (sample_dx bs) db cs) d =
     foldl (\<lambda>r b. if d = Block_Hash cx b then Inr b else r) (getBlock (sample_dx bs) db d) cs"
  by (induction cs arbitrary: db) (simp_all add: getBlock_storeBlock gob_ok_faithful sample_dx_gob sample_written)

lemma sample_store_empty [simp]: "getBlock (sample_dx bs) Map.empty d = Inl (ErrStore ''key not found'')"
  by (simp add: getBlock_def Store_Read_eq NutsDB_Get_def sample_dx_def)

definition sample_block :: "node_id \<Rightarrow> int \<Rightarrow> 8 word \<Rightarrow> Block" where
  "sample_block i v h = \<lparr>b_Author = i, b_View = v, b_Height = h, b_Batch = empty_batch, b_Qc = None,
                         b_References = []\<rparr>"

text \<open>The same store, in which no block of author 1 can be written.\<close>

definition sample_failing_dx :: "Block list \<Rightarrow> (string \<times> bytes \<Rightarrow> bytes option) store_ext" where
  "sample_failing_dx bs = (sample_dx bs)\<lparr>nuts_tx_Put :=
     (\<lambda>m b k v. if k = Block_Hash sample_cx (sample_block 1 0 0) then Inl ''disk full'' else Inr (m((b, k) \<mapsto> v)))\<rparr>"

theorem getBlock_storeBlocks_witness:
  "let dx = sample_failing_dx [sample_block 0 0 0, sample_block 1 0 0];
       db = storeBlocks sample_cx dx Map.empty [sample_block 0 0 0, sample_block 1 0 0] in
   getBlock dx db (Block_Hash sample_cx (sample_block 0 0 0)) = Inr (sample_block 0 0 0) \<and>
   fst (storeBlock sample_cx dx db (sample_block 1 0 0)) = None \<and>
   getBlock dx db (Block_Hash sample_cx (sample_block 1 0 0)) = Inl (ErrStore ''key not found'')"
proof -
  let ?bs = "[sample_block 0 0 0, sample_block 1 0 0]"
  let ?dx = "sample_failing_dx ?bs"
  have c: "nutsdb_contract ?dx" by (auto simp: nutsdb_contract_def sample_failing_dx_def sample_dx_def split: if_splits)
  have g: "\<forall>b \<in> set ?bs. gob_faithful ?dx b"
    by (simp add: gob_faithful_def sample_failing_dx_def sample_dx_def sample_block_def)
  have ne: "Block_Hash sample_cx (sample_block 0 0 0) \<noteq> Block_Hash sample_cx (sample_block 1 0 0)"
    by (simp add: sample_block_def Block_Hash_def Block_parts_def hash_parts_concat sample_cx_def)
  have w: "written_blocks sample_cx ?dx Map.empty ?bs = [sample_block 0 0 0]"
    using ne by (simp add: written_def Store_Write_eq NutsDB_Put_def sample_failing_dx_def sample_dx_def)
  have e: "getBlock ?dx Map.empty d = Inl (ErrStore ''key not found'')" for d
    by (simp add: getBlock_def Store_Read_eq NutsDB_Get_def sample_failing_dx_def sample_dx_def)
  have "fst (storeBlock sample_cx ?dx db (sample_block 1 0 0)) = None" for db
    by (simp add: storeBlock_def sample_failing_dx_def sample_dx_def)
  then show ?thesis using ne w e getBlock_storeBlocks[OF c g, of sample_cx Map.empty] by (simp add: Let_def)
qed

end
