(* ===== verification/Gate.thy ===== *)
theory Gate
  imports Pac_Prelude
begin

text \<open>
  The pattern "act when a counter reaches a threshold exactly", which the program uses for
  votes, speed votes and election shares. The counter may be a Go \<open>int32\<close> that wraps around
  (period \<open>2 ^ 32\<close>) or the length of a list (period \<open>0\<close>, that is, none). The contract is that
  an event changes the counter by at most one and that the action happens only when the event
  moves the counter to the threshold; the consequence is that it happens at most once.
\<close>

locale one_shot_gate =
  fixes step :: "'s \<Rightarrow> 'e \<Rightarrow> 's"
    and fires :: "'s \<Rightarrow> 'e \<Rightarrow> bool"
    and count :: "'s \<Rightarrow> nat"
    and thr :: nat
    and period :: nat
  assumes count_reduced: "count s mod period = count s"
    and count_step: "count (step s e) = count s \<or> count (step s e) = (count s + 1) mod period"
    and fires_at: "fires s e \<Longrightarrow> count (step s e) = thr \<and> count (step s e) = (count s + 1) mod period"
begin

fun gate_run :: "'s \<Rightarrow> 'e list \<Rightarrow> 's" where
  "gate_run s [] = s"
| "gate_run s (e # es) = gate_run (step s e) es"

fun gate_fires :: "'s \<Rightarrow> 'e list \<Rightarrow> nat" where
  "gate_fires s [] = 0"
| "gate_fires s (e # es) = (if fires s e then 1 else 0) + gate_fires (step s e) es"

text \<open>Seen from a counter that stands at the threshold, no event within one period fires.\<close>

lemma no_fire_after:
  assumes "count s = (thr + k) mod period" "period = 0 \<or> k + length es < period"
  shows "gate_fires s es = 0"
  using assms
proof (induction es arbitrary: s k)
  case Nil
  then show ?case by simp
next
  case (Cons e es)
  have not: "\<not> fires s e"
  proof
    assume "fires s e"
    then have "thr = ((thr + k) mod period + 1) mod period"
      using fires_at[of s e] Cons.prems(1) by simp
    then have "(thr + 0) mod period = (thr + (k + 1)) mod period"
      by (metis add.assoc add_0_right mod_add_left_eq mod_mod_trivial)
    moreover have "period = 0 \<or> k + 1 < period" using Cons.prems(2) by auto
    ultimately show False
      using mod_eq_dvd_iff_nat[of thr "thr + (k + 1)" period] dvd_imp_le[of period "k + 1"] by auto
  qed
  from count_step[of s e] show ?case
  proof
    assume "count (step s e) = count s"
    then show ?thesis using not Cons.IH[of "step s e" k] Cons.prems by auto
  next
    assume "count (step s e) = (count s + 1) mod period"
    then have "count (step s e) = (thr + (k + 1)) mod period"
      using Cons.prems(1) by (simp add: mod_add_left_eq add.assoc mod_Suc_eq)
    then show ?thesis using not Cons.IH[of "step s e" "k + 1"] Cons.prems(2) by auto
  qed
qed

lemma fires_at_most_once:
  assumes "period = 0 \<or> length es \<le> period"
  shows "gate_fires s es \<le> 1"
  using assms
proof (induction es arbitrary: s)
  case Nil
  then show ?case by simp
next
  case (Cons e es)
  show ?case
  proof (cases "fires s e")
    case True
    then have "count (step s e) = (thr + 0) mod period"
      using fires_at[OF True] count_reduced[of "step s e"] by simp
    then have "gate_fires (step s e) es = 0"
      using Cons.prems by (intro no_fire_after[of _ 0]) auto
    then show ?thesis by simp
  next
    case False
    then show ?thesis using Cons.IH[of "step s e"] Cons.prems by auto
  qed
qed

end

end
