(* ===== verification/Elector.thy ===== *)
theory Elector
  imports Store Gate
begin

text \<open>
  src/core/elector.go: the random leader of a view. Each node contributes a threshold share;
  the share that completes the quorum makes \<open>Append\<close> combine them, and the first four bytes of
  the combined signature, taken modulo the committee size, name the leader. The result
  \<open>NONE\<close> says that there is no leader (yet).
\<close>

section \<open>Collecting shares\<close>

record Aggregator =
  ag_elects :: "ElectMsg list"
  ag_used :: "node_id set"

text \<open>The loop that reads four bytes; reading past the end of the signature panics.\<close>

definition randint_of :: "bytes \<Rightarrow> int option" where
  "randint_of qc =
     (if 4 \<le> length qc then Some (foldl (\<lambda>r b. r * 2 ^ 8 + uint b) 0 (take 4 qc)) else None)"

text \<open>Go's remainder panics on a zero divisor.\<close>

definition leader_of :: "Committee \<Rightarrow> bytes \<Rightarrow> node_id option" where
  "leader_of c qc =
     do { r \<leftarrow> randint_of qc;
          if Committee_Size c = 0 then None else Some (r smod Committee_Size c) }"

definition Aggregator_Append ::
    "'k crypto_ext \<Rightarrow> Committee \<Rightarrow> 'k SigService \<Rightarrow> Aggregator \<Rightarrow> ElectMsg \<Rightarrow>
     (Aggregator \<times> (error + node_id)) option" where
  "Aggregator_Append cx c srvc a elect =
     (if em_Author elect \<in> ag_used a then
        Some (a, Inl (ErrUsedElect ElectType (em_View elect) (em_Author elect)))
      else
        let a' = a\<lparr>ag_used := insert (em_Author elect) (ag_used a), ag_elects := ag_elects a @ [elect]\<rparr> in
        if int (length (ag_elects a')) = HightThreshold c then
          (case CombineIntactTSPartial cx (map em_SigShare (ag_elects a')) (ss_ShareKey srvc)
                  (ElectMsg_Hash cx elect) of
             Inl e \<Rightarrow> Some (a', Inl (ErrCrypto e))
           | Inr qc \<Rightarrow> do { l \<leftarrow> leader_of c qc; Some (a', Inr l) })
        else Some (a', Inr NONE))"

section \<open>The elector\<close>

record 'k Elector =
  el_leaders :: "int \<Rightarrow> node_id option"
  el_aggregator :: "int \<Rightarrow> Aggregator option"
  el_sigService :: "'k SigService"
  el_committee :: Committee

definition NewElector :: "'k SigService \<Rightarrow> Committee \<Rightarrow> 'k Elector" where
  "NewElector srvc c =
     \<lparr>el_leaders = Map.empty, el_aggregator = Map.empty, el_sigService = srvc, el_committee = c\<rparr>"

definition aggregator_of :: "'k Elector \<Rightarrow> int \<Rightarrow> Aggregator" where
  "aggregator_of el v =
     (case el_aggregator el v of Some a \<Rightarrow> a | None \<Rightarrow> \<lparr>ag_elects = [], ag_used = {}\<rparr>)"

definition Elector_Add ::
    "'k crypto_ext \<Rightarrow> 'k Elector \<Rightarrow> ElectMsg \<Rightarrow> ('k Elector \<times> (error + node_id)) option" where
  "Elector_Add cx el elect =
     do { (a, res) \<leftarrow> Aggregator_Append cx (el_committee el) (el_sigService el)
                       (aggregator_of el (em_View elect)) elect;
          let leaders = (case res of Inr l \<Rightarrow> if l \<noteq> NONE then (el_leaders el)(em_View elect \<mapsto> l)
                                              else el_leaders el
                                   | Inl e \<Rightarrow> el_leaders el);
          Some (el\<lparr>el_aggregator := (el_aggregator el)(em_View elect \<mapsto> a), el_leaders := leaders\<rparr>, res) }"

text \<open>A node's sequence of election messages, with the result of each.\<close>

fun Elector_adds ::
    "'k crypto_ext \<Rightarrow> 'k Elector \<Rightarrow> ElectMsg list \<Rightarrow> ('k Elector \<times> (error + node_id) list) option" where
  "Elector_adds cx el [] = Some (el, [])"
| "Elector_adds cx el (e # es) =
     do { (el1, r) \<leftarrow> Elector_Add cx el e;
          (el2, rs) \<leftarrow> Elector_adds cx el1 es;
          Some (el2, r # rs) }"

section \<open>The leader is a committee index\<close>

lemma bytes_fold_bounds:
  "0 \<le> r \<Longrightarrow> r < 2 ^ n \<Longrightarrow>
   0 \<le> foldl (\<lambda>r b. r * 2 ^ 8 + uint (b :: byte)) r bs \<and>
   foldl (\<lambda>r b. r * 2 ^ 8 + uint b) r bs < 2 ^ (n + 8 * length bs)"
proof (induction bs arbitrary: r n)
  case (Cons b bs)
  have b: "0 \<le> uint b" "uint b < 2 ^ 8" using uint_lt2p[of b] by simp_all
  have "r * 2 ^ 8 + uint b < 2 ^ (n + 8)"
  proof -
    have "r * 2 ^ 8 + uint b < (r + 1) * 2 ^ 8" using b by simp
    also have "\<dots> \<le> 2 ^ n * 2 ^ 8" using Cons.prems(2) by (intro mult_right_mono) auto
    finally show ?thesis by (simp add: power_add)
  qed
  with Cons.IH[of "r * 2 ^ 8 + uint b" "n + 8"] Cons.prems b show ?case
    by (simp add: algebra_simps)
qed simp

text \<open>The accumulator stays below \<open>2 ^ 32\<close>, so the 64-bit arithmetic of the loop is exact.\<close>

lemma randint_of_bounds: "randint_of qc = Some r \<Longrightarrow> 0 \<le> r \<and> r < 2 ^ 32"
  using bytes_fold_bounds[of 0 0 "take 4 qc"]
  by (auto simp: randint_of_def min_def split: if_splits)

lemma leader_of_range:
  "leader_of c qc = Some l \<Longrightarrow> 0 \<le> l \<and> l < Committee_Size c"
  using randint_of_bounds
  by (auto simp: leader_of_def Option.bind_eq_Some_conv Committee_Size_def smod_nonneg
      split: if_splits)

text \<open>The aggregator with one more share.\<close>

definition pushed :: "Aggregator \<Rightarrow> ElectMsg \<Rightarrow> Aggregator" where
  "pushed a e = a\<lparr>ag_used := insert (em_Author e) (ag_used a), ag_elects := ag_elects a @ [e]\<rparr>"

lemma pushed_sel [simp]:
  "ag_used (pushed a e) = insert (em_Author e) (ag_used a)" "ag_elects (pushed a e) = ag_elects a @ [e]"
  by (simp_all add: pushed_def)

lemma Append_duplicate:
  "em_Author e \<in> ag_used a \<Longrightarrow>
     Aggregator_Append cx c srvc a e = Some (a, Inl (ErrUsedElect ElectType (em_View e) (em_Author e)))"
  by (simp add: Aggregator_Append_def)

lemma Append_fresh:
  assumes "Aggregator_Append cx c srvc a e = Some (a', res)" "em_Author e \<notin> ag_used a"
  shows "a' = pushed a e"
  using assms
  by (auto simp: Aggregator_Append_def pushed_def Let_def Option.bind_eq_Some_conv
      split: if_splits sum.splits)

lemma Append_leader:
  assumes "Aggregator_Append cx c srvc a e = Some (a', Inr l)" "l \<noteq> NONE"
  shows "em_Author e \<notin> ag_used a \<and> int (length (ag_elects (pushed a e))) = HightThreshold c \<and>
    (\<exists>qc. CombineIntactTSPartial cx (map em_SigShare (ag_elects (pushed a e))) (ss_ShareKey srvc)
        (ElectMsg_Hash cx e) = Inr qc \<and> leader_of c qc = Some l)"
  using assms
  by (auto simp: Aggregator_Append_def Let_def Option.bind_eq_Some_conv split: if_splits sum.splits)

lemma Append_leader_range:
  "Aggregator_Append cx c srvc a e = Some (a', Inr l) \<Longrightarrow> l \<noteq> NONE \<Longrightarrow> 0 \<le> l \<and> l < Committee_Size c"
  using Append_leader leader_of_range by blast

lemma Elector_AddE:
  assumes "Elector_Add cx el e = Some (el', res)"
  obtains a where
    "Aggregator_Append cx (el_committee el) (el_sigService el) (aggregator_of el (em_View e)) e = Some (a, res)"
    "aggregator_of el' = (aggregator_of el)(em_View e := a)"
    "el_leaders el' = (case res of Inr l \<Rightarrow> if l \<noteq> NONE then (el_leaders el)(em_View e \<mapsto> l) else el_leaders el
                       | Inl x \<Rightarrow> el_leaders el)"
    "el_committee el' = el_committee el" "el_sigService el' = el_sigService el"
  using assms
  by (auto simp: Elector_Add_def Option.bind_eq_Some_conv aggregator_of_def fun_eq_iff)

section \<open>What an election computes\<close>

text \<open>
  The specification: of the messages of a view, the first one of each author counts; when
  \<open>HightThreshold\<close> of them have arrived, exactly these decide the leader.
\<close>

definition add_share :: "ElectMsg list \<Rightarrow> ElectMsg \<Rightarrow> ElectMsg list" where
  "add_share acc e = (if em_Author e \<in> em_Author ` set acc then acc else acc @ [e])"

definition first_shares :: "ElectMsg list \<Rightarrow> ElectMsg list" where
  "first_shares es = foldl add_share [] es"

definition view_digest :: "'k crypto_ext \<Rightarrow> int \<Rightarrow> digest" where
  "view_digest cx v = hash_parts cx [AppendInt2 v]"

definition elected ::
    "'k crypto_ext \<Rightarrow> Committee \<Rightarrow> 'k SigService \<Rightarrow> int \<Rightarrow> ElectMsg list \<Rightarrow> node_id option" where
  "elected cx c srvc v shares =
     (if int (length shares) < HightThreshold c then None
      else case CombineIntactTSPartial cx (map em_SigShare (take (nat (HightThreshold c)) shares))
                  (ss_ShareKey srvc) (view_digest cx v) of
             Inl e \<Rightarrow> None | Inr qc \<Rightarrow> leader_of c qc)"

definition shares_for :: "int \<Rightarrow> ElectMsg list \<Rightarrow> ElectMsg list" where
  "shares_for v es = first_shares (filter (\<lambda>e. em_View e = v) es)"

lemma shares_for_snoc:
  "shares_for v (es @ [e]) = (if em_View e = v then add_share (shares_for v es) e else shares_for v es)"
  by (simp add: shares_for_def first_shares_def)

lemma shares_for_Nil [simp]: "shares_for v [] = []"
  by (simp add: shares_for_def first_shares_def)

lemma distinct_shares: "distinct (map em_Author (shares_for v es))"
  by (induction es rule: rev_induct) (auto simp: shares_for_snoc add_share_def)

text \<open>Shares beyond the quorum do not matter.\<close>

lemma elected_push:
  "HightThreshold c \<le> int (length shares) \<Longrightarrow> elected cx c srvc v (shares @ [e]) = elected cx c srvc v shares"
  by (simp add: elected_def)

lemma elected_stable:
  assumes "HightThreshold c \<le> int (length (shares_for v pre))"
  shows "elected cx c srvc v (shares_for v (pre @ post)) = elected cx c srvc v (shares_for v pre)"
proof -
  have "HightThreshold c \<le> int (length (shares_for v (pre @ post))) \<and>
        elected cx c srvc v (shares_for v (pre @ post)) = elected cx c srvc v (shares_for v pre)"
  proof (induction post rule: rev_induct)
    case (snoc m post)
    then show ?case
      using shares_for_snoc[of v "pre @ post" m] elected_push[of c "shares_for v (pre @ post)" cx srvc v m]
      by (simp add: add_share_def)
  qed (use assms in simp)
  then show ?thesis by simp
qed

lemma elected_range: "elected cx c srvc v shares = Some l \<Longrightarrow> 0 \<le> l \<and> l < Committee_Size c"
  using leader_of_range by (auto simp: elected_def split: if_splits sum.splits)

text \<open>The elector after the messages \<open>es\<close>.\<close>

definition elector_after :: "'k crypto_ext \<Rightarrow> Committee \<Rightarrow> 'k SigService \<Rightarrow> ElectMsg list \<Rightarrow> 'k Elector \<Rightarrow> bool" where
  "elector_after cx c srvc es el \<longleftrightarrow>
     el_committee el = c \<and> el_sigService el = srvc \<and>
     (\<forall>v. ag_elects (aggregator_of el v) = shares_for v es \<and>
          ag_used (aggregator_of el v) = em_Author ` set (shares_for v es) \<and>
          el_leaders el v = elected cx c srvc v (shares_for v es))"

lemma HightThreshold_nat: "int n = HightThreshold c \<Longrightarrow> nat (HightThreshold c) = n"
  by linarith

text \<open>One message: the leader's entry and the result of \<open>Append\<close> follow the specification.\<close>

lemma Append_elected:
  assumes "Aggregator_Append cx c srvc a e = Some (a', res)"
    and "ag_used a = em_Author ` set (ag_elects a)"
  shows "ag_elects a' = add_share (ag_elects a) e \<and> ag_used a' = em_Author ` set (ag_elects a') \<and>
    (case res of
       Inr l \<Rightarrow> (if l \<noteq> NONE then Some l else elected cx c srvc (em_View e) (ag_elects a))
     | Inl x \<Rightarrow> elected cx c srvc (em_View e) (ag_elects a)) =
    elected cx c srvc (em_View e) (ag_elects a')"
proof (cases "em_Author e \<in> ag_used a")
  case True
  then have "a' = a" "\<exists>x. res = Inl x"
    using assms(1) by (auto simp: Append_duplicate)
  then show ?thesis using True assms(2) by (auto simp: add_share_def)
next
  case False
  have a': "a' = pushed a e" using Append_fresh[OF assms(1) False] .
  have sh: "ag_elects a' = add_share (ag_elects a) e" "ag_used a' = em_Author ` set (ag_elects a')"
    using False assms(2) by (auto simp: a' add_share_def)
  have dig: "ElectMsg_Hash cx e = view_digest cx (em_View e)"
    by (simp add: ElectMsg_Hash_def view_digest_def)
  show ?thesis
  proof (cases "int (length (ag_elects a) + 1) = HightThreshold c")
    case True
    then have short: "elected cx c srvc (em_View e) (ag_elects a) = None"
      by (simp add: elected_def)
    have full: "elected cx c srvc (em_View e) (ag_elects a') =
        (case CombineIntactTSPartial cx (map em_SigShare (ag_elects a @ [e])) (ss_ShareKey srvc)
           (view_digest cx (em_View e)) of Inl x \<Rightarrow> None | Inr qc \<Rightarrow> leader_of c qc)"
      using True HightThreshold_nat[OF True] by (simp add: elected_def a')
    show ?thesis
    proof (cases "CombineIntactTSPartial cx (map em_SigShare (ag_elects a @ [e])) (ss_ShareKey srvc)
           (view_digest cx (em_View e))")
      case (Inl x)
      then have "\<exists>x. res = Inl x"
        using assms(1) False True by (auto simp: Aggregator_Append_def Let_def dig)
      with Inl full short sh show ?thesis by auto
    next
      case (Inr qc)
      then obtain l where l: "leader_of c qc = Some l" "res = Inr l"
        using assms(1) False True
        by (auto simp: Aggregator_Append_def Let_def dig Option.bind_eq_Some_conv)
      have "l \<noteq> NONE" using leader_of_range[OF l(1)] by (simp add: NONE_def)
      with l Inr full sh show ?thesis by simp
    qed
  next
    case neq: False
    then have "res = Inr NONE"
      using assms(1) False by (auto simp: Aggregator_Append_def Let_def split: if_splits)
    moreover have "elected cx c srvc (em_View e) (ag_elects a @ [e]) = elected cx c srvc (em_View e) (ag_elects a)"
    proof (cases "HightThreshold c \<le> int (length (ag_elects a))")
      case True
      then show ?thesis by (rule elected_push)
    next
      case False
      with neq show ?thesis by (simp add: elected_def)
    qed
    ultimately show ?thesis using sh by (simp add: a')
  qed
qed

lemma elector_after_Add:
  assumes "elector_after cx c srvc es el" "Elector_Add cx el e = Some (el', res)"
  shows "elector_after cx c srvc (es @ [e]) el'"
proof -
  obtain a where a:
    "Aggregator_Append cx c srvc (aggregator_of el (em_View e)) e = Some (a, res)"
    "aggregator_of el' = (aggregator_of el)(em_View e := a)"
    "el_leaders el' = (case res of Inr l \<Rightarrow> if l \<noteq> NONE then (el_leaders el)(em_View e \<mapsto> l) else el_leaders el
                       | Inl x \<Rightarrow> el_leaders el)"
    "el_committee el' = c" "el_sigService el' = srvc"
    using assms by (auto simp: elector_after_def elim!: Elector_AddE)
  let ?v = "em_View e"
  have old: "ag_elects (aggregator_of el v) = shares_for v es"
      "ag_used (aggregator_of el v) = em_Author ` set (shares_for v es)"
      "el_leaders el v = elected cx c srvc v (shares_for v es)" for v
    using assms(1) by (auto simp: elector_after_def)
  from Append_elected[OF a(1), unfolded old, OF refl]
  have new: "ag_elects a = add_share (shares_for ?v es) e" "ag_used a = em_Author ` set (ag_elects a)"
      "(case res of Inr l \<Rightarrow> if l \<noteq> NONE then Some l else elected cx c srvc ?v (shares_for ?v es)
        | Inl x \<Rightarrow> elected cx c srvc ?v (shares_for ?v es)) = elected cx c srvc ?v (ag_elects a)"
    by auto
  have "el_leaders el' v = elected cx c srvc v (shares_for v (es @ [e]))" for v
    using a(3) new old by (cases res) (auto simp: shares_for_snoc)
  then show ?thesis
    using a(2,4,5) new(1,2) old by (auto simp: elector_after_def shares_for_snoc)
qed

lemma elector_after_adds:
  "elector_after cx c srvc pre el \<Longrightarrow> Elector_adds cx el es = Some (el', rs) \<Longrightarrow>
     elector_after cx c srvc (pre @ es) el'"
proof (induction es arbitrary: pre el rs)
  case (Cons e es)
  then obtain el1 r rs' where "Elector_Add cx el e = Some (el1, r)" "Elector_adds cx el1 es = Some (el', rs')"
    by (auto simp: Option.bind_eq_Some_conv)
  with Cons.IH[of "pre @ [e]" el1 rs'] Cons.prems(1) elector_after_Add show ?case by fastforce
qed simp

lemma elector_after_new: "elector_after cx c srvc [] (NewElector srvc c)"
  using HightThreshold_pos[of c]
  by (simp add: elector_after_def NewElector_def aggregator_of_def elected_def)

section \<open>Properties\<close>

definition sample_elect :: "int \<Rightarrow> node_id \<Rightarrow> ElectMsg" where
  "sample_elect v i = \<lparr>em_Author = i, em_View = v, em_SigShare = \<lparr>PartialSig = [word_of_int i]\<rparr>\<rparr>"

definition sample_elector :: "unit Elector" where
  "sample_elector = NewElector sample_service (sample_committee 4)"

lemmas sample_election_defs = sample_elector_def sample_elect_def NewElector_def Elector_Add_def
  Aggregator_Append_def aggregator_of_def HightThreshold_sample CombineIntactTSPartial_def
  leader_of_def randint_of_def ElectMsg_Hash_def hash_parts_concat AppendInt2_def bin_digits.simps
  smod_nonneg NONE_def

text \<open>
  C11. The elector implements its specification. Whatever messages arrive, in whatever order and
  with whatever duplicates, the leader recorded for a view is the one that the first
  \<open>HightThreshold\<close> shares of distinct authors of that view determine, and there is none before.
\<close>

theorem Elector_refines_elected:
  assumes "Elector_adds cx (NewElector srvc c) es = Some (el, rs)"
  shows "el_leaders el v = elected cx c srvc v (shares_for v es) \<and>
         ag_elects (aggregator_of el v) = shares_for v es"
  using elector_after_adds[OF elector_after_new assms] by (simp add: elector_after_def)

theorem Elector_refines_elected_witness:
  "\<exists>el rs. Elector_adds sample_cx sample_elector
       [sample_elect 5 0, sample_elect 5 1, sample_elect 5 0, sample_elect 6 3, sample_elect 5 3] = Some (el, rs) \<and>
     el_leaders el 5 \<noteq> None \<and> el_leaders el 6 = None \<and>
     el_leaders el 5 = elected sample_cx (sample_committee 4) sample_service 5
       [sample_elect 5 0, sample_elect 5 1, sample_elect 5 3]"
proof -
  let ?es = "[sample_elect 5 0, sample_elect 5 1, sample_elect 5 0, sample_elect 6 3, sample_elect 5 3]"
  obtain el rs where r: "Elector_adds sample_cx sample_elector ?es = Some (el, rs)"
    and l: "el_leaders el 5 \<noteq> None" "el_leaders el 6 = None"
    by (simp add: sample_election_defs sample_cx_def sample_service_def)
  from Elector_refines_elected[OF r[unfolded sample_elector_def], of 5] l r show ?thesis
    by (auto simp: shares_for_def first_shares_def add_share_def sample_elect_def)
qed

text \<open>
  The documented behaviour of threshold BLS that the protocol relies on. A public polynomial with
  \<open>k\<close> coefficients has the threshold \<open>k\<close>; \<open>Recover\<close> checks every share against the polynomial, so that
  recovering from at least that many shares gives the one signature of the message, whichever shares
  were used. (With fewer, the results for different shares differ.)
\<close>

definition poly_threshold :: "'k crypto_ext \<Rightarrow> 'k \<Rightarrow> int" where
  "poly_threshold cx k = int (length (snd (pubpoly_Info cx k)))"

definition recover_unique :: "'k crypto_ext \<Rightarrow> bool" where
  "recover_unique cx \<longleftrightarrow>
     (\<forall>k d ps ps' t n s s'. poly_threshold cx k \<le> t \<longrightarrow>
        tbls_Recover cx k d ps t n = Inr s \<longrightarrow> tbls_Recover cx k d ps' t n = Inr s' \<longrightarrow> s = s')"

text \<open>
  Two nodes of one threshold group: the same polynomial and numbers, where \<open>T\<close> is not below the
  threshold of the polynomial. (\<open>GenTSKeys\<close> makes the polynomial with the threshold that the key files hold as \<open>T\<close>.)
\<close>

definition same_group :: "'k crypto_ext \<Rightarrow> 'k SigService \<Rightarrow> 'k SigService \<Rightarrow> bool" where
  "same_group cx s1 s2 \<longleftrightarrow>
     PubPoly (ss_ShareKey s1) = PubPoly (ss_ShareKey s2) \<and>
     ssk_T (ss_ShareKey s1) = ssk_T (ss_ShareKey s2) \<and> ssk_N (ss_ShareKey s1) = ssk_N (ss_ShareKey s2) \<and>
     poly_threshold cx (PubPoly (ss_ShareKey s1)) \<le> ssk_T (ss_ShareKey s1)"

lemma sample_group: "recover_unique sample_cx" "same_group sample_cx sample_service sample_service"
  by (auto simp: recover_unique_def same_group_def poly_threshold_def sample_cx_def sample_service_def split: if_splits)

lemma elected_agree:
  assumes "recover_unique cx" "same_group cx s1 s2"
    and "elected cx c s1 v sh1 = Some l1" "elected cx c s2 v sh2 = Some l2"
  shows "l1 = l2"
proof -
  obtain q1 where q1: "CombineIntactTSPartial cx (map em_SigShare (take (nat (HightThreshold c)) sh1))
      (ss_ShareKey s1) (view_digest cx v) = Inr q1" "leader_of c q1 = Some l1"
    using assms(3) by (auto simp: elected_def split: if_splits sum.splits)
  obtain q2 where q2: "CombineIntactTSPartial cx (map em_SigShare (take (nat (HightThreshold c)) sh2))
      (ss_ShareKey s2) (view_digest cx v) = Inr q2" "leader_of c q2 = Some l2"
    using assms(4) by (auto simp: elected_def split: if_splits sum.splits)
  have "q1 = q2"
    using assms(1) q1(1) q2(1) assms(2)
    unfolding recover_unique_def same_group_def CombineIntactTSPartial_def by metis
  with q1(2) q2(2) show ?thesis by simp
qed

text \<open>
  The common coin. Two nodes of the same threshold group that both elect a leader for a
  view elect the same one, whichever quorums of shares they combined and in whichever order
  these arrived, and it is an index of the committee.
\<close>

theorem common_coin:
  assumes "recover_unique cx" "same_group cx s1 s2"
    and "Elector_adds cx (NewElector s1 c) es1 = Some (el1, rs1)" "el_leaders el1 v = Some l1"
    and "Elector_adds cx (NewElector s2 c) es2 = Some (el2, rs2)" "el_leaders el2 v = Some l2"
  shows "l1 = l2 \<and> 0 \<le> l1 \<and> l1 < Committee_Size c"
proof -
  have "elected cx c s1 v (shares_for v es1) = Some l1" "elected cx c s2 v (shares_for v es2) = Some l2"
    using elector_after_adds[OF elector_after_new assms(3)] assms(4)
      elector_after_adds[OF elector_after_new assms(5)] assms(6)
    by (auto simp: elector_after_def)
  then show ?thesis using elected_agree[OF assms(1,2)] elected_range by blast
qed

theorem common_coin_witness:
  "\<exists>el1 el2 rs1 rs2 l.
     Elector_adds sample_cx sample_elector (map (sample_elect 5) [0, 1, 2]) = Some (el1, rs1) \<and>
     Elector_adds sample_cx sample_elector (map (sample_elect 5) [3, 3, 2, 0]) = Some (el2, rs2) \<and>
     el_leaders el1 5 = Some l \<and> el_leaders el2 5 = Some l \<and> 0 \<le> l \<and> l < 4"
proof -
  obtain el1 rs1 l1 where r1: "Elector_adds sample_cx sample_elector (map (sample_elect 5) [0, 1, 2]) = Some (el1, rs1)"
      "el_leaders el1 5 = Some l1"
    by (simp add: sample_election_defs sample_cx_def sample_service_def)
  obtain el2 rs2 l2 where r2: "Elector_adds sample_cx sample_elector (map (sample_elect 5) [3, 3, 2, 0]) = Some (el2, rs2)"
      "el_leaders el2 5 = Some l2"
    by (simp add: sample_election_defs sample_cx_def sample_service_def)
  show ?thesis
    using common_coin[OF sample_group r1(1)[unfolded sample_elector_def] r1(2) r2(1)[unfolded sample_elector_def] r2(2)] r1 r2
    by auto
qed

text \<open>
  C19. An election that fails stays failed. When the quorum-completing share makes the
  combination fail (one bad share among the first \<open>HightThreshold\<close> is enough, and shares are
  not verified on arrival), no later share is ever combined: the view has no leader for good.
\<close>

theorem failed_combination_is_final:
  assumes "Elector_adds cx (NewElector srvc c) es = Some (el, rs)"
    and "Elector_Add cx el e = Some (el1, Inl (ErrCrypto x))"
    and "Elector_adds cx el1 es' = Some (el2, rs')"
  shows "el_leaders el2 (em_View e) = None"
proof -
  let ?v = "em_View e"
  have el: "elector_after cx c srvc es el" using elector_after_adds[OF elector_after_new assms(1)] by simp
  have el1: "elector_after cx c srvc (es @ [e]) el1" using elector_after_Add[OF el assms(2)] .
  have el2: "elector_after cx c srvc ((es @ [e]) @ es') el2" using elector_after_adds[OF el1 assms(3)] .
  obtain a where a: "Aggregator_Append cx c srvc (aggregator_of el ?v) e = Some (a, Inl (ErrCrypto x))"
    using assms(2) el by (auto simp: elector_after_def elim!: Elector_AddE)
  then have len: "int (length (ag_elects (aggregator_of el ?v)) + 1) = HightThreshold c"
    and new: "em_Author e \<notin> ag_used (aggregator_of el ?v)"
    by (auto simp: Aggregator_Append_def Let_def split: if_splits)
  have "em_Author e \<notin> em_Author ` set (shares_for ?v es)" "int (length (shares_for ?v es) + 1) = HightThreshold c"
    using el new len by (auto simp: elector_after_def)
  then have full: "HightThreshold c \<le> int (length (shares_for ?v (es @ [e])))"
    by (simp add: shares_for_snoc add_share_def)
  have "el_leaders el1 ?v = el_leaders el ?v"
    using assms(2) by (auto elim!: Elector_AddE)
  then have none: "elected cx c srvc ?v (shares_for ?v (es @ [e])) = None"
    using el el1 len by (simp add: elector_after_def elected_def)
  then have "elected cx c srvc ?v (shares_for ?v ((es @ [e]) @ es')) = None"
    using elected_stable[OF full, of cx srvc es'] by simp
  then show ?thesis using el2 by (simp add: elector_after_def)
qed

text \<open>The sample threshold scheme rejects combinations that contain the share \<open>[9]\<close>.\<close>

definition sample_strict_cx :: "unit crypto_ext" where
  "sample_strict_cx = sample_cx\<lparr>tbls_Recover := (\<lambda>k d ps t n. if [9] \<in> set ps then Inl ''bad'' else Inr d)\<rparr>"

theorem failed_combination_is_final_witness:
  "\<exists>el rs. Elector_adds sample_strict_cx sample_elector
       (map (sample_elect 5) [0, 1, 9, 2, 3]) = Some (el, rs) \<and> el_leaders el 5 = None"
proof -
  obtain el rs where r: "Elector_adds sample_strict_cx sample_elector (map (sample_elect 5) [0, 1]) = Some (el, rs)"
      "\<exists>el1. Elector_Add sample_strict_cx el (sample_elect 5 9) = Some (el1, Inl (ErrCrypto ''bad'')) \<and>
        (\<exists>el2 rs'. Elector_adds sample_strict_cx el1 (map (sample_elect 5) [2, 3]) = Some (el2, rs') \<and>
          (\<exists>rs''. Elector_adds sample_strict_cx sample_elector (map (sample_elect 5) [0, 1, 9, 2, 3]) = Some (el2, rs'')))"
    by (simp add: sample_election_defs sample_cx_def sample_strict_cx_def sample_service_def)
  then show ?thesis
    using failed_combination_is_final[of sample_strict_cx sample_service "sample_committee 4"
        "map (sample_elect 5) [0, 1]" el rs "sample_elect 5 9" _ "''bad''"]
    by (fastforce simp: sample_elector_def sample_elect_def)
qed

end
