(* ===== verification/Commitor.thy ===== *)
theory Commitor
  imports Store "HOL-Library.Sublist"
begin

text \<open>
  src/core/commitor.go: the committer of the chain variants. \<open>Commit\<close> runs in the core's
  goroutine and drops blocks older than the last one submitted; \<open>run\<close> is a goroutine of its
  own that takes the submitted blocks from \<open>blocksChan\<close>, walks back along the certificates to
  the last committed ancestor and commits the blocks it passed, oldest first.

  The store is written by the core while \<open>run\<close> reads it, so the model gives \<open>run\<close> a sequence
  of database states: \<open>dbs t\<close> is the state that the \<open>t\<close>-th read of the goroutine sees. A walk
  whose next block never appears repeats the read for ever; the walk is therefore a
  \<^theory_text>\<open>partial_function\<close>, whose value \<open>None\<close> is "does not return".
\<close>

section \<open>Submitting blocks\<close>

record Commitor =
  cm_lastView :: int
  cm_lastHeight :: "8 word"
  cm_committed :: "digest set"

definition NewCommitor :: Commitor where
  "NewCommitor = \<lparr>cm_lastView = 0, cm_lastHeight = HEIGHT_1, cm_committed = {}\<rparr>"

text \<open>The second component is what \<open>Commit\<close> sends to \<open>blocksChan\<close>.\<close>

definition Commitor_Commit :: "Commitor \<Rightarrow> Block \<Rightarrow> Commitor \<times> Block option" where
  "Commitor_Commit c b =
     (if b_View b < cm_lastView c \<or> (b_View b = cm_lastView c \<and> b_Height b < cm_lastHeight c)
      then (c, None)
      else (c\<lparr>cm_lastView := b_View b, cm_lastHeight := b_Height b\<rparr>, Some b))"

section \<open>The goroutine\<close>

partial_function (option) Commitor_walk ::
    "'k crypto_ext \<Rightarrow> 'db store_ext \<Rightarrow> (nat \<Rightarrow> 'db) \<Rightarrow> digest set \<Rightarrow> nat \<Rightarrow> Block list \<Rightarrow> Block \<Rightarrow>
     (Block list \<times> nat) option" where
  "Commitor_walk cx dx dbs committed t queue current =
     (case b_Qc current of
        None \<Rightarrow> Some (queue, t)
      | Some qc \<Rightarrow>
          (case getBlock dx (dbs t) (qc_ParentBlockHash qc) of
             Inl e \<Rightarrow> Commitor_walk cx dx dbs committed (Suc t) queue current
           | Inr b \<Rightarrow> if Block_Hash cx b \<in> committed then Some (queue, Suc t)
                      else Commitor_walk cx dx dbs committed (Suc t) (queue @ [b]) b))"

text \<open>The second loop: from the end of the queue, mark a block and signal it on the commit channel.\<close>

fun Commitor_emit :: "'k crypto_ext \<Rightarrow> Commitor \<Rightarrow> Block list \<Rightarrow> Commitor \<times> Block list" where
  "Commitor_emit cx c [] = (c, [])"
| "Commitor_emit cx c (b # bs) =
     (case Commitor_emit cx (c\<lparr>cm_committed := insert (Block_Hash cx b) (cm_committed c)\<rparr>) bs of
        (c', out) \<Rightarrow> (c', b # out))"

definition Commitor_take ::
    "'k crypto_ext \<Rightarrow> 'db store_ext \<Rightarrow> (nat \<Rightarrow> 'db) \<Rightarrow> nat \<Rightarrow> Commitor \<Rightarrow> Block \<Rightarrow>
     (Commitor \<times> Block list \<times> nat) option" where
  "Commitor_take cx dx dbs t c b =
     (if Block_Hash cx b \<in> cm_committed c then Some (c, [], t)
      else do { (queue, t') \<leftarrow> Commitor_walk cx dx dbs (cm_committed c) t [b] b;
                let (c', out) = Commitor_emit cx c (rev queue);
                Some (c', out, t') })"

fun Commitor_run ::
    "'k crypto_ext \<Rightarrow> 'db store_ext \<Rightarrow> (nat \<Rightarrow> 'db) \<Rightarrow> nat \<Rightarrow> Commitor \<Rightarrow> Block list \<Rightarrow>
     (Commitor \<times> Block list \<times> nat) option" where
  "Commitor_run cx dx dbs t c [] = Some (c, [], t)"
| "Commitor_run cx dx dbs t c (b # bs) =
     do { (c1, out1, t1) \<leftarrow> Commitor_take cx dx dbs t c b;
          (c2, out2, t2) \<leftarrow> Commitor_run cx dx dbs t1 c1 bs;
          Some (c2, out1 @ out2, t2) }"

section \<open>The interface the cores use\<close>

text \<open>
  What a core may rely on about \<open>Commit\<close>: the submitted blocks never go back in view and
  height. \<open>pos\<close> is the view and height of the last submission.
\<close>

definition block_pos :: "Block \<Rightarrow> int \<times> int" where
  "block_pos b = (b_View b, uint (b_Height b))"

definition pos_le :: "int \<times> int \<Rightarrow> int \<times> int \<Rightarrow> bool" where
  "pos_le p q \<longleftrightarrow> fst p < fst q \<or> fst p = fst q \<and> snd p \<le> snd q"

lemma pos_le_trans: "pos_le p q \<Longrightarrow> pos_le q r \<Longrightarrow> pos_le p r"
  by (auto simp: pos_le_def)

locale commitor_interface =
  fixes Commit :: "'c \<Rightarrow> Block \<Rightarrow> 'c \<times> Block option"
    and pos :: "'c \<Rightarrow> int \<times> int"
  assumes accepts: "pos_le (pos c) (block_pos b) \<Longrightarrow> \<exists>c'. Commit c b = (c', Some b) \<and> pos c' = block_pos b"
    and rejects: "\<not> pos_le (pos c) (block_pos b) \<Longrightarrow> Commit c b = (c, None)"
begin

fun commits :: "'c \<Rightarrow> Block list \<Rightarrow> 'c \<times> Block list" where
  "commits c [] = (c, [])"
| "commits c (b # bs) =
     (case Commit c b of (c', out) \<Rightarrow>
      case commits c' bs of (c'', outs) \<Rightarrow> (c'', (case out of None \<Rightarrow> outs | Some x \<Rightarrow> x # outs)))"

lemma commits_sorted:
  "commits c bs = (c', out) \<Longrightarrow>
     sorted_wrt (\<lambda>x y. pos_le (block_pos x) (block_pos y)) out \<and> (\<forall>x \<in> set out. pos_le (pos c) (block_pos x)) \<and>
     subseq out bs"
proof (induction bs arbitrary: c c' out)
  case (Cons b bs)
  obtain c1 o1 where 1: "Commit c b = (c1, o1)" by (cases "Commit c b")
  obtain c2 o2 where 2: "commits c1 bs = (c2, o2)" by (cases "commits c1 bs")
  show ?case
  proof (cases "pos_le (pos c) (block_pos b)")
    case True
    then have "o1 = Some b" "pos c1 = block_pos b" using accepts[OF True] 1 by auto
    with True 1 2 Cons.prems Cons.IH[OF 2] pos_le_trans show ?thesis by fastforce
  next
    case False
    then have "c1 = c" "o1 = None" using rejects[OF False] 1 by auto
    with 1 2 Cons.prems Cons.IH[OF 2] show ?thesis by auto
  qed
qed simp

end

lemma uint_less_iff: "(a :: 'a::len word) < b \<longleftrightarrow> uint a < uint b"
  by (simp add: word_less_alt)

interpretation cmt: commitor_interface Commitor_Commit "\<lambda>c. (cm_lastView c, uint (cm_lastHeight c))"
  by unfold_locales
     (auto simp: Commitor_Commit_def pos_le_def block_pos_def uint_less_iff)

section \<open>The walk and the chain it finds\<close>

text \<open>
  \<open>settles H R committed b path\<close>: following certificates from \<open>b\<close>, with a read of digest \<open>d\<close>
  yielding a block \<open>x\<close> with \<open>R d x\<close>, passes the blocks \<open>path\<close> (starting with \<open>b\<close>) and
  ends at a block without certificate or whose parent is committed.
\<close>

inductive settles :: "(Block \<Rightarrow> digest) \<Rightarrow> (digest \<Rightarrow> Block \<Rightarrow> bool) \<Rightarrow> digest set \<Rightarrow> Block \<Rightarrow> Block list \<Rightarrow> bool"
  for H R committed where
  root: "b_Qc b = None \<Longrightarrow> settles H R committed b [b]"
| known: "b_Qc b = Some qc \<Longrightarrow> R (qc_ParentBlockHash qc) x \<Longrightarrow> H x \<in> committed \<Longrightarrow>
           settles H R committed b [b]"
| parent: "b_Qc b = Some qc \<Longrightarrow> R (qc_ParentBlockHash qc) x \<Longrightarrow> H x \<notin> committed \<Longrightarrow>
           settles H R committed x path \<Longrightarrow> settles H R committed b (b # path)"

inductive_cases settles_SomeE: "settles H R committed b path"

text \<open>The blocks that the reads of a run may return.\<close>

definition may_read :: "'db store_ext \<Rightarrow> (nat \<Rightarrow> 'db) \<Rightarrow> digest \<Rightarrow> Block \<Rightarrow> bool" where
  "may_read dx dbs d b \<longleftrightarrow> (\<exists>t. getBlock dx (dbs t) d = Inr b)"

lemma settles_head: "settles H R committed b path \<Longrightarrow> \<exists>rest. path = b # rest"
  by (auto elim: settles_SomeE)

lemma Commitor_walk_settles:
  "Commitor_walk cx dx dbs committed t queue b = Some r \<Longrightarrow>
     \<exists>path. settles (Block_Hash cx) (may_read dx dbs) committed b path \<and> fst r = queue @ tl path"
proof (induct cx dx dbs committed t queue b r rule: Commitor_walk.raw_induct[rotated, consumes 1, case_names step])
  case (step W cx dx dbs committed t queue b r)
  show ?case
  proof (cases "b_Qc b")
    case None
    then show ?thesis using step(2) settles.root[OF None, of "Block_Hash cx" "may_read dx dbs" committed] by force
  next
    case (Some qc)
    note qc = Some
    show ?thesis
    proof (cases "getBlock dx (dbs t) (qc_ParentBlockHash qc)")
      case (Inl e)
      then show ?thesis using step(1)[of cx dx dbs committed "Suc t" queue b r] step(2) qc by simp
    next
      case (Inr x)
      then have R: "may_read dx dbs (qc_ParentBlockHash qc) x" by (auto simp: may_read_def)
      show ?thesis
      proof (cases "Block_Hash cx x \<in> committed")
        case True
        then have "settles (Block_Hash cx) (may_read dx dbs) committed b [b]"
          using qc R by (blast intro: settles.known)
        moreover have "fst r = queue @ tl [b]" using step(2) qc Inr True by force
        ultimately show ?thesis by blast
      next
        case False
        then obtain path where p: "settles (Block_Hash cx) (may_read dx dbs) committed x path"
            "fst r = (queue @ [x]) @ tl path"
          using step(1)[of cx dx dbs committed "Suc t" "queue @ [x]" x r] step(2) qc Inr by auto
        then have "fst r = queue @ tl (b # path)" using settles_head[OF p(1)] by auto
        moreover have "settles (Block_Hash cx) (may_read dx dbs) committed b (b # path)"
          using qc R False p(1) by (blast intro: settles.parent)
        ultimately show ?thesis by blast
      qed
    qed
  qed
qed

text \<open>
  \<open>parents_before H known bs\<close>: in the sequence \<open>bs\<close> every block's parent is among the
  digests \<open>known\<close> or precedes it.
\<close>

fun parents_before :: "(Block \<Rightarrow> digest) \<Rightarrow> digest set \<Rightarrow> Block list \<Rightarrow> bool" where
  "parents_before H known [] = True"
| "parents_before H known (b # bs) \<longleftrightarrow>
     (case b_Qc b of None \<Rightarrow> True | Some qc \<Rightarrow> qc_ParentBlockHash qc \<in> known) \<and>
     parents_before H (insert (H b) known) bs"

lemma parents_before_append:
  "parents_before H known (bs @ bs') \<longleftrightarrow>
     parents_before H known bs \<and> parents_before H (known \<union> H ` set bs) bs'"
  by (induction bs arbitrary: known) auto

lemma settles_parents_before:
  assumes "settles H R committed b path" "\<And>d x. R d x \<Longrightarrow> H x = d"
  shows "parents_before H committed (rev path)"
  using assms(1)
proof (induction rule: settles.induct)
  case (root b)
  then show ?case by simp
next
  case (known b qc x)
  then show ?case using assms(2) by auto
next
  case (parent b qc x path)
  then have "qc_ParentBlockHash qc \<in> H ` set path"
    using assms(2)[OF parent(2)] settles_head[OF parent(4)] by auto
  with parent show ?case by (auto simp: parents_before_append)
qed

lemma Commitor_emit_eq:
  "Commitor_emit cx c bs = (c\<lparr>cm_committed := cm_committed c \<union> Block_Hash cx ` set bs\<rparr>, bs)"
  by (induction cx c bs rule: Commitor_emit.induct) auto

text \<open>What one block taken from the channel does.\<close>

lemma Commitor_takeE:
  assumes "Commitor_take cx dx dbs t c b = Some (c', out, t')"
  obtains (already) "Block_Hash cx b \<in> cm_committed c" "c' = c" "out = []"
  | (walked) path where "Block_Hash cx b \<notin> cm_committed c"
      "settles (Block_Hash cx) (may_read dx dbs) (cm_committed c) b path" "out = rev path"
      "c' = c\<lparr>cm_committed := cm_committed c \<union> Block_Hash cx ` set path\<rparr>"
proof (cases "Block_Hash cx b \<in> cm_committed c")
  case True
  then have "c' = c" "out = []" using assms by (simp_all add: Commitor_take_def)
  from already[OF True this] show ?thesis .
next
  case False
  then obtain queue where w: "Commitor_walk cx dx dbs (cm_committed c) t [b] b = Some (queue, t')"
      and o: "out = rev queue" "c' = c\<lparr>cm_committed := cm_committed c \<union> Block_Hash cx ` set queue\<rparr>"
    using assms
    by (cases "Commitor_walk cx dx dbs (cm_committed c) t [b] b")
       (simp_all add: Commitor_take_def Commitor_emit_eq split: prod.splits)
  obtain path where p: "settles (Block_Hash cx) (may_read dx dbs) (cm_committed c) b path"
      "fst (queue, t') = [b] @ tl path"
    using Commitor_walk_settles[OF w] by blast
  obtain rest where "path = b # rest" using settles_head[OF p(1)] by blast
  with p(2) have "queue = path" by simp
  with p o have "settles (Block_Hash cx) (may_read dx dbs) (cm_committed c) b path" "out = rev path"
      "c' = c\<lparr>cm_committed := cm_committed c \<union> Block_Hash cx ` set path\<rparr>" by simp_all
  from walked[OF False this] show ?thesis .
qed

section \<open>Order\<close>

text \<open>
  A store that is only filled by \<open>storeBlock\<close> returns under a digest a block with that digest.
\<close>

definition keyed_by_hash :: "'k crypto_ext \<Rightarrow> 'db store_ext \<Rightarrow> (nat \<Rightarrow> 'db) \<Rightarrow> bool" where
  "keyed_by_hash cx dx dbs \<longleftrightarrow> (\<forall>t d b. getBlock dx (dbs t) d = Inr b \<longrightarrow> Block_Hash cx b = d)"

lemma keyed_by_hash_storeBlock:
  assumes "nutsdb_contract dx" "gob_faithful dx b"
    and "\<And>d x. getBlock dx db d = Inr x \<Longrightarrow> Block_Hash cx x = d"
    and "getBlock dx (snd (storeBlock cx dx db b)) d = Inr x"
  shows "Block_Hash cx x = d"
  using assms(4) assms(3) getBlock_storeBlock[OF assms(1,2), of cx db d] by (auto split: if_splits)

lemma Commitor_run_order:
  assumes "keyed_by_hash cx dx dbs" "Commitor_run cx dx dbs t c bs = Some (c', out, t')"
  shows "parents_before (Block_Hash cx) (cm_committed c) out \<and>
         cm_committed c' = cm_committed c \<union> Block_Hash cx ` set out"
  using assms(2)
proof (induction bs arbitrary: t c out)
  case (Cons b bs)
  then obtain c1 o1 t1 o2 where 1: "Commitor_take cx dx dbs t c b = Some (c1, o1, t1)"
      and 2: "Commitor_run cx dx dbs t1 c1 bs = Some (c', o2, t')" and o: "out = o1 @ o2"
    by (auto simp: Option.bind_eq_Some_conv)
  have "parents_before (Block_Hash cx) (cm_committed c) o1 \<and>
      cm_committed c1 = cm_committed c \<union> Block_Hash cx ` set o1"
    using 1
  proof (cases rule: Commitor_takeE)
    case (walked path)
    have "parents_before (Block_Hash cx) (cm_committed c) (rev path)"
      using assms(1) by (intro settles_parents_before[OF walked(2)]) (auto simp: keyed_by_hash_def may_read_def)
    with walked show ?thesis by simp
  qed simp
  with Cons.IH[OF 2] show ?case by (simp add: o parents_before_append image_Un Un_assoc)
qed simp

text \<open>
  C3. Blocks are committed after their parents. Whatever blocks are submitted and however the
  store fills up meanwhile, in the sequence of commits every block that carries a certificate
  comes after a block with the digest which the certificate names, and the set of committed
  digests is the set of digests of that sequence.
\<close>

theorem commits_in_chain_order:
  assumes "keyed_by_hash cx dx dbs" "Commitor_run cx dx dbs t NewCommitor bs = Some (c, out, t')"
  shows "parents_before (Block_Hash cx) {} out \<and> cm_committed c = Block_Hash cx ` set out"
  using Commitor_run_order[OF assms] by (simp add: NewCommitor_def)

text \<open>
  The chain is determined by its first block when a digest determines the block.
\<close>

lemma settles_unique:
  assumes "settles H R committed b path" "settles H R committed b path'"
    and "\<And>d x y. R d x \<Longrightarrow> R d y \<Longrightarrow> x = y"
  shows "path = path'"
  using assms(1,2)
proof (induction arbitrary: path' rule: settles.induct)
  case (root b)
  from root(2) show ?case by (cases rule: settles.cases) (use root in simp_all)
next
  case (known b qc x)
  from known(4) show ?case
  proof (cases rule: settles.cases)
    case (parent qc' x' path'')
    then have "x' = x" using known(1,2) assms(3)[of "qc_ParentBlockHash qc" x' x] by simp
    then show ?thesis using parent(4) known(3) by simp
  qed (use known in simp_all)
next
  case step: (parent b qc x path)
  from step(6) show ?case
  proof (cases rule: settles.cases)
    case root
    then show ?thesis using step(1) by simp
  next
    case (known qc' x')
    then have "x' = x" using step(1,2) assms(3)[of "qc_ParentBlockHash qc" x' x] by simp
    then show ?thesis using known(4) step(3) by simp
  next
    case (parent qc' x' path'')
    then have "x' = x" using step(1,2) assms(3)[of "qc_ParentBlockHash qc" x' x] by simp
    then show ?thesis using parent(1,5) step.IH[of path''] by simp
  qed
qed

lemma settles_suffix:
  "settles H R committed b path \<Longrightarrow> path = us @ x # vs \<Longrightarrow> settles H R committed x (x # vs)"
proof (induction arbitrary: us rule: settles.induct)
  case (root b)
  then have "x = b" "vs = []" by (auto simp: Cons_eq_append_conv)
  then show ?case using settles.root[OF root(1)] by simp
next
  case (known b qc y)
  then have "x = b" "vs = []" by (auto simp: Cons_eq_append_conv)
  then show ?case using settles.known[of b qc R y H committed] known(1-3) by simp
next
  case (parent b qc y path)
  show ?case
  proof (cases us)
    case Nil
    then have "x = b" "vs = path" using parent.prems by auto
    then show ?thesis using settles.parent[of b qc R y H committed path] parent(1-4) by simp
  next
    case (Cons u us')
    then have "path = us' @ x # vs" using parent.prems by simp
    then show ?thesis by (rule parent.IH)
  qed
qed

lemma settles_new: "settles H R committed b path \<Longrightarrow> H b \<notin> committed \<Longrightarrow> x \<in> set path \<Longrightarrow> H x \<notin> committed"
  by (induction rule: settles.induct) auto

lemma settles_blocks: "settles H R committed b path \<Longrightarrow> x \<in> set path \<Longrightarrow> x = b \<or> (\<exists>d. R d x)"
  by (induction rule: settles.induct) auto

lemma settles_distinct:
  assumes "settles H R committed b path" "\<And>d x y. R d x \<Longrightarrow> R d y \<Longrightarrow> x = y"
  shows "distinct path"
proof -
  have main: "distinct suf" if "path = pre @ suf" for pre suf
    using that
  proof (induction suf arbitrary: pre)
    case (Cons x suf)
    then have d: "distinct suf" using Cons.IH[of "pre @ [x]"] by simp
    have s: "settles H R committed x (x # suf)" using settles_suffix[OF assms(1) Cons.prems] .
    have "x \<notin> set suf"
    proof
      assume "x \<in> set suf"
      then obtain us vs where suf: "suf = us @ x # vs" by (meson split_list)
      have "settles H R committed x (x # vs)" using settles_suffix[OF s, of "x # us" x vs] suf by simp
      from settles_unique[OF s this assms(2)] have "suf = vs" by simp
      then show False using suf by simp
    qed
    with d show ?case by simp
  qed simp
  show ?thesis by (rule main[of "[]"]) simp
qed

section \<open>A sample chain\<close>

definition sample_qc :: "Block \<Rightarrow> BlockQC" where
  "sample_qc b = \<lparr>qc_View = b_View b, qc_Height = b_Height b, qc_Proposer = b_Author b,
                  qc_ParentBlockHash = Block_Hash sample_cx b, qc_Shares = []\<rparr>"

definition sample_child :: "Block \<Rightarrow> node_id \<Rightarrow> int \<Rightarrow> 8 word \<Rightarrow> Block" where
  "sample_child b i v h = (sample_block i v h)\<lparr>b_Qc := Some (sample_qc b)\<rparr>"

definition sample_chain :: "Block list" where
  "sample_chain =
     (let g = sample_block 0 0 0; c1 = sample_child g 0 0 1; c2 = sample_child c1 2 1 0 in [g, c1, c2])"

definition sample_dbs :: "nat \<Rightarrow> (string \<times> bytes \<Rightarrow> bytes option)" where
  "sample_dbs t = storeBlocks sample_cx (sample_dx sample_chain) Map.empty (take t sample_chain)"

lemma sample_hashes:
  "map (Block_Hash sample_cx) sample_chain = [[48,48,48,45,49], [48,48,49,45,49], [49,48,49,48,45,49]]"
  by (simp add: Let_def sample_chain_def sample_child_def sample_block_def empty_batch_def Block_Hash_def Block_parts_def
      hash_parts_concat sample_cx_def AppendInt2_def bin_digits.simps)

lemma sample_read:
  "getBlock (sample_dx sample_chain) (sample_dbs t) d =
     foldl (\<lambda>r b. if d = Block_Hash sample_cx b then Inr b else r) (Inl (ErrStore ''key not found'')) (take t sample_chain)"
proof -
  have "set (take t sample_chain) \<subseteq> set sample_chain" "length sample_chain < 256"
    by (auto dest: in_set_takeD) (simp add: sample_chain_def Let_def)
  then show ?thesis by (simp add: sample_dbs_def sample_store_read)
qed

lemma sample_keyed: "keyed_by_hash sample_cx (sample_dx sample_chain) sample_dbs"
proof -
  have "foldl (\<lambda>r b. if d = Block_Hash sample_cx b then Inr b else r) r0 bs = Inr x \<Longrightarrow>
      r0 = Inr x \<or> Block_Hash sample_cx x = d" for d bs x and r0 :: "error + Block"
    by (induction bs arbitrary: r0) (auto split: if_splits)
  then show ?thesis unfolding keyed_by_hash_def sample_read by blast
qed

lemma sample_run:
  "Commitor_run sample_cx (sample_dx sample_chain) sample_dbs 0 NewCommitor [sample_chain ! 2] =
     Some (NewCommitor\<lparr>cm_committed := Block_Hash sample_cx ` set sample_chain\<rparr>, sample_chain, 4)"
proof -
  obtain g c1 c2 where ch: "sample_chain = [g, c1, c2]" by (simp add: sample_chain_def Let_def)
  have qc: "b_Qc g = None" "b_Qc c1 = Some (sample_qc g)" "b_Qc c2 = Some (sample_qc c1)"
    using ch by (auto simp: sample_chain_def Let_def sample_child_def sample_block_def)
  have h: "Block_Hash sample_cx g = [48,48,48,45,49]" "Block_Hash sample_cx c1 = [48,48,49,45,49]"
      "Block_Hash sample_cx c2 = [49,48,49,48,45,49]"
    using sample_hashes[unfolded ch] by auto
  show ?thesis
    by (simp add: Commitor_take_def NewCommitor_def Commitor_walk.simps Commitor_emit_eq sample_read[unfolded ch] ch qc h
        sample_qc_def insert_commute)
qed

theorem commits_in_chain_order_witness:
  "\<exists>c t'. Commitor_run sample_cx (sample_dx sample_chain) sample_dbs 0 NewCommitor [sample_chain ! 2] =
      Some (c, sample_chain, t') \<and> parents_before (Block_Hash sample_cx) {} sample_chain"
  using commits_in_chain_order[OF sample_keyed sample_run] sample_run by blast

text \<open>
  C13. A block is committed at most once, however often it is submitted and whichever chains
  pass it, provided that the digests of the blocks in play identify them.
\<close>

theorem commits_at_most_once:
  assumes "keyed_by_hash cx dx dbs"
    and "inj_on (Block_Hash cx) (set bs \<union> {x. \<exists>d. may_read dx dbs d x})"
    and "Commitor_run cx dx dbs t NewCommitor bs = Some (c, out, t')"
  shows "distinct (map (Block_Hash cx) out)"
proof -
  have R: "x = y" if "may_read dx dbs d x" "may_read dx dbs d y" for d x y
  proof -
    have "Block_Hash cx x = Block_Hash cx y"
      using that assms(1) unfolding keyed_by_hash_def may_read_def by metis
    then show ?thesis using assms(2) that unfolding inj_on_def by blast
  qed
  have "distinct (map (Block_Hash cx) out) \<and> Block_Hash cx ` set out \<inter> cm_committed c0 = {}"
    if "Commitor_run cx dx dbs t c0 bs' = Some (c, out, t')" "set bs' \<subseteq> set bs" for t c0 bs' out
    using that
  proof (induction bs' arbitrary: t c0 out)
    case (Cons b bs')
    then obtain c1 o1 t1 o2 where 1: "Commitor_take cx dx dbs t c0 b = Some (c1, o1, t1)"
        and 2: "Commitor_run cx dx dbs t1 c1 bs' = Some (c, o2, t')" and o: "out = o1 @ o2"
      by (auto simp: Option.bind_eq_Some_conv)
    have IH: "distinct (map (Block_Hash cx) o2)" "Block_Hash cx ` set o2 \<inter> cm_committed c1 = {}"
      using Cons.IH[OF 2] Cons.prems(2) by auto
    from 1 show ?case
    proof (cases rule: Commitor_takeE)
      case already
      with IH o show ?thesis by simp
    next
      case (walked path)
      have "set path \<subseteq> set bs \<union> {x. \<exists>d. may_read dx dbs d x}"
        using settles_blocks[OF walked(2)] Cons.prems(2) by auto
      then have "inj_on (Block_Hash cx) (set path)" using assms(2) inj_on_subset by blast
      then have "distinct (map (Block_Hash cx) (rev path))"
        using settles_distinct[OF walked(2) R] by (simp add: distinct_map)
      moreover have "Block_Hash cx ` set path \<inter> cm_committed c0 = {}"
        using settles_new[OF walked(2,1)] by blast
      ultimately show ?thesis using IH o walked(3,4) by (auto simp: image_iff)
    qed
  qed simp
  from this[OF assms(3)] show ?thesis by simp
qed

theorem commits_at_most_once_witness:
  "\<exists>c t'. Commitor_run sample_cx (sample_dx sample_chain) sample_dbs 0 NewCommitor [sample_chain ! 2] = Some (c, sample_chain, t') \<and>
     distinct (map (Block_Hash sample_cx) sample_chain)"
proof -
  have "x \<in> set sample_chain" if "may_read (sample_dx sample_chain) sample_dbs d x" for d x
  proof -
    have "foldl (\<lambda>r b. if d = Block_Hash sample_cx b then Inr b else r) r0 bs = Inr x \<Longrightarrow>
      r0 = Inr x \<or> x \<in> set bs" for bs and r0 :: "error + Block"
      by (induction bs arbitrary: r0) (auto split: if_splits)
    then show ?thesis using that in_set_takeD unfolding may_read_def sample_read by fastforce
  qed
  then have "set [sample_chain ! 2] \<union> {x. \<exists>d. may_read (sample_dx sample_chain) sample_dbs d x} \<subseteq> set sample_chain"
    by (auto simp: sample_chain_def Let_def)
  moreover have "inj_on (Block_Hash sample_cx) (set sample_chain)"
    using sample_hashes by (simp add: sample_chain_def Let_def inj_on_def)
  ultimately show ?thesis
    using commits_at_most_once[OF sample_keyed _ sample_run] sample_run inj_on_subset by blast
qed

section \<open>Blocks that share a digest\<close>

lemma Commitor_take_committed:
  assumes "Commitor_take cx dx dbs t c b = Some (c', out, t')"
  shows "Block_Hash cx b \<in> cm_committed c'" "cm_committed c \<subseteq> cm_committed c'"
  using assms by (cases rule: Commitor_takeE; auto dest: settles_head)+

lemma Commitor_run_committed:
  "Commitor_run cx dx dbs t c bs = Some (c', out, t') \<Longrightarrow> cm_committed c \<subseteq> cm_committed c'"
proof (induction bs arbitrary: t c out)
  case (Cons b bs)
  then obtain c1 o1 t1 o2 where 1: "Commitor_take cx dx dbs t c b = Some (c1, o1, t1)"
      and 2: "Commitor_run cx dx dbs t1 c1 bs = Some (c', o2, t')"
    by (auto simp: Option.bind_eq_Some_conv)
  from Commitor_take_committed(2)[OF 1] Cons.IH[OF 2] show ?case by blast
qed simp

text \<open>
  C27. Every block with an author 2a+1, a at least 1, shares its digest, whatever the hash
  function, with a block of author a in a later view (the view whose binary rendering is that of
  the first block's view after a leading 1), of the same height and with the same batch ID, which
  is -1 in every block that is proposed while the pool is empty. The certificates and
  references of the two play no part. Once the committer's goroutine has been through the first
  block, then, however many other blocks it takes in between, it passes over the second without
  committing it or looking for its ancestors.
\<close>

theorem colliding_block_passed_over:
  assumes "1 \<le> b_Author b'" "0 \<le> b_View b" "b_Author b = 2 * b_Author b' + 1"
    and "b_View b' = 2 ^ length (AppendInt2 (b_View b)) + b_View b"
    and "b_Height b' = b_Height b" "batch_ID (b_Batch b') = batch_ID (b_Batch b)"
    and "Commitor_take cx dx dbs t c b = Some (c1, out1, t1)"
    and "Commitor_run cx dx dbs t1 c1 bs = Some (c2, out2, t2)"
  shows "b_View b < b_View b' \<and> Block_Hash cx b' = Block_Hash cx b \<and>
         Commitor_take cx dx dbs t2 c2 b' = Some (c2, [], t2)"
proof -
  have h: "Block_Hash cx b' = Block_Hash cx b" by (rule Block_Hash_collision[OF assms(1-6)])
  have "Block_Hash cx b' \<in> cm_committed c2"
    using Commitor_take_committed(1)[OF assms(7)] Commitor_run_committed[OF assms(8)] h by auto
  with h show ?thesis by (simp add: Commitor_take_def assms(4))
qed

text \<open>
  Node 3's block of view 0 is committed; node 1's block of view 2, which extends another block, is
  not, nor is that block.
\<close>

theorem colliding_block_passed_over_witness:
  "let b = \<lparr>b_Author = 3, b_View = 0, b_Height = HEIGHT_1, b_Batch = empty_batch, b_Qc = None, b_References = []\<rparr>;
       b' = \<lparr>b_Author = 1, b_View = 2, b_Height = HEIGHT_1, b_Batch = empty_batch,
              b_Qc = Some (sample_qc (sample_chain ! 1)), b_References = []\<rparr>;
       c1 = NewCommitor\<lparr>cm_committed := {Block_Hash sample_cx b}\<rparr>
   in Commitor_take sample_cx (sample_dx sample_chain) sample_dbs 0 NewCommitor b = Some (c1, [b], 0) \<and>
      Commitor_take sample_cx (sample_dx sample_chain) sample_dbs 0 c1 b' = Some (c1, [], 0)"
proof -
  define b where "b = \<lparr>b_Author = 3, b_View = 0, b_Height = HEIGHT_1, b_Batch = empty_batch,
    b_Qc = None, b_References = []\<rparr>"
  define b' where "b' = \<lparr>b_Author = 1, b_View = 2, b_Height = HEIGHT_1, b_Batch = empty_batch,
    b_Qc = Some (sample_qc (sample_chain ! 1)), b_References = []\<rparr>"
  let ?c = "NewCommitor\<lparr>cm_committed := {Block_Hash sample_cx b}\<rparr>"
  have 1: "Commitor_take sample_cx (sample_dx sample_chain) sample_dbs 0 NewCommitor b = Some (?c, [b], 0)"
    by (simp add: Commitor_take_def Commitor_walk.simps NewCommitor_def b_def)
  have 2: "Commitor_run sample_cx (sample_dx sample_chain) sample_dbs 0 ?c [] = Some (?c, [], 0)" by simp
  have "Commitor_take sample_cx (sample_dx sample_chain) sample_dbs 0 ?c b' = Some (?c, [], 0)"
    using colliding_block_passed_over[OF _ _ _ _ _ _ 1 2, of b'] by (simp add: b_def b'_def)
  with 1 show ?thesis by (simp only: Let_def b_def[symmetric] b'_def[symmetric])
qed

section \<open>When a commit returns\<close>

text \<open>
  \<open>converges dx dbs lookup\<close>: reads only ever return what the map \<open>lookup\<close> says, and from some
  read on they return all of it.
\<close>

definition converges :: "'db store_ext \<Rightarrow> (nat \<Rightarrow> 'db) \<Rightarrow> (digest \<Rightarrow> Block option) \<Rightarrow> bool" where
  "converges dx dbs lookup \<longleftrightarrow>
     (\<forall>t d x. getBlock dx (dbs t) d = Inr x \<longrightarrow> lookup d = Some x) \<and>
     (\<exists>T. \<forall>t \<ge> T. \<forall>d x. lookup d = Some x \<longrightarrow> getBlock dx (dbs t) d = Inr x)"

lemma converges_may_read: "converges dx dbs lookup \<Longrightarrow> may_read dx dbs = (\<lambda>d x. lookup d = Some x)"
  unfolding converges_def may_read_def fun_eq_iff by (meson order_refl)

text \<open>The walk waits at a block until the parent can be read.\<close>

lemma Commitor_walk_waits:
  assumes "converges dx dbs lookup" "b_Qc b = Some qc" "lookup (qc_ParentBlockHash qc) = Some x"
  shows "\<exists>t1. Commitor_walk cx dx dbs committed t queue b =
     (if Block_Hash cx x \<in> committed then Some (queue, t1) else Commitor_walk cx dx dbs committed t1 (queue @ [x]) x)"
proof -
  obtain T where T: "\<And>t. T \<le> t \<Longrightarrow> getBlock dx (dbs t) (qc_ParentBlockHash qc) = Inr x"
    using assms(1,3) unfolding converges_def by meson
  have "\<exists>t1. Commitor_walk cx dx dbs committed t queue b =
     (if Block_Hash cx x \<in> committed then Some (queue, t1) else Commitor_walk cx dx dbs committed t1 (queue @ [x]) x)"
    if "T - t = n" for n t
    using that
  proof (induction n arbitrary: t)
    case 0
    then have "getBlock dx (dbs t) (qc_ParentBlockHash qc) = Inr x" using T by simp
    then show ?case
      by (intro exI[of _ "Suc t"], subst Commitor_walk.simps) (simp add: assms(2))
  next
    case (Suc n)
    show ?case
    proof (cases "getBlock dx (dbs t) (qc_ParentBlockHash qc)")
      case (Inl e)
      then have "Commitor_walk cx dx dbs committed t queue b = Commitor_walk cx dx dbs committed (Suc t) queue b"
        by (subst Commitor_walk.simps) (simp add: assms(2))
      then show ?thesis using Suc.IH[of "Suc t"] Suc.prems by simp
    next
      case (Inr y)
      then have "y = x" using assms(1,3) by (auto simp: converges_def)
      with Inr show ?thesis
        by (intro exI[of _ "Suc t"], subst Commitor_walk.simps) (simp add: assms(2))
    qed
  qed
  then show ?thesis by blast
qed

lemma settles_Commitor_walk:
  assumes "converges dx dbs lookup"
    and "settles (Block_Hash cx) (\<lambda>d x. lookup d = Some x) committed b path"
  shows "\<exists>t'. Commitor_walk cx dx dbs committed t queue b = Some (queue @ tl path, t')"
  using assms(2)
proof (induction arbitrary: t queue rule: settles.induct)
  case (root b)
  then show ?case by (subst Commitor_walk.simps) simp
next
  case (known b qc x)
  then show ?case using Commitor_walk_waits[OF assms(1) known(1,2), of cx committed t queue] by auto
next
  case (parent b qc x path)
  obtain t1 where "Commitor_walk cx dx dbs committed t queue b = Commitor_walk cx dx dbs committed t1 (queue @ [x]) x"
    using Commitor_walk_waits[OF assms(1) parent(1,2), of cx committed t queue] parent(3) by auto
  moreover obtain rest where "path = x # rest" using settles_head[OF parent(4)] by blast
  ultimately show ?case using parent.IH[of t1 "queue @ [x]"] by simp
qed

text \<open>
  C12. When the commit of a block returns. With a store whose contents converge to a map from
  digests to blocks, taking an uncommitted block from the channel returns if and only if
  following certificates through that map leads to a block without certificate or to a
  committed parent; it then commits exactly the blocks passed, oldest first. Blocks that are
  stored late only delay it.
\<close>

theorem Commitor_take_returns_iff:
  assumes "converges dx dbs lookup" "Block_Hash cx b \<notin> cm_committed c"
  shows "(\<exists>c' t'. Commitor_take cx dx dbs t c b = Some (c', out, t')) \<longleftrightarrow>
         settles (Block_Hash cx) (\<lambda>d x. lookup d = Some x) (cm_committed c) b (rev out)"
proof
  assume "\<exists>c' t'. Commitor_take cx dx dbs t c b = Some (c', out, t')"
  then obtain c' t' where "Commitor_take cx dx dbs t c b = Some (c', out, t')" by blast
  then show "settles (Block_Hash cx) (\<lambda>d x. lookup d = Some x) (cm_committed c) b (rev out)"
    by (cases rule: Commitor_takeE)
       (use assms(2) converges_may_read[OF assms(1)] in auto)
next
  assume s: "settles (Block_Hash cx) (\<lambda>d x. lookup d = Some x) (cm_committed c) b (rev out)"
  obtain t' where "Commitor_walk cx dx dbs (cm_committed c) t [b] b = Some ([b] @ tl (rev out), t')"
    using settles_Commitor_walk[OF assms(1) s] by blast
  moreover have "[b] @ tl (rev out) = rev out" using settles_head[OF s] by auto
  ultimately show "\<exists>c' t'. Commitor_take cx dx dbs t c b = Some (c', out, t')"
    using assms(2) by (simp add: Commitor_take_def Commitor_emit_eq)
qed

definition sample_lookup :: "digest \<Rightarrow> Block option" where
  "sample_lookup = map_of (map (\<lambda>b. (Block_Hash sample_cx b, b)) sample_chain)"

lemma last_stored:
  assumes "distinct (map H bs)"
  shows "foldl (\<lambda>r b. if d = H b then Inr b else r) r0 bs =
     (case map_of (map (\<lambda>b. (H b, b)) bs) d of Some b \<Rightarrow> Inr b | None \<Rightarrow> r0)"
  using assms
proof (induction bs arbitrary: r0)
  case (Cons b bs)
  then have "d = H b \<Longrightarrow> map_of (map (\<lambda>b. (H b, b)) bs) d = None"
    by (auto simp: map_of_eq_None_iff image_image)
  with Cons show ?case by (auto split: option.split)
qed simp

lemma sample_converges: "converges (sample_dx sample_chain) sample_dbs sample_lookup"
proof -
  have d: "distinct (map (Block_Hash sample_cx) sample_chain)" by (simp add: sample_hashes)
  have len: "length sample_chain = 3" by (simp add: sample_chain_def Let_def)
  have read: "getBlock (sample_dx sample_chain) (sample_dbs t) d =
      (case map_of (map (\<lambda>b. (Block_Hash sample_cx b, b)) (take t sample_chain)) d of
         Some b \<Rightarrow> Inr b | None \<Rightarrow> Inl (ErrStore ''key not found''))" for t d
    unfolding sample_read using d by (intro last_stored) (metis distinct_take take_map)
  have "getBlock (sample_dx sample_chain) (sample_dbs t) d = Inr x \<Longrightarrow> sample_lookup d = Some x" for t d x
    unfolding read sample_lookup_def using d
    by (auto dest!: map_of_SomeD in_set_takeD intro!: map_of_is_SomeI split: option.splits simp: comp_def)
  moreover have "3 \<le> t \<Longrightarrow> sample_lookup d = Some x \<Longrightarrow> getBlock (sample_dx sample_chain) (sample_dbs t) d = Inr x"
    for t d x
    using read[of t d] len by (simp add: sample_lookup_def)
  ultimately show ?thesis unfolding converges_def by blast
qed

theorem Commitor_take_returns_iff_witness:
  "(\<exists>c' t'. Commitor_take sample_cx (sample_dx sample_chain) sample_dbs 0 NewCommitor (sample_chain ! 2) =
      Some (c', sample_chain, t')) \<and>
   settles (Block_Hash sample_cx) (\<lambda>d x. sample_lookup d = Some x) {} (sample_chain ! 2) (rev sample_chain)"
proof -
  have "\<exists>c' t'. Commitor_take sample_cx (sample_dx sample_chain) sample_dbs 0 NewCommitor (sample_chain ! 2) =
      Some (c', sample_chain, t')"
    using sample_run by (auto simp: Option.bind_eq_Some_conv)
  then show ?thesis
    using Commitor_take_returns_iff[OF sample_converges, of sample_cx "sample_chain ! 2" NewCommitor 0 sample_chain]
    by (simp add: NewCommitor_def)
qed

text \<open>
  C14. A block that cannot be connected blocks the committer for ever. If a set of uncommitted
  blocks with certificates is closed under reading the parent, or the parent is never stored,
  then taking one of them from the channel never returns, and nothing submitted after it is
  committed. A block whose certificate names the block itself is such a set: certificates are
  not verified on arrival and are not part of a block's digest.
\<close>

theorem unconnected_block_blocks_commits:
  assumes "b \<in> S"
    and "\<forall>x \<in> S. Block_Hash cx x \<notin> cm_committed c \<and>
           (\<exists>qc. b_Qc x = Some qc \<and> (\<forall>t y. getBlock dx (dbs t) (qc_ParentBlockHash qc) = Inr y \<longrightarrow> y \<in> S))"
  shows "Commitor_run cx dx dbs t c (b # bs) = None"
proof -
  have closed: "y \<in> S" if "x \<in> S" "b_Qc x = Some qc" "may_read dx dbs (qc_ParentBlockHash qc) y" for x y qc
    using assms(2) that unfolding may_read_def by (metis option.inject)
  have no_path: "x \<notin> S" if "settles (Block_Hash cx) (may_read dx dbs) (cm_committed c) x path" for x path
    using that
  proof (induction rule: settles.induct)
    case (root b)
    then show ?case using assms(2) by fastforce
  next
    case (known b qc x)
    then show ?case using assms(2) closed by blast
  next
    case (parent b qc x path)
    then show ?case using closed by blast
  qed
  have "Commitor_take cx dx dbs t c b = None"
  proof (cases "Commitor_take cx dx dbs t c b")
    case (Some r)
    obtain c' out t' where r: "Commitor_take cx dx dbs t c b = Some (c', out, t')"
      using Some by (cases r) auto
    then show ?thesis
    proof (cases rule: Commitor_takeE)
      case already
      then show ?thesis using assms by auto
    next
      case (walked path)
      then show ?thesis using no_path[OF walked(2)] assms(1) by simp
    qed
  qed simp
  then show ?thesis by simp
qed

text \<open>A block that certifies itself, in a store that holds it.\<close>

definition sample_self :: Block where
  "sample_self = (sample_block 3 1 0)\<lparr>b_Qc := Some (sample_qc (sample_block 3 1 0))\<rparr>"

theorem unconnected_block_blocks_commits_witness:
  "Commitor_run sample_cx (sample_dx [sample_self])
     (\<lambda>t. storeBlocks sample_cx (sample_dx [sample_self]) Map.empty [sample_self]) 0 NewCommitor
     [sample_self, sample_block 0 2 0] = None"
  by (rule unconnected_block_blocks_commits[where S = "{sample_self}"])
     (auto simp: NewCommitor_def sample_store_read sample_self_def sample_qc_def sample_block_def
        Block_Hash_def Block_parts_def simp del: storeBlocks.simps)

text \<open>
  The blocks that a core submits reach the committer's channel in the order of views and
  heights: \<open>Commit\<close> drops every block that would step back and passes all others on unchanged.
\<close>

theorem submissions_advance:
  assumes "cmt.commits NewCommitor bs = (c, out)"
  shows "sorted_wrt (\<lambda>x y. pos_le (block_pos x) (block_pos y)) out \<and> subseq out bs \<and>
         (\<forall>b \<in> set out. pos_le (0, 0) (block_pos b))"
  using cmt.commits_sorted[OF assms] by (simp add: NewCommitor_def)

theorem submissions_advance_witness:
  "sorted_wrt (\<lambda>x y. pos_le (block_pos x) (block_pos y)) [sample_block 0 1 0, sample_block 1 1 1]"
proof -
  have "cmt.commits NewCommitor [sample_block 0 1 0, sample_block 2 0 1, sample_block 1 1 1] =
      (NewCommitor\<lparr>cm_lastView := 1, cm_lastHeight := 1\<rparr>, [sample_block 0 1 0, sample_block 1 1 1])"
    by (simp add: Commitor_Commit_def NewCommitor_def sample_block_def)
  from submissions_advance[OF this] show ?thesis by simp
qed

end
