(* ===== verification/Runtime.thy ===== *)
theory Runtime
  imports Commitor "HOL-Library.Multiset"
begin

text \<open>
  How a node runs: src/core/transimtor.go and the goroutines and channels around the three
  cores. The core's main goroutine takes a message from \<open>recvCh\<close>, runs its handler and performs
  the handler's effects in order; handlers start goroutines that run the methods of the SPB
  instances. A method is split into its critical sections: one step of a goroutine is one
  section (or one atomic operation), and between two sections any other goroutine may run.

  A handler or section is a function from the state to the new state and the list of effects
  it performs, in the order of the code. Effects that send on a bounded channel block while
  the channel is full. A panic, which the model writes as \<open>None\<close>, stops the whole node.
\<close>

section \<open>Effects and the transmitter\<close>

record NetMessage =
  nm_Msg :: msg
  nm_Address :: "string list"

definition Transmitor_Send :: "Committee \<Rightarrow> node_id \<Rightarrow> node_id \<Rightarrow> msg \<Rightarrow> NetMessage" where
  "Transmitor_Send c from to m =
     \<lparr>nm_Msg = m, nm_Address = (if to = NONE then Committee_BroadCast c from else [Committee_Address c to])\<rparr>"

datatype 'g effect =
    ESend node_id node_id msg    \<comment> \<open>\<open>transmitor.Send(from, to, msg)\<close>\<close>
  | EEnq msg                     \<comment> \<open>\<open>transmitor.RecvChannel() <- msg\<close>\<close>
  | ECommit Block                \<comment> \<open>\<open>blocksChan <- block\<close> of the committer\<close>
  | ECall int node_id            \<comment> \<open>\<open>callBack <- s\<close>, for the instance of that view and proposer\<close>
  | EGo 'g                       \<comment> \<open>\<open>go ...\<close>\<close>
  | EReturn                      \<comment> \<open>the goroutine returns and does nothing more\<close>

datatype input =
    InMsg msg                    \<comment> \<open>a message from \<open>recvCh\<close>\<close>
  | InCall int node_id           \<comment> \<open>an instance from \<open>callBackSpb\<close>\<close>

text \<open>
  A protocol: the handlers of the main loop, the sections of the other goroutines, and what
  the goroutines of the transaction pool do to the state meanwhile.
\<close>

record ('core, 'g) machine =
  mc_committee :: Committee
  mc_handle :: "'core \<Rightarrow> input \<Rightarrow> ('core \<times> 'g effect list \<times> error option) option"
  mc_section :: "'core \<Rightarrow> 'g \<Rightarrow> ('core \<times> 'g effect list \<times> 'g option) option"
  mc_background :: "'core \<Rightarrow> 'core \<Rightarrow> bool"

section \<open>The node\<close>

record ('core, 'g) node =
  nd_core :: 'core
  nd_main :: "'g effect list"
  nd_gos :: "('g effect list \<times> 'g option) list"
  nd_recvCh :: "msg list"
  nd_msgCh :: "NetMessage list"
  nd_callBack :: "(int \<times> node_id) list"
  nd_blocksChan :: "Block list"
  nd_alive :: bool

definition recv_cap :: nat where "recv_cap = 1000"
definition send_cap :: nat where "send_cap = 1000"
definition call_cap :: nat where "call_cap = 100"
definition blocks_cap :: nat where "blocks_cap = 100"

text \<open>A node at the start of \<open>Run\<close>, whose first effects are the first proposal.\<close>

definition boot_node :: "'core \<Rightarrow> 'g effect list \<Rightarrow> ('core, 'g) node" where
  "boot_node core effs =
     \<lparr>nd_core = core, nd_main = effs, nd_gos = [], nd_recvCh = [], nd_msgCh = [], nd_callBack = [],
      nd_blocksChan = [], nd_alive = True\<rparr>"

fun perform :: "Committee \<Rightarrow> 'g effect \<Rightarrow> ('core, 'g) node \<Rightarrow> ('core, 'g) node option" where
  "perform c (ESend from to m) nd =
     (if length (nd_msgCh nd) < send_cap
      then Some (nd\<lparr>nd_msgCh := nd_msgCh nd @ [Transmitor_Send c from to m]\<rparr>) else None)"
| "perform c (EEnq m) nd =
     (if length (nd_recvCh nd) < recv_cap then Some (nd\<lparr>nd_recvCh := nd_recvCh nd @ [m]\<rparr>) else None)"
| "perform c (ECommit b) nd =
     (if length (nd_blocksChan nd) < blocks_cap then Some (nd\<lparr>nd_blocksChan := nd_blocksChan nd @ [b]\<rparr>) else None)"
| "perform c (ECall v i) nd =
     (if length (nd_callBack nd) < call_cap then Some (nd\<lparr>nd_callBack := nd_callBack nd @ [(v, i)]\<rparr>) else None)"
| "perform c (EGo g) nd = Some (nd\<lparr>nd_gos := nd_gos nd @ [([], Some g)]\<rparr>)"
| "perform c EReturn nd = None"

text \<open>
  \<open>node_step mc net nd effs nd'\<close>: one step of the node, in which a handler or section that ran
  issued the effects \<open>effs\<close> (they are performed by later steps). \<open>net m\<close> says which messages
  the network may deliver. The goroutine that passes them on to \<open>recvCh\<close> asserts that they are
  \<open>ConsensusMessage\<close>s, and panics if one is not.
\<close>

inductive node_step ::
    "('core, 'g) machine \<Rightarrow> (msg \<Rightarrow> bool) \<Rightarrow> ('core, 'g) node \<Rightarrow> 'g effect list \<Rightarrow> ('core, 'g) node \<Rightarrow> bool"
  for mc net where
  main_msg: "nd_alive nd \<Longrightarrow> nd_main nd = [] \<Longrightarrow> nd_recvCh nd = m # ms \<Longrightarrow>
      mc_handle mc (nd_core nd) (InMsg m) = Some (core', effs, err) \<Longrightarrow>
      node_step mc net nd effs (nd\<lparr>nd_core := core', nd_main := effs, nd_recvCh := ms\<rparr>)"
| main_call: "nd_alive nd \<Longrightarrow> nd_main nd = [] \<Longrightarrow> nd_callBack nd = (v, i) # cs \<Longrightarrow>
      mc_handle mc (nd_core nd) (InCall v i) = Some (core', effs, err) \<Longrightarrow>
      node_step mc net nd effs (nd\<lparr>nd_core := core', nd_main := effs, nd_callBack := cs\<rparr>)"
| main_effect: "nd_alive nd \<Longrightarrow> nd_main nd = e # es \<Longrightarrow>
      perform (mc_committee mc) e (nd\<lparr>nd_main := es\<rparr>) = Some nd' \<Longrightarrow> node_step mc net nd [] nd'"
| go_section: "nd_alive nd \<Longrightarrow> i < length (nd_gos nd) \<Longrightarrow> nd_gos nd ! i = ([], Some g) \<Longrightarrow>
      mc_section mc (nd_core nd) g = Some (core', effs, g') \<Longrightarrow>
      node_step mc net nd effs (nd\<lparr>nd_core := core', nd_gos := (nd_gos nd)[i := (effs, g')]\<rparr>)"
| go_effect: "nd_alive nd \<Longrightarrow> i < length (nd_gos nd) \<Longrightarrow> nd_gos nd ! i = (e # es, g) \<Longrightarrow>
      perform (mc_committee mc) e (nd\<lparr>nd_gos := (nd_gos nd)[i := (es, g)]\<rparr>) = Some nd' \<Longrightarrow>
      node_step mc net nd [] nd'"
| deliver: "nd_alive nd \<Longrightarrow> net m \<Longrightarrow> is_ConsensusMessage m \<Longrightarrow> length (nd_recvCh nd) < recv_cap \<Longrightarrow>
      node_step mc net nd [] (nd\<lparr>nd_recvCh := nd_recvCh nd @ [m]\<rparr>)"
| sender: "nd_alive nd \<Longrightarrow> nd_msgCh nd = x # xs \<Longrightarrow> node_step mc net nd [] (nd\<lparr>nd_msgCh := xs\<rparr>)"
| commitor: "nd_alive nd \<Longrightarrow> nd_blocksChan nd = b # bs \<Longrightarrow> node_step mc net nd [] (nd\<lparr>nd_blocksChan := bs\<rparr>)"
| background: "nd_alive nd \<Longrightarrow> mc_background mc (nd_core nd) core' \<Longrightarrow>
      node_step mc net nd [] (nd\<lparr>nd_core := core'\<rparr>)"
| main_msg_panic: "nd_alive nd \<Longrightarrow> nd_main nd = [] \<Longrightarrow> nd_recvCh nd = m # ms \<Longrightarrow>
      mc_handle mc (nd_core nd) (InMsg m) = None \<Longrightarrow> node_step mc net nd [] (nd\<lparr>nd_alive := False\<rparr>)"
| main_call_panic: "nd_alive nd \<Longrightarrow> nd_main nd = [] \<Longrightarrow> nd_callBack nd = (v, i) # cs \<Longrightarrow>
      mc_handle mc (nd_core nd) (InCall v i) = None \<Longrightarrow> node_step mc net nd [] (nd\<lparr>nd_alive := False\<rparr>)"
| go_panic: "nd_alive nd \<Longrightarrow> i < length (nd_gos nd) \<Longrightarrow> nd_gos nd ! i = ([], Some g) \<Longrightarrow>
      mc_section mc (nd_core nd) g = None \<Longrightarrow> node_step mc net nd [] (nd\<lparr>nd_alive := False\<rparr>)"
| deliver_panic: "nd_alive nd \<Longrightarrow> net m \<Longrightarrow> \<not> is_ConsensusMessage m \<Longrightarrow>
      node_step mc net nd [] (nd\<lparr>nd_alive := False\<rparr>)"

inductive_cases node_stepE: "node_step mc net nd effs nd'"

lemma node_step_mono: "node_step mc net nd effs nd' \<Longrightarrow> (\<And>m. net m \<Longrightarrow> net' m) \<Longrightarrow> node_step mc net' nd effs nd'"
  by (induction rule: node_step.induct) (blast intro: node_step.intros)+

text \<open>A run, with the effects issued in it in order.\<close>

inductive node_run ::
    "('core, 'g) machine \<Rightarrow> (msg \<Rightarrow> bool) \<Rightarrow> ('core, 'g) node \<Rightarrow> 'g effect list \<Rightarrow> ('core, 'g) node \<Rightarrow> bool"
  for mc net nd0 where
  start: "node_run mc net nd0 [] nd0"
| more: "node_run mc net nd0 tr nd \<Longrightarrow> node_step mc net nd effs nd' \<Longrightarrow> node_run mc net nd0 (tr @ effs) nd'"

lemma node_run_trans:
  "node_run mc net nd1 tr' nd2 \<Longrightarrow> node_run mc net nd0 tr nd1 \<Longrightarrow> node_run mc net nd0 (tr @ tr') nd2"
proof (induction rule: node_run.induct)
  case (more tr' nd effs nd')
  then show ?case using node_run.more[of mc net nd0 "tr @ tr'" nd effs nd'] by simp
qed simp

section \<open>Executing a schedule\<close>

text \<open>Which goroutine moves next, or what the network delivers: runs that can be evaluated.\<close>

datatype move = Deliver msg | Main | Callback | Go nat

fun exec_move :: "('core, 'g) machine \<Rightarrow> move \<Rightarrow> ('core, 'g) node \<Rightarrow> (('core, 'g) node \<times> 'g effect list) option" where
  "exec_move mc (Deliver m) nd =
     (if is_ConsensusMessage m \<and> length (nd_recvCh nd) < recv_cap
      then Some (nd\<lparr>nd_recvCh := nd_recvCh nd @ [m]\<rparr>, []) else None)"
| "exec_move mc Main nd =
     (case nd_main nd of
        e # es \<Rightarrow> do { nd' \<leftarrow> perform (mc_committee mc) e (nd\<lparr>nd_main := es\<rparr>); Some (nd', []) }
      | [] \<Rightarrow> (case nd_recvCh nd of
                 [] \<Rightarrow> None
               | m # ms \<Rightarrow> do { (core', effs, err) \<leftarrow> mc_handle mc (nd_core nd) (InMsg m);
                               Some (nd\<lparr>nd_core := core', nd_main := effs, nd_recvCh := ms\<rparr>, effs) }))"
| "exec_move mc Callback nd =
     (if nd_main nd \<noteq> [] then None
      else case nd_callBack nd of
             [] \<Rightarrow> None
           | (v, i) # cs \<Rightarrow> do { (core', effs, err) \<leftarrow> mc_handle mc (nd_core nd) (InCall v i);
                               Some (nd\<lparr>nd_core := core', nd_main := effs, nd_callBack := cs\<rparr>, effs) })"
| "exec_move mc (Go i) nd =
     (if i < length (nd_gos nd) then
        (case nd_gos nd ! i of
           (e # es, g) \<Rightarrow> do { nd' \<leftarrow> perform (mc_committee mc) e (nd\<lparr>nd_gos := (nd_gos nd)[i := (es, g)]\<rparr>);
                              Some (nd', []) }
         | ([], Some g) \<Rightarrow> do { (core', effs, g') \<leftarrow> mc_section mc (nd_core nd) g;
                                Some (nd\<lparr>nd_core := core', nd_gos := (nd_gos nd)[i := (effs, g')]\<rparr>, effs) }
         | ([], None) \<Rightarrow> None)
      else None)"

fun exec :: "('core, 'g) machine \<Rightarrow> move list \<Rightarrow> ('core, 'g) node \<Rightarrow> (('core, 'g) node \<times> 'g effect list) option" where
  "exec mc [] nd = Some (nd, [])"
| "exec mc (x # xs) nd =
     do { (nd1, tr1) \<leftarrow> exec_move mc x nd; (nd2, tr2) \<leftarrow> exec mc xs nd1; Some (nd2, tr1 @ tr2) }"

fun delivered :: "move list \<Rightarrow> msg list" where
  "delivered [] = []"
| "delivered (Deliver m # xs) = m # delivered xs"
| "delivered (_ # xs) = delivered xs"

lemma perform_alive [simp]: "perform c e nd = Some nd' \<Longrightarrow> nd_alive nd' = nd_alive nd"
  by (cases e) (auto split: if_splits)

lemma exec_move_step:
  assumes "exec_move mc x nd = Some (nd', effs)" "nd_alive nd" "\<And>m. x = Deliver m \<Longrightarrow> net m"
  shows "node_step mc net nd effs nd' \<and> nd_alive nd'"
proof (cases x)
  case (Deliver m)
  then show ?thesis using assms by (auto intro: node_step.deliver split: if_splits)
next
  case Main
  then show ?thesis using assms
    by (auto simp: Option.bind_eq_Some_conv intro: node_step.main_effect node_step.main_msg dest: perform_alive
        split: list.splits)
next
  case Callback
  then show ?thesis using assms
    by (auto simp: Option.bind_eq_Some_conv intro: node_step.main_call split: list.splits if_splits)
next
  case (Go i)
  then show ?thesis using assms
    by (auto simp: Option.bind_eq_Some_conv intro: node_step.go_effect node_step.go_section dest: perform_alive
        split: list.splits if_splits prod.splits option.splits)
qed

lemma exec_run:
  "exec mc xs nd = Some (nd', tr) \<Longrightarrow> nd_alive nd \<Longrightarrow> (\<And>m. m \<in> set (delivered xs) \<Longrightarrow> net m) \<Longrightarrow>
     node_run mc net nd tr nd'"
proof (induction xs arbitrary: nd tr)
  case Nil
  then show ?case by (simp add: node_run.start)
next
  case (Cons x xs)
  then obtain nd1 tr1 tr2 where 1: "exec_move mc x nd = Some (nd1, tr1)" and 2: "exec mc xs nd1 = Some (nd', tr2)"
      and tr: "tr = tr1 @ tr2"
    by (auto simp: Option.bind_eq_Some_conv)
  have "node_step mc net nd tr1 nd1" "nd_alive nd1"
    using exec_move_step[OF 1 Cons.prems(2)] Cons.prems(3) by auto
  moreover have "node_run mc net nd1 tr2 nd'"
    using Cons.IH[OF 2 \<open>nd_alive nd1\<close>] Cons.prems(3) by (cases x) auto
  ultimately show ?case
    using node_run_trans[of mc net nd1 tr2 nd' nd tr1] node_run.more[OF node_run.start, of mc net nd tr1 nd1]
    by (simp add: tr)
qed

text \<open>A node whose main goroutine waits for the network.\<close>

definition idle :: "('core, 'g) node \<Rightarrow> bool" where
  "idle nd \<longleftrightarrow> nd_alive nd \<and> nd_main nd = [] \<and> nd_recvCh nd = []"

section \<open>Invariants of a node\<close>

text \<open>
  What has to be shown of a protocol so that an invariant holds in every run. \<open>I\<close> relates the
  core's state and the effects issued so far, \<open>M\<close> holds of every message that is delivered,
  enqueued or sent, \<open>G\<close> of every goroutine's next section and \<open>K\<close> of every callback.
\<close>

fun effect_ok :: "(msg \<Rightarrow> bool) \<Rightarrow> ('g \<Rightarrow> bool) \<Rightarrow> (int \<Rightarrow> node_id \<Rightarrow> bool) \<Rightarrow> 'g effect \<Rightarrow> bool" where
  "effect_ok M G K (EEnq m) = M m"
| "effect_ok M G K (ESend i j m) = M m"
| "effect_ok M G K (EGo g) = G g"
| "effect_ok M G K (ECall v i) = K v i"
| "effect_ok M G K _ = True"

fun input_ok :: "(msg \<Rightarrow> bool) \<Rightarrow> (int \<Rightarrow> node_id \<Rightarrow> bool) \<Rightarrow> input \<Rightarrow> bool" where
  "input_ok M K (InMsg m) = M m"
| "input_ok M K (InCall v i) = K v i"

lemma effect_ok_True [simp]: "effect_ok (\<lambda>_. True) (\<lambda>_. True) (\<lambda>_ _. True) e"
  by (cases e) auto

lemma effects_ok_True [simp]: "list_all (effect_ok (\<lambda>_. True) (\<lambda>_. True) (\<lambda>_ _. True)) es"
  by (simp add: list_all_iff)

fun go_ok :: "(msg \<Rightarrow> bool) \<Rightarrow> ('g \<Rightarrow> bool) \<Rightarrow> (int \<Rightarrow> node_id \<Rightarrow> bool) \<Rightarrow> 'g effect list \<times> 'g option \<Rightarrow> bool" where
  "go_ok M G K (es, g) \<longleftrightarrow> list_all (effect_ok M G K) es \<and> pred_option G g"

locale node_invariant =
  fixes mc :: "('core, 'g) machine" and net :: "msg \<Rightarrow> bool"
    and I :: "'core \<Rightarrow> 'g effect list \<Rightarrow> bool"
    and M :: "msg \<Rightarrow> bool" and G :: "'g \<Rightarrow> bool" and K :: "int \<Rightarrow> node_id \<Rightarrow> bool"
  assumes net_ok: "net m \<Longrightarrow> M m"
    and handle_inv: "I core tr \<Longrightarrow> input_ok M K i \<Longrightarrow> mc_handle mc core i = Some (core', effs, err) \<Longrightarrow>
          I core' (tr @ effs) \<and> list_all (effect_ok M G K) effs"
    and section_inv: "I core tr \<Longrightarrow> G g \<Longrightarrow> mc_section mc core g = Some (core', effs, g') \<Longrightarrow>
          I core' (tr @ effs) \<and> list_all (effect_ok M G K) effs \<and> pred_option G g'"
    and background_inv: "I core tr \<Longrightarrow> mc_background mc core core' \<Longrightarrow> I core' tr"
begin

definition node_ok :: "'g effect list \<Rightarrow> ('core, 'g) node \<Rightarrow> bool" where
  "node_ok tr nd \<longleftrightarrow>
     I (nd_core nd) tr \<and> list_all (effect_ok M G K) (nd_main nd) \<and> list_all (go_ok M G K) (nd_gos nd) \<and>
     list_all M (nd_recvCh nd) \<and> list_all (\<lambda>x. M (nm_Msg x)) (nd_msgCh nd) \<and> list_all (\<lambda>(v, i). K v i) (nd_callBack nd)"

lemma perform_ok:
  "perform c e nd = Some nd' \<Longrightarrow> effect_ok M G K e \<Longrightarrow> node_ok tr nd \<Longrightarrow> node_ok tr nd'"
  by (cases e) (auto simp: node_ok_def Transmitor_Send_def split: if_splits)

lemma go_at: "list_all P xs \<Longrightarrow> i < length xs \<Longrightarrow> P (xs ! i)"
  by (simp add: list_all_length)

lemma go_update: "list_all P xs \<Longrightarrow> P x \<Longrightarrow> list_all P (xs[i := x])"
  by (metis list_all_iff set_update_subset_insert subset_code(1) insertE)

lemma step_ok:
  assumes "node_step mc net nd effs nd'" "node_ok tr nd"
  shows "node_ok (tr @ effs) nd'"
  using assms(1)
proof (cases rule: node_step.cases)
  case (main_msg m ms core' err)
  then have "M m" using assms(2) by (simp add: node_ok_def)
  with main_msg handle_inv[of "nd_core nd" tr "InMsg m" core' effs err] assms(2) show ?thesis
    by (simp add: node_ok_def)
next
  case (main_call v i cs core' err)
  then have "K v i" using assms(2) by (simp add: node_ok_def)
  with main_call handle_inv[of "nd_core nd" tr "InCall v i" core' effs err] assms(2) show ?thesis
    by (simp add: node_ok_def)
next
  case (main_effect e es)
  then have "effect_ok M G K e" "node_ok tr (nd\<lparr>nd_main := es\<rparr>)" using assms(2) by (simp_all add: node_ok_def)
  with main_effect perform_ok show ?thesis by fastforce
next
  case (go_section i g core' g')
  then have "G g" using assms(2) go_at[of "go_ok M G K" "nd_gos nd" i] by (simp add: node_ok_def)
  then have "I core' (tr @ effs) \<and> list_all (effect_ok M G K) effs \<and> pred_option G g'"
    using go_section section_inv[of "nd_core nd" tr g core' effs g'] assms(2) by (simp add: node_ok_def)
  with go_section assms(2) show ?thesis
    using go_update[of "go_ok M G K" "nd_gos nd" "(effs, g')" i] by (simp add: node_ok_def)
next
  case (go_effect i e es g)
  then have g: "go_ok M G K (e # es, g)" using assms(2) go_at[of "go_ok M G K" "nd_gos nd" i] by (simp add: node_ok_def)
  then have "node_ok tr (nd\<lparr>nd_gos := (nd_gos nd)[i := (es, g)]\<rparr>)"
    using assms(2) go_update[of "go_ok M G K" "nd_gos nd" "(es, g)" i] by (simp add: node_ok_def)
  with go_effect g perform_ok show ?thesis by fastforce
next
  case (background core')
  then show ?thesis using assms(2) background_inv by (auto simp: node_ok_def)
qed (use assms(2) net_ok in \<open>auto simp: node_ok_def\<close>)

lemma run_ok:
  "node_run mc net nd0 tr nd \<Longrightarrow> node_ok tr0 nd0 \<Longrightarrow> node_ok (tr0 @ tr) nd"
proof (induction rule: node_run.induct)
  case (more tr nd effs nd')
  then show ?case using step_ok[of nd effs nd' "tr0 @ tr"] by simp
qed simp

text \<open>A node that boots with the effects \<open>effs\<close>.\<close>

lemma boot_ok: "I core effs \<Longrightarrow> list_all (effect_ok M G K) effs \<Longrightarrow> node_ok effs (boot_node core effs)"
  by (simp add: node_ok_def boot_node_def)

lemma run_invariant:
  assumes "I core effs" "list_all (effect_ok M G K) effs" "node_run mc net (boot_node core effs) tr nd"
  shows "I (nd_core nd) (effs @ tr)"
  using run_ok[OF assms(3) boot_ok[OF assms(1,2)]] by (simp add: node_ok_def)

end

text \<open>If handlers and sections also return whenever the invariant holds, the node never panics.\<close>

locale node_safe = node_invariant +
  assumes net_consensus: "net m \<Longrightarrow> is_ConsensusMessage m"
    and handle_total: "I core tr \<Longrightarrow> input_ok M K i \<Longrightarrow> mc_handle mc core i \<noteq> None"
    and section_total: "I core tr \<Longrightarrow> G g \<Longrightarrow> mc_section mc core g \<noteq> None"
begin

lemma step_alive:
  assumes "node_step mc net nd effs nd'" "node_ok tr nd"
  shows "nd_alive nd'"
  using assms(1)
proof (cases rule: node_step.cases)
  case (main_effect e es)
  then show ?thesis using perform_alive by fastforce
next
  case (go_effect i e es g)
  then show ?thesis using perform_alive by fastforce
next
  case (main_msg_panic m ms)
  then show ?thesis using assms(2) handle_total[of "nd_core nd" tr "InMsg m"] by (simp add: node_ok_def)
next
  case (main_call_panic v i cs)
  then show ?thesis using assms(2) handle_total[of "nd_core nd" tr "InCall v i"] by (simp add: node_ok_def)
next
  case (go_panic i g)
  then have "G g" using assms(2) go_at[of "go_ok M G K" "nd_gos nd" i] by (simp add: node_ok_def)
  then show ?thesis using go_panic assms(2) section_total[of "nd_core nd" tr g] by (simp add: node_ok_def)
next
  case (deliver_panic m)
  then show ?thesis using net_consensus by simp
qed simp_all

lemma run_alive:
  assumes "node_run mc net (boot_node core effs) tr nd" "I core effs" "list_all (effect_ok M G K) effs"
  shows "nd_alive nd"
  using assms(1)
proof (cases rule: node_run.cases)
  case start
  then show ?thesis by (simp add: boot_node_def)
next
  case (more tr' nd1 effs')
  then show ?thesis using step_alive run_ok[OF more(2) boot_ok[OF assms(2,3)]] by blast
qed

end

section \<open>Pending goroutines\<close>

text \<open>
  Some invariants speak of the goroutines that are under way, for instance that at most one of
  them has passed a counter. \<open>pending nd\<close> is the multiset of the sections to come: of the running
  goroutines and of those that effects still to be performed will start. The contract relates
  the core's state, the effects issued and the pending sections.
\<close>

fun spawned :: "'g effect list \<Rightarrow> 'g multiset" where
  "spawned [] = {#}"
| "spawned (EGo g # es) = add_mset g (spawned es)"
| "spawned (_ # es) = spawned es"

lemma spawned_append [simp]: "spawned (es @ es') = spawned es + spawned es'"
  by (induction es rule: spawned.induct) auto

lemma spawned_Cons: "spawned (e # es) = spawned [e] + spawned es"
  by (cases e) auto

lemma spawned_map_EGo [simp]: "spawned (map (\<lambda>t. EGo (f t)) ts) = mset (map f ts)"
  by (induction ts) auto

lemma spawned_EGo [simp]: "spawned (map EGo ts) = mset ts" "spawned (map (EGo \<circ> f) us) = mset (map f us)"
  by (induction ts; simp) (induction us; simp)

lemma effects_ok_parts:
  "list_all (effect_ok M G (\<lambda>_ _. True)) effs \<longleftrightarrow> (\<forall>m. EEnq m \<in> set effs \<longrightarrow> M m) \<and> (\<forall>i j m. ESend i j m \<in> set effs \<longrightarrow> M m) \<and> (\<forall>g \<in># spawned effs. G g)"
proof (induction effs)
  case (Cons e effs)
  then show ?case by (cases e) auto
qed simp

text \<open>Whatever is sent is enqueued as well: a broadcast does not go back to its sender.\<close>

definition sends_enqueued :: "'g effect list \<Rightarrow> bool" where
  "sends_enqueued effs \<longleftrightarrow> (\<forall>i j m. ESend i j m \<in> set effs \<longrightarrow> EEnq m \<in> set effs)"

lemma effects_ok_enqueued:
  "sends_enqueued effs \<Longrightarrow>
     list_all (effect_ok M G (\<lambda>_ _. True)) effs \<longleftrightarrow> (\<forall>m. EEnq m \<in> set effs \<longrightarrow> M m) \<and> (\<forall>g \<in># spawned effs. G g)"
  by (auto simp: effects_ok_parts sends_enqueued_def)

definition go_pending :: "'g effect list \<times> 'g option \<Rightarrow> 'g multiset" where
  "go_pending x = spawned (fst x) + (case snd x of None \<Rightarrow> {#} | Some g \<Rightarrow> {#g#})"

definition pending :: "('core, 'g) node \<Rightarrow> 'g multiset" where
  "pending nd = spawned (nd_main nd) + (\<Sum>x \<leftarrow> nd_gos nd. go_pending x)"

lemma sum_list_update_mset:
  "i < length xs \<Longrightarrow> f (xs ! i) + (\<Sum>x \<leftarrow> xs[i := y]. f x) = f y + (\<Sum>x \<leftarrow> xs. f x)" for f :: "'a \<Rightarrow> 'b multiset"
proof (induction xs arbitrary: i)
  case (Cons x xs)
  show ?case
  proof (cases i)
    case (Suc j)
    then show ?thesis using Cons.IH[of j] Cons.prems by (simp add: ac_simps)
  qed (simp add: ac_simps)
qed simp

lemma pending_perform: "perform c e nd = Some nd' \<Longrightarrow> pending nd' = spawned [e] + pending nd"
  by (cases e) (auto simp: pending_def go_pending_def split: if_splits)

lemma pending_go:
  assumes "i < length (nd_gos nd)"
  shows "go_pending (nd_gos nd ! i) + pending (nd\<lparr>nd_core := core, nd_gos := (nd_gos nd)[i := y]\<rparr>) = go_pending y + pending nd"
  using sum_list_update_mset[OF assms, of go_pending y] by (simp add: pending_def ac_simps)

locale node_tasks =
  fixes mc :: "('core, 'g) machine" and I :: "'core \<Rightarrow> 'g effect list \<Rightarrow> 'g multiset \<Rightarrow> bool"
  assumes handle_tasks: "I core tr P \<Longrightarrow> mc_handle mc core i = Some (core', effs, err) \<Longrightarrow>
          I core' (tr @ effs) (P + spawned effs)"
    and section_tasks: "I core tr (add_mset g P) \<Longrightarrow> mc_section mc core g = Some (core', effs, g') \<Longrightarrow>
          I core' (tr @ effs) (P + go_pending (effs, g'))"
    and background_tasks: "I core tr P \<Longrightarrow> mc_background mc core core' \<Longrightarrow> I core' tr P"
begin

lemma step_tasks:
  assumes "node_step mc net nd effs nd'" "I (nd_core nd) tr (pending nd)"
  shows "I (nd_core nd') (tr @ effs) (pending nd')"
  using assms(1)
proof (cases rule: node_step.cases)
  case (main_msg m ms core' err)
  then show ?thesis using handle_tasks[OF assms(2), of "InMsg m"] by (simp add: pending_def union_commute)
next
  case (main_call v i cs core' err)
  then show ?thesis using handle_tasks[OF assms(2), of "InCall v i"] by (simp add: pending_def union_commute)
next
  case (main_effect e es)
  have "pending nd' = pending nd"
    using pending_perform[OF main_effect(4)] main_effect(3) spawned_Cons[of e es] by (simp add: pending_def)
  moreover have "nd_core nd' = nd_core nd" using main_effect(4) by (cases e) (auto split: if_splits)
  ultimately show ?thesis using assms(2) main_effect(1) by simp
next
  case (go_section i g core' g')
  have p: "add_mset g (pending nd') = go_pending (effs, g') + pending nd"
    using pending_go[OF go_section(3), where core = core' and y = "(effs, g')"] go_section(1,4) by (simp add: go_pending_def)
  then obtain P where P: "pending nd = add_mset g P"
    using go_section(3,4) by (force simp: pending_def go_pending_def in_set_conv_nth
        dest!: split_list[OF nth_mem] multi_member_split)
  with p have "pending nd' = P + go_pending (effs, g')" by (simp add: union_commute)
  with section_tasks[of "nd_core nd" tr g P core' effs g'] assms(2) P go_section show ?thesis by simp
next
  case (go_effect i e es g)
  have "pending nd' = pending nd"
    using pending_perform[OF go_effect(5)] pending_go[OF go_effect(3), where core = "nd_core nd" and y = "(es, g)"] go_effect(4)
      spawned_Cons[of e es] by (simp add: go_pending_def)
  moreover have "nd_core nd' = nd_core nd" using go_effect(5) by (cases e) (auto split: if_splits)
  ultimately show ?thesis using assms(2) go_effect(1) by simp
next
  case (background core')
  then show ?thesis using background_tasks[OF assms(2)] by (simp add: pending_def)
qed (use assms(2) in \<open>simp_all add: pending_def\<close>)

lemma run_tasks:
  "node_run mc net nd0 tr nd \<Longrightarrow> I (nd_core nd0) tr0 (pending nd0) \<Longrightarrow> I (nd_core nd) (tr0 @ tr) (pending nd)"
proof (induction rule: node_run.induct)
  case (more tr nd effs nd')
  then show ?case using step_tasks[of net nd effs nd' "tr0 @ tr"] by simp
qed simp

end

section \<open>Proposals\<close>

text \<open>The proposals of a height that a list of effects sends, and the reports.\<close>

fun sent_proposals :: "'g effect list \<Rightarrow> ProposeMsg list" where
  "sent_proposals [] = []"
| "sent_proposals (ESend from to (ProposeM p) # es) = p # sent_proposals es"
| "sent_proposals (_ # es) = sent_proposals es"

fun sent_reports :: "'g effect list \<Rightarrow> ReportMsg list" where
  "sent_reports [] = []"
| "sent_reports (ESend from to (ReportM r) # es) = r # sent_reports es"
| "sent_reports (_ # es) = sent_reports es"

lemma sent_proposals_append [simp]: "sent_proposals (es @ es') = sent_proposals es @ sent_proposals es'"
  by (induction es rule: sent_proposals.induct) auto

lemma sent_reports_append [simp]: "sent_reports (es @ es') = sent_reports es @ sent_reports es'"
  by (induction es rule: sent_reports.induct) auto

lemma sent_EGo [simp]:
  "sent_proposals (map (\<lambda>t. EGo (f t)) ts) = []" "sent_reports (map (\<lambda>t. EGo (f t)) ts) = []"
  by (induction ts) auto

text \<open>Effects of an instance, seen from its core.\<close>

lemma sent_map_effect [simp]:
  "sent_proposals (map (map_effect f) es) = sent_proposals es" "sent_reports (map (map_effect f) es) = sent_reports es"
  by (induction es rule: sent_proposals.induct; simp) (induction es rule: sent_reports.induct; simp)

lemma spawned_map_effect [simp]: "spawned (map (map_effect f) es) = image_mset f (spawned es)"
  by (induction es rule: spawned.induct) auto

lemma EEnq_map_effect [simp]: "EEnq m \<in> map_effect f ` A \<longleftrightarrow> EEnq m \<in> A"
proof
  assume "EEnq m \<in> map_effect f ` A"
  then obtain e where "e \<in> A" "map_effect f e = EEnq m" by (metis imageE)
  then show "EEnq m \<in> A" by (cases e) auto
qed force

lemma ESend_map_effect [simp]: "ESend i k m \<in> map_effect f ` A \<longleftrightarrow> ESend i k m \<in> A"
proof
  assume "ESend i k m \<in> map_effect f ` A"
  then obtain e where "e \<in> A" "map_effect f e = ESend i k m" by (metis imageE)
  then show "ESend i k m \<in> A" by (cases e) auto
qed force

lemma effect_ok_map [simp]: "effect_ok M G K (map_effect f e) = effect_ok M (G \<circ> f) K e"
  by (cases e) auto

text \<open>
  A protocol that advances a position and proposes exactly when it does: \<open>J\<close> is an invariant of
  the core's state, \<open>key\<close> the position in it, \<open>keys\<close> the positions of the proposals among some effects. The
  consequence: in every run the positions of the proposals strictly increase and the last is
  the core's current position.
\<close>

definition advances :: "('core \<Rightarrow> int) \<Rightarrow> ('g effect list \<Rightarrow> int list) \<Rightarrow> 'core \<Rightarrow> 'g effect list \<Rightarrow> 'core \<Rightarrow> bool" where
  "advances key keys core effs core' \<longleftrightarrow>
     key core' = key core \<and> keys effs = [] \<or> key core < key core' \<and> keys effs = [key core']"

locale advancing_proposer =
  fixes mc :: "('core, 'g) machine" and J :: "'core \<Rightarrow> bool" and key :: "'core \<Rightarrow> int" and keys :: "'g effect list \<Rightarrow> int list"
  assumes keys_append: "keys (es @ es') = keys es @ keys es'"
    and handle_key: "J core \<Longrightarrow> mc_handle mc core i = Some (core', effs, err) \<Longrightarrow> J core' \<and> advances key keys core effs core'"
    and section_key: "J core \<Longrightarrow> mc_section mc core g = Some (core', effs, g') \<Longrightarrow> J core' \<and> advances key keys core effs core'"
    and background_key: "J core \<Longrightarrow> mc_background mc core core' \<Longrightarrow> J core' \<and> key core' = key core"
begin

definition in_order :: "'core \<Rightarrow> 'g effect list \<Rightarrow> bool" where
  "in_order core tr \<longleftrightarrow> J core \<and> keys tr \<noteq> [] \<and> sorted_wrt (<) (keys tr) \<and> last (keys tr) = key core"

lemma in_order_step:
  assumes "in_order core tr" "advances key keys core effs core'" "J core'"
  shows "in_order core' (tr @ effs)"
proof -
  have s: "sorted_wrt (<) (keys tr)" "keys tr \<noteq> []" "last (keys tr) = key core" using assms(1) by (simp_all add: in_order_def)
  from assms(2) consider "key core' = key core" "keys effs = []" | "key core < key core'" "keys effs = [key core']"
    by (auto simp: advances_def)
  then show ?thesis
  proof cases
    case 1
    with s assms(3) show ?thesis by (simp add: in_order_def keys_append)
  next
    case 2
    have "x \<le> key core" if "x \<in> set (keys tr)" for x
    proof -
      obtain ys where ys: "keys tr = ys @ [key core]" using s(2,3) by (metis append_butlast_last_id)
      with s(1) that show ?thesis by (auto simp: sorted_wrt_append)
    qed
    with s 2 assms(3) show ?thesis by (fastforce simp: in_order_def keys_append sorted_wrt_append)
  qed
qed

end

sublocale advancing_proposer \<subseteq> node_invariant mc "\<lambda>_. True" in_order "\<lambda>_. True" "\<lambda>_. True" "\<lambda>_ _. True"
proof
  fix core tr i core' effs err
  assume "in_order core tr" "mc_handle mc core i = Some (core', effs, err)"
  then show "in_order core' (tr @ effs) \<and> list_all (effect_ok (\<lambda>_. True) (\<lambda>_. True) (\<lambda>_ _. True)) effs"
    using handle_key[of core i core' effs err] in_order_step[of core tr effs core'] by (simp add: in_order_def)
next
  fix core tr g core' effs g'
  assume "in_order core tr" "mc_section mc core g = Some (core', effs, g')"
  then show "in_order core' (tr @ effs) \<and> list_all (effect_ok (\<lambda>_. True) (\<lambda>_. True) (\<lambda>_ _. True)) effs \<and>
      pred_option (\<lambda>_. True) g'"
    using section_key[of core g core' effs g'] in_order_step[of core tr effs core'] by (simp add: in_order_def option.pred_True)
next
  fix core tr core'
  assume "in_order core tr" "mc_background mc core core'"
  then show "in_order core' tr" using background_key[of core core'] by (simp add: in_order_def)
qed simp

section \<open>The receive channel can lock the node\<close>

text \<open>
  The main goroutine is the only reader of \<open>recvCh\<close> and also writes to it. A node that waits
  for room there waits for itself.
\<close>

definition locked :: "('core, 'g) node \<Rightarrow> bool" where
  "locked nd \<longleftrightarrow> length (nd_recvCh nd) = recv_cap \<and> (\<exists>m es. nd_main nd = EEnq m # es)"

lemma perform_frame:
  assumes "perform c e nd = Some nd'" "length (nd_recvCh nd) = recv_cap"
  shows "nd_main nd' = nd_main nd \<and> nd_recvCh nd' = nd_recvCh nd"
  using assms by (cases e) (auto split: if_splits)

lemma locked_step:
  assumes "node_step mc net nd effs nd'" "locked nd"
  shows "nd_main nd' = nd_main nd \<and> nd_recvCh nd' = nd_recvCh nd"
  using assms(1)
proof (cases rule: node_step.cases)
  case (main_effect e es)
  then show ?thesis using assms(2) by (auto simp: locked_def)
next
  case (go_effect i e es g)
  then show ?thesis using assms(2) perform_frame[OF go_effect(5)] by (simp add: locked_def)
qed (use assms(2) in \<open>auto simp: locked_def\<close>)

lemma locked_run:
  assumes "locked nd" "node_run mc net nd tr nd'"
  shows "nd_main nd' = nd_main nd \<and> nd_recvCh nd' = nd_recvCh nd"
  using assms(2)
proof (induction rule: node_run.induct)
  case (more tr nd1 effs nd2)
  then have "locked nd1" using assms(1) by (simp add: locked_def)
  with more locked_step show ?case by fastforce
qed simp

lemma deliver_many:
  assumes "nd_alive nd" "net m" "length (nd_recvCh nd) + k \<le> recv_cap" "is_ConsensusMessage m"
  shows "node_run mc net nd [] (nd\<lparr>nd_recvCh := nd_recvCh nd @ replicate k m\<rparr>)"
  using assms(3)
proof (induction k)
  case 0
  then show ?case by (simp add: node_run.start)
next
  case (Suc k)
  let ?nd = "nd\<lparr>nd_recvCh := nd_recvCh nd @ replicate k m\<rparr>"
  have "node_step mc net ?nd [] (?nd\<lparr>nd_recvCh := nd_recvCh ?nd @ [m]\<rparr>)"
    using assms Suc.prems by (intro node_step.deliver) simp_all
  with Suc node_run.more[of mc net nd "[]" ?nd "[]"] show ?case
    by (simp add: replicate_append_same[symmetric])
qed

text \<open>
  All cores boot by sending and then enqueueing a proposal; if the network fills \<open>recvCh\<close> before
  that, the main goroutine waits for room that only it could make.
\<close>

lemma full_recvCh_locks:
  assumes "net m" "is_ConsensusMessage m"
  shows "\<exists>tr nd. node_run mc net (boot_node core [ESend from to p, EEnq p]) tr nd \<and> nd_alive nd \<and>
     (\<forall>tr' nd'. node_run mc net nd tr' nd' \<longrightarrow>
        nd_main nd' = [EEnq p] \<and> nd_recvCh nd' = replicate recv_cap m)"
proof -
  let ?b = "boot_node core [ESend from to p, EEnq p]"
  let ?full = "?b\<lparr>nd_recvCh := replicate recv_cap m\<rparr>"
  let ?stuck = "?full\<lparr>nd_main := [EEnq p], nd_msgCh := [Transmitor_Send (mc_committee mc) from to p]\<rparr>"
  have "node_run mc net ?b [] ?full"
    using deliver_many[of ?b net m recv_cap mc] assms by (simp add: boot_node_def)
  moreover have "node_step mc net ?full [] ?stuck"
    by (rule node_step.main_effect[where e = "ESend from to p" and es = "[EEnq p]"])
       (simp_all add: boot_node_def send_cap_def)
  ultimately have "node_run mc net ?b [] ?stuck" using node_run.more by fastforce
  moreover have "locked ?stuck" by (simp add: locked_def)
  moreover have "nd_alive ?stuck" by (simp add: boot_node_def)
  ultimately show ?thesis using locked_run[of ?stuck] by fastforce
qed

end
