(* ===== verification/Protocol_Base.thy ===== *)
theory Protocol_Base
  imports Elector Runtime
begin

text \<open>
  What the three protocol variants share: the zero digest, the index check of the arrays of two
  elements, the threshold as an \<open>int32\<close>, the signature check at the head of every handler and
  the election message; and sample messages.
\<close>

section \<open>Shared pieces of the handlers\<close>

definition zero_Digest :: digest where
  "zero_Digest = replicate 32 0"

definition in_heights :: "8 word \<Rightarrow> bool" where
  "in_heights h \<longleftrightarrow> h < 2"

text \<open>The counters are compared with the threshold converted to \<open>int32\<close>.\<close>

definition threshold32 :: "Committee \<Rightarrow> 32 word" where
  "threshold32 c = word_of_int (HightThreshold c)"

definition verified :: "bool option \<Rightarrow> error \<Rightarrow> 's \<Rightarrow> ('s \<times> 'g effect list \<times> error option) option \<Rightarrow>
    ('s \<times> 'g effect list \<times> error option) option" where
  "verified ok e s k = (case ok of None \<Rightarrow> None | Some False \<Rightarrow> Some (s, [], Some e) | Some True \<Rightarrow> k)"

lemma verifiedE:
  assumes "verified ok e s k = Some r"
  obtains (refused) "ok = Some False" "r = (s, [], Some e)" | (accepted) "ok = Some True" "k = Some r"
  using assms by (auto simp: verified_def split: option.splits bool.splits)

text \<open>The caller of \<open>NewElectMsg\<close> ignores its error: the message is then nil.\<close>

definition elect_effects ::
    "'k crypto_ext \<Rightarrow> 'k SigService \<Rightarrow> node_id \<Rightarrow> int \<Rightarrow> 'g effect list option" where
  "elect_effects cx srvc nodeID view =
     do { r \<leftarrow> NewElectMsg cx srvc nodeID view;
          let elect = ElectM (case r of Inl e \<Rightarrow> None | Inr m \<Rightarrow> Some m);
          Some [ESend nodeID NONE elect, EEnq elect] }"

definition elect_msg :: "error + ElectMsg \<Rightarrow> msg" where
  "elect_msg r = ElectM (case r of Inl e \<Rightarrow> None | Inr m \<Rightarrow> Some m)"

lemma elect_effects_outcome:
  assumes "elect_effects cx srvc i v = Some effs"
  shows "\<exists>r. NewElectMsg cx srvc i v = Some r \<and> effs = [ESend i NONE (elect_msg r), EEnq (elect_msg r)]"
  using assms by (auto simp: elect_effects_def elect_msg_def Option.bind_eq_Some_conv Let_def)

lemma elect_msg_sent [simp]:
  "sent_proposals (ESend i j (elect_msg r) # es) = sent_proposals es"
  "sent_reports (ESend i j (elect_msg r) # es) = sent_reports es"
  by (simp_all add: elect_msg_def)

text \<open>The views of the height-1 proposals among some effects.\<close>

definition height1_views :: "'g effect list \<Rightarrow> int list" where
  "height1_views es = map pm_View (filter (\<lambda>p. pm_Height p = HEIGHT_1) (sent_proposals es))"

section \<open>Tables of instances\<close>

text \<open>
  The instances of a core are a map of maps, by view and proposer. \<open>inst_at\<close> is the instance there,
  a new one if there is none; \<open>inst_put\<close> stores one.
\<close>

type_synonym 's instances = "int \<Rightarrow> (node_id \<Rightarrow> 's option) option"

definition inst_at :: "(node_id \<Rightarrow> int \<Rightarrow> 's) \<Rightarrow> 's instances \<Rightarrow> int \<Rightarrow> node_id \<Rightarrow> 's" where
  "inst_at new m view node =
     (case m view of
        None \<Rightarrow> new node view
      | Some instances \<Rightarrow> (case instances node of None \<Rightarrow> new node view | Some s \<Rightarrow> s))"

definition inst_put :: "int \<Rightarrow> node_id \<Rightarrow> 's \<Rightarrow> 's instances \<Rightarrow> 's instances" where
  "inst_put view node s m = m(view \<mapsto> (case m view of None \<Rightarrow> Map.empty | Some instances \<Rightarrow> instances)(node \<mapsto> s))"

lemma inst_at_put [simp]:
  "inst_at new (inst_put v n s m) v' n' = (if v' = v \<and> n' = n then s else inst_at new m v' n')"
  by (auto simp: inst_at_def inst_put_def split: option.split)

lemma inst_at_empty [simp]: "inst_at new Map.empty v n = new n v"
  by (simp add: inst_at_def)

section \<open>Messages that cannot crash a node\<close>

text \<open>
  A node panics when it checks a signature for an author without a key, dereferences a missing
  block or certificate, or indexes an array with a height or level of the message. \<open>msg_wf c m\<close>
  excludes these: the author has a key, pointers the handlers follow are set, heights and levels
  are in range. The height inside a proposal's block counts as well, since votes copy it. A
  \<open>DocGQCMsg\<close> has no place on its own: it is no \<open>ConsensusMessage\<close>, and the node that decodes one
  panics before a handler sees it.
\<close>

definition has_key :: "Committee \<Rightarrow> node_id \<Rightarrow> bool" where
  "has_key c i \<longleftrightarrow> length (Pubkey (Committee_Name c i)) = 32"

definition propose_wf :: "Committee \<Rightarrow> ProposeMsg \<Rightarrow> bool" where
  "propose_wf c p \<longleftrightarrow> has_key c (pm_Author p) \<and>
     (case pm_B p of None \<Rightarrow> False
      | Some b \<Rightarrow> in_heights (b_Height b) \<and> (pm_Height p = HEIGHT_2 \<longrightarrow> b_Qc b \<noteq> None)) \<and>
     (case pm_DocG p of None \<Rightarrow> True | Some d \<Rightarrow> (\<forall>r \<in> set (dg_Shares d). has_key c (rm_Author r)))"

fun msg_wf :: "Committee \<Rightarrow> msg \<Rightarrow> bool" where
  "msg_wf c (ProposeM p) = propose_wf c p"
| "msg_wf c (VoteM v) \<longleftrightarrow> has_key c (vm_Author v) \<and> in_heights (vm_Height v)"
| "msg_wf c (FinVoteM f) \<longleftrightarrow> has_key c (fv_Author f) \<and> fv_Qc f \<noteq> None"
| "msg_wf c (SpeedVoteM v) = has_key c (sv_Author v)"
| "msg_wf c (ElectM e) \<longleftrightarrow> e \<noteq> None"
| "msg_wf c (RandomCoinM m) = has_key c (rc_Author m)"
| "msg_wf c (ReportM r) \<longleftrightarrow> has_key c (rm_Author r) \<and> rm_Level r < 3"
| "msg_wf c (DocGQCM d) = False"

lemma msg_wf_consensus: "msg_wf c m \<Longrightarrow> is_ConsensusMessage m"
  by (cases m) simp_all

lemma verify_defined:
  "has_key c (vm_Author v) \<Longrightarrow> VoteMsg_Verify cx c v \<noteq> None"
  "has_key c (fv_Author f) \<Longrightarrow> FinVoteMsg_Verify cx c f \<noteq> None"
  "has_key c (sv_Author sv) \<Longrightarrow> SpeedVoteMsg_Verify cx c sv \<noteq> None"
  "has_key c (rc_Author m) \<Longrightarrow> RandomCoinMsg_Verify cx c m \<noteq> None"
  "has_key c (rm_Author r) \<Longrightarrow> ReportMsg_Verify cx c r \<noteq> None"
  by (simp_all add: has_key_def VoteMsg_Verify_def FinVoteMsg_Verify_def SpeedVoteMsg_Verify_def
      RandomCoinMsg_Verify_def ReportMsg_Verify_def Signature_Verify_def)

lemma propose_verify_defined: "propose_wf c p \<Longrightarrow> ProposeMsg_Verify cx c p \<noteq> None"
  by (auto simp: propose_wf_def has_key_def ProposeMsg_Verify_def ProposeMsg_Hash_def Signature_Verify_def
      split: option.splits)

lemma docg_verify_defined: "(\<forall>r \<in> set (dg_Shares d). has_key c (rm_Author r)) \<Longrightarrow> DocGQCMsg_Verify cx c d \<noteq> None"
proof -
  assume a: "\<forall>r \<in> set (dg_Shares d). has_key c (rm_Author r)"
  have "\<forall>r \<in> set rs. has_key c (rm_Author r) \<Longrightarrow> verify_shares cx c rs = Some ()" for rs
  proof (induction rs)
    case (Cons r rs)
    then obtain ok where "ReportMsg_Verify cx c r = Some ok" using verify_defined(5)[of c r cx] by auto
    then show ?case using Cons by simp
  qed simp
  with a show ?thesis by (simp add: DocGQCMsg_Verify_def)
qed

lemma verified_Some: "verified (Some ok) e s k = (if ok then k else Some (s, [], Some e))"
  by (simp add: verified_def)

lemma verified_defined: "ok \<noteq> None \<Longrightarrow> (ok = Some True \<Longrightarrow> k \<noteq> None) \<Longrightarrow> verified ok e s k \<noteq> None"
  by (auto simp: verified_def split: option.split bool.split)

text \<open>
  What a node itself needs in order not to panic: its own key, a signing key, a threshold
  library that signs and whose combined signatures have the four bytes that elect a leader.
\<close>

definition setup_ok :: "'k crypto_ext \<Rightarrow> Committee \<Rightarrow> node_id \<Rightarrow> 'k SigService \<Rightarrow> bool" where
  "setup_ok cx c i srvc \<longleftrightarrow>
     has_key c i \<and> can_sign srvc \<and>
     (\<forall>d. \<exists>s. tbls_Sign cx (PriShare (ss_ShareKey srvc)) d = Inr s) \<and>
     (\<forall>k d ps t n s. tbls_Recover cx k d ps t n = Inr s \<longrightarrow> 4 \<le> length s)"

lemma has_key_size: "has_key c i \<Longrightarrow> Committee_Size c \<noteq> 0"
  by (auto simp: has_key_def Committee_Size_def Committee_Name_def authority_of_def zero_Authority_def)

lemma setup_NewElectMsg:
  "setup_ok cx c i srvc \<Longrightarrow> \<exists>m. NewElectMsg cx srvc i v = Some (Inr m)"
proof -
  assume "setup_ok cx c i srvc"
  then obtain s where "tbls_Sign cx (PriShare (ss_ShareKey srvc))
      (ElectMsg_Hash cx \<lparr>em_Author = i, em_View = v, em_SigShare = \<lparr>PartialSig = []\<rparr>\<rparr>) = Inr s"
    unfolding setup_ok_def by blast
  then show ?thesis by (simp add: NewElectMsg_def RequestTsSugnature_eq Let_def)
qed

lemma setup_elect_effects:
  "setup_ok cx c i srvc \<Longrightarrow>
     \<exists>m. elect_effects cx srvc i v = Some [ESend i NONE (ElectM (Some m)), EEnq (ElectM (Some m))]"
  using setup_NewElectMsg[of cx c i srvc v] by (auto simp: elect_effects_def Let_def)

lemma setup_Elector_Add:
  assumes "setup_ok cx c i srvc" "el_committee el = c"
  shows "Elector_Add cx el e \<noteq> None"
proof -
  have "leader_of c qc \<noteq> None" if "4 \<le> length qc" for qc
    using that assms has_key_size by (auto simp: leader_of_def randint_of_def setup_ok_def)
  then have "Aggregator_Append cx c srvc' a e \<noteq> None" for srvc' a
    using assms(1)
    by (fastforce simp: Aggregator_Append_def Let_def setup_ok_def CombineIntactTSPartial_def split: sum.split)
  then show ?thesis using assms(2) by (simp add: Elector_Add_def Option.bind_eq_None_conv split: prod.split)
qed

lemma Elector_Add_committee: "Elector_Add cx el e = Some (el', r) \<Longrightarrow> el_committee el' = el_committee el"
  by (auto elim!: Elector_AddE)

section \<open>Sample messages\<close>

definition sample_pool :: Pool where
  "sample_pool = the (NewPool sample_pool_params 4 0)"

lemma sample_pool_batch [simp]: "GetBatch sample_pool = (empty_batch, sample_pool)"
  by (simp add: sample_pool_def NewPool_def newTxQueue_def sample_pool_params_def GetBatch_def txQueue_get_def)

definition sample_report :: "node_id \<Rightarrow> int \<Rightarrow> 8 word \<Rightarrow> ReportMsg" where
  "sample_report i v lv =
     (let r = \<lparr>rm_Author = i, rm_View = v, rm_Level = lv, rm_BlockQc = None, rm_Signature = \<lparr>Sig = []\<rparr>\<rparr>
      in r\<lparr>rm_Signature := sig_by sample_cx sample_service (ReportMsg_Hash sample_cx r)\<rparr>)"

definition sample_vote :: "node_id \<Rightarrow> node_id \<Rightarrow> digest \<Rightarrow> int \<Rightarrow> 8 word \<Rightarrow> VoteMsg" where
  "sample_vote i proposer h v height =
     (let m = \<lparr>vm_Author = i, vm_Proposer = proposer, vm_BlockHash = h, vm_View = v, vm_Height = height,
               vm_Signature = \<lparr>Sig = []\<rparr>\<rparr>
      in m\<lparr>vm_Signature := sig_by sample_cx sample_service (VoteMsg_Hash sample_cx m)\<rparr>)"

definition sample_speedvote :: "node_id \<Rightarrow> node_id \<Rightarrow> digest \<Rightarrow> int \<Rightarrow> SpeedVoteMsg" where
  "sample_speedvote i proposer h v =
     (let m = \<lparr>sv_Author = i, sv_Proposer = proposer, sv_BlockHash = h, sv_View = v, sv_Signature = \<lparr>Sig = []\<rparr>\<rparr>
      in m\<lparr>sv_Signature := sig_by sample_cx sample_service (SpeedVoteMsg_Hash sample_cx m)\<rparr>)"

definition sample_coin :: "node_id \<Rightarrow> node_id \<Rightarrow> int \<Rightarrow> RandomCoinMsg" where
  "sample_coin i leader v =
     (let m = \<lparr>rc_Leader = leader, rc_View = v, rc_Author = i, rc_Signature = \<lparr>Sig = []\<rparr>\<rparr>
      in m\<lparr>rc_Signature := sig_by sample_cx sample_service (RandomCoinMsg_Hash sample_cx m)\<rparr>)"

lemma sample_coin_sel [simp]:
  "rc_Leader (sample_coin i l v) = l" "rc_View (sample_coin i l v) = v" "rc_Author (sample_coin i l v) = i"
  by (simp_all add: sample_coin_def Let_def)

lemma sample_faults [simp]: "Faults DefaultParameters = 0"
  by (simp add: DefaultParameters_def)

lemma sample_msg_sel [simp]:
  "rm_Author (sample_report i v lv) = i" "rm_View (sample_report i v lv) = v" "rm_Level (sample_report i v lv) = lv"
  "rm_BlockQc (sample_report i v lv) = None"
  "vm_Author (sample_vote i q h v e) = i" "vm_Proposer (sample_vote i q h v e) = q" "vm_BlockHash (sample_vote i q h v e) = h"
  "vm_View (sample_vote i q h v e) = v" "vm_Height (sample_vote i q h v e) = e"
  "sv_Author (sample_speedvote i q h v) = i" "sv_Proposer (sample_speedvote i q h v) = q"
  "sv_BlockHash (sample_speedvote i q h v) = h" "sv_View (sample_speedvote i q h v) = v"
  by (simp_all add: sample_report_def sample_vote_def sample_speedvote_def Let_def)

lemma sample_member_key:
  "i \<in> {0, 1, 2, 3} \<Longrightarrow> key_pair sample_cx (Committee_Name (sample_committee 4) i) (ss_PriKey sample_service)"
  using sample_committee_key[of 0 4] sample_committee_key[of 1 4] sample_committee_key[of 2 4] sample_committee_key[of 3 4]
  by auto

lemma sample_msg_verify [simp]:
  assumes "i \<in> {0, 1, 2, 3}"
  shows "ReportMsg_Verify sample_cx (sample_committee 4) (sample_report i v lv) = Some True"
    "VoteMsg_Verify sample_cx (sample_committee 4) (sample_vote i q h v e) = Some True"
    "SpeedVoteMsg_Verify sample_cx (sample_committee 4) (sample_speedvote i q h v) = Some True"
  using sample_member_key[OF assms]
  by (auto intro!: report_msg.own_signature_verifies vote_msg.own_signature_verifies speedvote_msg.own_signature_verifies)
     (simp_all add: sample_report_def sample_vote_def sample_speedvote_def Let_def msg_hash_defs)

lemma sample_coin_verify [simp]:
  "i \<in> {0, 1, 2, 3} \<Longrightarrow> RandomCoinMsg_Verify sample_cx (sample_committee 4) (sample_coin i l v) = Some True"
  using sample_member_key[of i]
  by (intro coin_msg.own_signature_verifies) (auto simp: sample_coin_def Let_def msg_hash_defs)

lemma sample_HightThreshold [simp]: "HightThreshold (sample_committee 4) = 3"
  by (simp add: HightThreshold_sample)

lemma sample_threshold32 [simp]: "threshold32 (sample_committee 4) = 3"
  by (simp add: threshold32_def)

text \<open>The proposal of a block without certificate or references.\<close>

definition sample_proposal :: "node_id \<Rightarrow> int \<Rightarrow> 8 word \<Rightarrow> ProposeMsg" where
  "sample_proposal i v h = the (NewProposeMsg sample_cx sample_service (sample_block i v h))"

lemma sample_proposal_eq: "NewProposeMsg sample_cx sample_service (sample_block i v h) = Some (sample_proposal i v h)"
  by (cases "NewProposeMsg sample_cx sample_service (sample_block i v h)") (auto simp: sample_proposal_def)

lemma sample_proposal_sel [simp]:
  "pm_Author (sample_proposal i v h) = i" "pm_View (sample_proposal i v h) = v" "pm_Height (sample_proposal i v h) = h"
  "pm_B (sample_proposal i v h) = Some (sample_block i v h)" "pm_DocG (sample_proposal i v h) = None"
  using NewProposeMsg_fields[OF sample_proposal_eq[of i v h]] by (auto simp: sample_block_def)

lemma sample_proposal_verify [simp]:
  assumes "i \<in> {0, 1, 2, 3}"
  shows "ProposeMsg_Verify sample_cx (sample_committee 4) (sample_proposal i v h) = Some True"
proof -
  have "pm_Author (sample_proposal i v h) = i" by simp
  then show ?thesis using New_msg_signed(1)[OF sample_proposal_eq[of i v h]] sample_member_key[OF assms]
    by (auto intro: propose_msg.own_signature_verifies)
qed

lemma sample_has_key [simp]: "i \<in> {0, 1, 2, 3} \<Longrightarrow> has_key (sample_committee 4) i"
  using sample_member_key[of i] by (simp add: key_pair_def has_key_def)

lemma sample_setup [simp]: "i \<in> {0, 1, 2, 3} \<Longrightarrow> setup_ok sample_cx (sample_committee 4) i sample_service"
  by (simp add: setup_ok_def) (simp add: sample_cx_def split: if_splits)

end
