(* ===== verification/Lean_Core.thy ===== *)
theory Lean_Core
  imports Protocol_Base
begin

text \<open>
  The lean protocol: src/core/spb.go (one instance of strong provable broadcast per view and
  proposer) and src/core/core.go (the main loop). The methods of an instance run in goroutines;
  each is given as its critical sections, a value of \<open>spb_task\<close> being the point where a
  goroutine stands. The arrays of two elements are functions on the height; the index check
  is \<open>in_heights\<close>. The atomic \<open>Int32\<close> counters are 32-bit words.
\<close>

section \<open>The instance\<close>

record SPB =
  spb_Proposer :: node_id
  spb_View :: int
  spb_preQc :: "BlockQC option"
  spb_blockHash :: "8 word \<Rightarrow> digest"
  spb_blockQcs :: "8 word \<Rightarrow> BlockQC option"
  spb_unHandlePropose :: "ProposeMsg list"
  spb_unHandleFinVote :: "FinVoteMsg list"
  spb_voteNums :: "8 word \<Rightarrow> 32 word"
  spb_speedVoteNums :: "32 word"
  spb_isSpeedCert :: bool

definition NewSPB :: "node_id \<Rightarrow> int \<Rightarrow> SPB" where
  "NewSPB proposer view =
     \<lparr>spb_Proposer = proposer, spb_View = view, spb_preQc = None, spb_blockHash = (\<lambda>_. zero_Digest),
      spb_blockQcs = (\<lambda>_. None), spb_unHandlePropose = [], spb_unHandleFinVote = [],
      spb_voteNums = (\<lambda>_. 0), spb_speedVoteNums = 0, spb_isSpeedCert = False\<rparr>"

definition SPB_SpeedCert :: "SPB \<Rightarrow> bool" where
  "SPB_SpeedCert s = spb_isSpeedCert s"

definition SPB_DecCert :: "SPB \<Rightarrow> bool" where
  "SPB_DecCert s \<longleftrightarrow> spb_blockQcs s HEIGHT_1 \<noteq> None \<and> spb_blockQcs s HEIGHT_2 \<noteq> None"

definition SPB_BlockHash :: "SPB \<Rightarrow> 8 word \<Rightarrow> digest" where
  "SPB_BlockHash s height = (if height > HEIGHT_2 then zero_Digest else spb_blockHash s height)"

definition SPB_QCLEvel :: "SPB \<Rightarrow> 8 word \<times> BlockQC option" where
  "SPB_QCLEvel s =
     (if spb_blockQcs s HEIGHT_1 \<noteq> None \<and> spb_blockQcs s HEIGHT_2 \<noteq> None then (LEVEL_2, spb_blockQcs s HEIGHT_2)
      else if spb_blockQcs s HEIGHT_1 \<noteq> None then (LEVEL_1, spb_blockQcs s HEIGHT_1)
      else (LEVEL_0, spb_preQc s))"

section \<open>The core\<close>

record ('k, 'db) Core =
  co_nodeID :: node_id
  co_view :: int
  co_height :: "8 word"
  co_committee :: Committee
  co_parameters :: Parameters
  co_txpool :: Pool
  co_sigService :: "'k SigService"
  co_store :: 'db
  co_eletor :: "'k Elector"
  co_commitor :: Commitor
  co_coinViewFlags :: "int set"
  co_spbInstances :: "SPB instances"
  co_finVoteNums :: "int \<Rightarrow> node_id set option"
  co_reportNums :: "int \<Rightarrow> 8 word \<Rightarrow> int"

definition NewCore ::
    "node_id \<Rightarrow> Committee \<Rightarrow> Parameters \<Rightarrow> Pool \<Rightarrow> 'db \<Rightarrow> 'k SigService \<Rightarrow> ('k, 'db) Core" where
  "NewCore nodeID c parameters txpool db sigService =
     \<lparr>co_nodeID = nodeID, co_view = 0, co_height = HEIGHT_1, co_committee = c, co_parameters = parameters,
      co_txpool = txpool, co_sigService = sigService, co_store = db,
      co_eletor = NewElector sigService c, co_commitor = NewCommitor, co_coinViewFlags = {},
      co_spbInstances = Map.empty, co_finVoteNums = Map.empty, co_reportNums = (\<lambda>_ _. 0)\<rparr>"

text \<open>The instance of a view and proposer, a new one if there is none; and storing it.\<close>

definition spb_at :: "('k, 'db) Core \<Rightarrow> int \<Rightarrow> node_id \<Rightarrow> SPB" where
  "spb_at core view node = inst_at NewSPB (co_spbInstances core) view node"

definition put_spb :: "int \<Rightarrow> node_id \<Rightarrow> SPB \<Rightarrow> ('k, 'db) Core \<Rightarrow> ('k, 'db) Core" where
  "put_spb view node s core = core\<lparr>co_spbInstances := inst_put view node s (co_spbInstances core)\<rparr>"

definition getSpbInstance :: "int \<Rightarrow> node_id \<Rightarrow> ('k, 'db) Core \<Rightarrow> ('k, 'db) Core" where
  "getSpbInstance view node core = put_spb view node (spb_at core view node) core"

definition messageFilter :: "('k, 'db) Core \<Rightarrow> int \<Rightarrow> bool" where
  "messageFilter core view \<longleftrightarrow> view < co_view core"

definition generatorBlock ::
    "('k, 'db) Core \<Rightarrow> int \<Rightarrow> 8 word \<Rightarrow> BlockQC option \<Rightarrow> Block \<times> ('k, 'db) Core" where
  "generatorBlock core view height qc =
     (case GetBatch (co_txpool core) of
        (batch, pool) \<Rightarrow>
          (\<lparr>b_Author = co_nodeID core, b_View = view, b_Height = height, b_Batch = batch, b_Qc = qc,
            b_References = []\<rparr>,
           core\<lparr>co_txpool := pool\<rparr>))"

section \<open>The methods of an instance\<close>

datatype spb_task =
    ProposeStart ProposeMsg
  | ProposeWake ProposeMsg
  | ProposeVote ProposeMsg
  | VoteStart VoteMsg
  | VoteQuorum VoteMsg
  | FinVoteStart FinVoteMsg
  | FinVoteSend FinVoteMsg
  | SpeedVoteStart SpeedVoteMsg
  | SpeedVoteStore

type_synonym lean_go = "int \<times> node_id \<times> spb_task"

text \<open>\<open>processProposeMsg\<close>: the section under \<open>hMutex\<close>. Dereferencing a nil block or certificate panics.\<close>

definition processProposeMsg_start ::
    "'k crypto_ext \<Rightarrow> SPB \<Rightarrow> ProposeMsg \<Rightarrow> (SPB \<times> spb_task option) option" where
  "processProposeMsg_start cx s p =
     (if pm_Height p = HEIGHT_1 then
        do { b \<leftarrow> pm_B p;
             Some (s\<lparr>spb_preQc := b_Qc b, spb_blockHash := (spb_blockHash s)(HEIGHT_1 := Block_Hash cx b)\<rparr>,
                   Some (ProposeWake p)) }
      else if pm_Height p = HEIGHT_2 then
        do { b \<leftarrow> pm_B p;
             qc \<leftarrow> b_Qc b;
             if spb_blockHash s HEIGHT_1 \<noteq> qc_ParentBlockHash qc
             then Some (s\<lparr>spb_unHandlePropose := spb_unHandlePropose s @ [p]\<rparr>, None)
             else Some (s\<lparr>spb_blockQcs := (spb_blockQcs s)(HEIGHT_1 \<mapsto> qc),
                          spb_blockHash := (spb_blockHash s)(HEIGHT_2 := Block_Hash cx b)\<rparr>,
                        Some (ProposeWake p)) }
      else Some (s, Some (ProposeVote p)))"

text \<open>The section under \<open>uMutex\<close>: the buffered messages are handled again, and stay in the buffer.\<close>

definition processProposeMsg_wake :: "SPB \<Rightarrow> ProposeMsg \<Rightarrow> spb_task list" where
  "processProposeMsg_wake s p =
     (if pm_Height p = HEIGHT_1 then map ProposeStart (spb_unHandlePropose s)
      else if pm_Height p = HEIGHT_2 then map FinVoteStart (spb_unHandleFinVote s)
      else [])"

definition processProposeMsg_vote ::
    "'k crypto_ext \<Rightarrow> ('k, 'db) Core \<Rightarrow> SPB \<Rightarrow> ProposeMsg \<Rightarrow> lean_go effect list option" where
  "processProposeMsg_vote cx core s p =
     do { b \<leftarrow> pm_B p;
          vote \<leftarrow> NewVoteMsg cx (co_sigService core) (co_nodeID core) b;
          Some (if spb_Proposer s \<noteq> co_nodeID core
                then [ESend (co_nodeID core) (spb_Proposer s) (VoteM vote)]
                else [EEnq (VoteM vote)]) }"

text \<open>\<open>processVoteMsg\<close>: the atomic increment, and what the goroutine that reaches the threshold does.\<close>

definition processVoteMsg_start ::
    "Committee \<Rightarrow> SPB \<Rightarrow> VoteMsg \<Rightarrow> (SPB \<times> spb_task option) option" where
  "processVoteMsg_start c s v =
     (if \<not> in_heights (vm_Height v) then None
      else let nums = spb_voteNums s (vm_Height v) + 1 in
        Some (s\<lparr>spb_voteNums := (spb_voteNums s)(vm_Height v := nums)\<rparr>,
              if nums = threshold32 c then Some (VoteQuorum v) else None))"

definition processVoteMsg_quorum ::
    "'k crypto_ext \<Rightarrow> ('k, 'db) Core \<Rightarrow> SPB \<Rightarrow> VoteMsg \<Rightarrow> (('k, 'db) Core \<times> lean_go effect list) option" where
  "processVoteMsg_quorum cx core s v =
     (let qc = \<lparr>qc_View = spb_View s, qc_Height = vm_Height v, qc_Proposer = vm_Proposer v,
                qc_ParentBlockHash = vm_BlockHash v, qc_Shares = []\<rparr> in
      if vm_Height v = HEIGHT_1 then
        (case generatorBlock core (vm_View v) HEIGHT_2 (Some qc) of
           (block, core') \<Rightarrow>
             do { propose \<leftarrow> NewProposeMsg cx (co_sigService core') block;
                  Some (core', [ESend (co_nodeID core') NONE (ProposeM propose), EEnq (ProposeM propose)]) })
      else
        do { finVote \<leftarrow> NewFinVoteMsg cx (co_sigService core) (co_nodeID core) (spb_View s) qc;
             Some (core, [ESend (co_nodeID core) NONE (FinVoteM finVote), EEnq (FinVoteM finVote)]) })"

definition processFinVoteMsg_start :: "SPB \<Rightarrow> FinVoteMsg \<Rightarrow> (SPB \<times> spb_task option) option" where
  "processFinVoteMsg_start s fv =
     (if fv_Author fv \<noteq> spb_Proposer s \<or> fv_View fv \<noteq> spb_View s then Some (s, None)
      else do { qc \<leftarrow> fv_Qc fv;
                if spb_blockHash s HEIGHT_2 \<noteq> qc_ParentBlockHash qc
                then Some (s\<lparr>spb_unHandleFinVote := spb_unHandleFinVote s @ [fv]\<rparr>, None)
                else Some (s\<lparr>spb_blockQcs := (spb_blockQcs s)(HEIGHT_2 \<mapsto> qc)\<rparr>, Some (FinVoteSend fv)) })"

definition processFinVoteMsg_send ::
    "'k crypto_ext \<Rightarrow> ('k, 'db) Core \<Rightarrow> SPB \<Rightarrow> FinVoteMsg \<Rightarrow> lean_go effect list option" where
  "processFinVoteMsg_send cx core s fv =
     do { qc \<leftarrow> fv_Qc fv;
          sv \<leftarrow> NewSpeedVoteMsg cx (co_sigService core) (co_nodeID core) qc;
          Some (if spb_Proposer s = co_nodeID core then [EEnq (SpeedVoteM sv)]
                else [ESend (co_nodeID core) (spb_Proposer s) (SpeedVoteM sv)]) }"

definition processSpeedVoteMsg_start :: "Committee \<Rightarrow> SPB \<Rightarrow> SpeedVoteMsg \<Rightarrow> SPB \<times> spb_task option" where
  "processSpeedVoteMsg_start c s sv =
     (if sv_Proposer sv \<noteq> spb_Proposer s \<or> sv_View sv \<noteq> spb_View s then (s, None)
      else let nums = spb_speedVoteNums s + 1 in
        (s\<lparr>spb_speedVoteNums := nums\<rparr>, if nums = threshold32 c then Some SpeedVoteStore else None))"

definition processSpeedVoteMsg_store :: "SPB \<Rightarrow> SPB" where
  "processSpeedVoteMsg_store s = s\<lparr>spb_isSpeedCert := True\<rparr>"

text \<open>One section of a goroutine on the instance of \<open>view\<close> and \<open>node\<close>.\<close>

fun SPB_section ::
    "'k crypto_ext \<Rightarrow> ('k, 'db) Core \<Rightarrow> lean_go \<Rightarrow>
     (('k, 'db) Core \<times> lean_go effect list \<times> lean_go option) option" where
  "SPB_section cx core (view, node, ProposeStart p) =
     do { (s, next) \<leftarrow> processProposeMsg_start cx (spb_at core view node) p;
          Some (put_spb view node s core, [], map_option (\<lambda>t. (view, node, t)) next) }"
| "SPB_section cx core (view, node, ProposeWake p) =
     Some (core, map (\<lambda>t. EGo (view, node, t)) (processProposeMsg_wake (spb_at core view node) p),
           Some (view, node, ProposeVote p))"
| "SPB_section cx core (view, node, ProposeVote p) =
     do { effs \<leftarrow> processProposeMsg_vote cx core (spb_at core view node) p; Some (core, effs, None) }"
| "SPB_section cx core (view, node, VoteStart v) =
     do { (s, next) \<leftarrow> processVoteMsg_start (co_committee core) (spb_at core view node) v;
          Some (put_spb view node s core, [], map_option (\<lambda>t. (view, node, t)) next) }"
| "SPB_section cx core (view, node, VoteQuorum v) =
     do { (core', effs) \<leftarrow> processVoteMsg_quorum cx core (spb_at core view node) v; Some (core', effs, None) }"
| "SPB_section cx core (view, node, FinVoteStart fv) =
     do { (s, next) \<leftarrow> processFinVoteMsg_start (spb_at core view node) fv;
          Some (put_spb view node s core, [], map_option (\<lambda>t. (view, node, t)) next) }"
| "SPB_section cx core (view, node, FinVoteSend fv) =
     do { effs \<leftarrow> processFinVoteMsg_send cx core (spb_at core view node) fv; Some (core, effs, None) }"
| "SPB_section cx core (view, node, SpeedVoteStart sv) =
     (case processSpeedVoteMsg_start (co_committee core) (spb_at core view node) sv of
        (s, next) \<Rightarrow> Some (put_spb view node s core, [], map_option (\<lambda>t. (view, node, t)) next))"
| "SPB_section cx core (view, node, SpeedVoteStore) =
     Some (put_spb view node (processSpeedVoteMsg_store (spb_at core view node)) core, [], None)"

section \<open>The handlers\<close>

definition handleProposeMsg ::
    "'k crypto_ext \<Rightarrow> 'db store_ext \<Rightarrow> ('k, 'db) Core \<Rightarrow> ProposeMsg \<Rightarrow>
     (('k, 'db) Core \<times> lean_go effect list \<times> error option) option" where
  "handleProposeMsg cx dx core p =
     verified (ProposeMsg_Verify cx (co_committee core) p) (ErrSignature ProposeType (pm_View p) (pm_Author p)) core
       (verified (case pm_DocG p of None \<Rightarrow> Some True | Some d \<Rightarrow> DocGQCMsg_Verify cx (co_committee core) d) ErrDocG core
          (do { b \<leftarrow> pm_B p;
                case storeBlock cx dx (co_store core) b of
                  (Some err, db) \<Rightarrow> Some (core\<lparr>co_store := db\<rparr>, [], Some err)
                | (None, db) \<Rightarrow>
                    (let core1 = core\<lparr>co_store := db\<rparr> in
                     if messageFilter core1 (pm_View p) then Some (core1, [], None)
                     else Some (getSpbInstance (pm_View p) (pm_Author p) core1,
                                [EGo (pm_View p, pm_Author p, ProposeStart p)], None)) }))"

definition handleVoteMsg ::
    "'k crypto_ext \<Rightarrow> ('k, 'db) Core \<Rightarrow> VoteMsg \<Rightarrow>
     (('k, 'db) Core \<times> lean_go effect list \<times> error option) option" where
  "handleVoteMsg cx core v =
     (if messageFilter core (vm_View v) then Some (core, [], None)
      else verified (VoteMsg_Verify cx (co_committee core) v) (ErrSignature VoteType (vm_View v) (vm_Author v)) core
        (Some (getSpbInstance (vm_View v) (vm_Proposer v) core,
               [EGo (vm_View v, vm_Proposer v, VoteStart v)], None)))"

definition handleFinVoteMsg ::
    "'k crypto_ext \<Rightarrow> ('k, 'db) Core \<Rightarrow> FinVoteMsg \<Rightarrow>
     (('k, 'db) Core \<times> lean_go effect list \<times> error option) option" where
  "handleFinVoteMsg cx core fv =
     (if messageFilter core (fv_View fv) then Some (core, [], None)
      else verified (FinVoteMsg_Verify cx (co_committee core) fv) (ErrSignature FinVoteType (fv_View fv) (fv_Author fv)) core
        (let finVotes = insert (fv_Author fv)
               (case co_finVoteNums core (fv_View fv) of None \<Rightarrow> {} | Some vs \<Rightarrow> vs);
             core1 = core\<lparr>co_finVoteNums := (co_finVoteNums core)(fv_View fv \<mapsto> finVotes)\<rparr> in
         do { effs \<leftarrow> (if int (card finVotes) = HightThreshold (co_committee core)
                        then elect_effects cx (co_sigService core) (co_nodeID core) (fv_View fv) else Some []);
              Some (getSpbInstance (fv_View fv) (fv_Author fv) core1,
                    effs @ [EGo (fv_View fv, fv_Author fv, FinVoteStart fv)], None) }))"

definition handleSpeedVoteMsg ::
    "'k crypto_ext \<Rightarrow> ('k, 'db) Core \<Rightarrow> SpeedVoteMsg \<Rightarrow>
     (('k, 'db) Core \<times> lean_go effect list \<times> error option) option" where
  "handleSpeedVoteMsg cx core sv =
     (if messageFilter core (sv_View sv) then Some (core, [], None)
      else verified (SpeedVoteMsg_Verify cx (co_committee core) sv)
             (ErrSignature SpeedVoteType (sv_View sv) (sv_Author sv)) core
        (Some (getSpbInstance (sv_View sv) (sv_Proposer sv) core,
               [EGo (sv_View sv, sv_Proposer sv, SpeedVoteStart sv)], None)))"

text \<open>
  \<open>commit_block\<close> is what the two committing branches of \<open>processCoin\<close> share: reading a block
  and submitting it; an error of the read ends the handler. \<open>coin_commit\<close> is the choice between
  the branches.
\<close>

definition commit_block ::
    "'db store_ext \<Rightarrow> ('k, 'db) Core \<Rightarrow> digest \<Rightarrow> error + ('k, 'db) Core \<times> lean_go effect list" where
  "commit_block dx core blockHash =
     (case getBlock dx (co_store core) blockHash of
        Inl err \<Rightarrow> Inl err
      | Inr block \<Rightarrow>
          (case Commitor_Commit (co_commitor core) block of
             (cm, out) \<Rightarrow> Inr (core\<lparr>co_commitor := cm\<rparr>, (case out of None \<Rightarrow> [] | Some b \<Rightarrow> [ECommit b]))))"

definition coin_commit ::
    "'db store_ext \<Rightarrow> ('k, 'db) Core \<Rightarrow> SPB \<Rightarrow> error + ('k, 'db) Core \<times> lean_go effect list" where
  "coin_commit dx core s =
     (if SPB_SpeedCert s then commit_block dx core (SPB_BlockHash s HEIGHT_2)
      else if SPB_DecCert s then commit_block dx core (SPB_BlockHash s HEIGHT_1)
      else Inr (core, []))"

definition processCoin ::
    "'k crypto_ext \<Rightarrow> 'db store_ext \<Rightarrow> ('k, 'db) Core \<Rightarrow> node_id \<Rightarrow> int \<Rightarrow>
     (('k, 'db) Core \<times> lean_go effect list \<times> error option) option" where
  "processCoin cx dx core leader view =
     (if view \<in> co_coinViewFlags core then Some (core, [], None)
      else
        let core1 = getSpbInstance view leader core; s = spb_at core1 view leader in
        (case coin_commit dx core1 s of
           Inl err \<Rightarrow> Some (core1, [], Some err)
         | Inr (core2, effs) \<Rightarrow>
             (case SPB_QCLEvel s of
                (level, qc) \<Rightarrow>
                  do { report \<leftarrow> NewReportMsg cx (co_sigService core2) (co_nodeID core2) view level qc;
                       Some (core2\<lparr>co_coinViewFlags := insert view (co_coinViewFlags core2)\<rparr>,
                             effs @ [ESend (co_nodeID core2) NONE (ReportM report), EEnq (ReportM report)], None) })))"

definition handleElectMsg ::
    "'k crypto_ext \<Rightarrow> 'db store_ext \<Rightarrow> ('k, 'db) Core \<Rightarrow> ElectMsg option \<Rightarrow>
     (('k, 'db) Core \<times> lean_go effect list \<times> error option) option" where
  "handleElectMsg cx dx core oe =
     do { e \<leftarrow> oe;
          if messageFilter core (em_View e) then Some (core, [], None)
          else if \<not> ElectMsg_Verify cx e
          then Some (core, [], Some (ErrSignature ElectType (em_View e) (em_Author e)))
          else do { (el, res) \<leftarrow> Elector_Add cx (co_eletor core) e;
                    let core1 = core\<lparr>co_eletor := el\<rparr>;
                    case res of
                      Inl err \<Rightarrow> Some (core1, [], Some err)
                    | Inr leader \<Rightarrow>
                        if leader \<noteq> NONE then
                          do { coinMsg \<leftarrow> NewRandomCoinMsg cx (co_sigService core1) leader (co_nodeID core1) (em_View e);
                               (core2, effs, err) \<leftarrow> processCoin cx dx core1 leader (em_View e);
                               Some (core2, ESend (co_nodeID core1) NONE (RandomCoinM coinMsg) # effs, err) }
                        else Some (core1, [], None) } }"

definition handleCoinMsg ::
    "'k crypto_ext \<Rightarrow> 'db store_ext \<Rightarrow> ('k, 'db) Core \<Rightarrow> RandomCoinMsg \<Rightarrow>
     (('k, 'db) Core \<times> lean_go effect list \<times> error option) option" where
  "handleCoinMsg cx dx core m =
     verified (RandomCoinMsg_Verify cx (co_committee core) m) (ErrSignature RandomCoinType (rc_View m) (rc_Author m)) core
       (processCoin cx dx core (rc_Leader m) (rc_View m))"

definition advanceView ::
    "'k crypto_ext \<Rightarrow> ('k, 'db) Core \<Rightarrow> int \<Rightarrow> BlockQC option \<Rightarrow> DocGQCMsg \<Rightarrow>
     (('k, 'db) Core \<times> lean_go effect list) option" where
  "advanceView cx core view qc docG =
     (if view \<le> co_view core then Some (core, [])
      else (case generatorBlock (core\<lparr>co_view := view\<rparr>) view HEIGHT_1 qc of
              (block, core') \<Rightarrow>
                do { p \<leftarrow> NewProposeMsg cx (co_sigService core') block;
                     let propose = ProposeM (p\<lparr>pm_DocG := Some docG\<rparr>);
                     Some (core', [ESend (co_nodeID core') NONE propose, EEnq propose]) }))"

definition handleReportMsg ::
    "'k crypto_ext \<Rightarrow> ('k, 'db) Core \<Rightarrow> ReportMsg \<Rightarrow>
     (('k, 'db) Core \<times> lean_go effect list \<times> error option) option" where
  "handleReportMsg cx core r =
     (if messageFilter core (rm_View r) then Some (core, [], None)
      else verified (ReportMsg_Verify cx (co_committee core) r) (ErrSignature ReportType (rm_View r) (rm_Author r)) core
        (if \<not> rm_Level r < 3 then None
         else let nums = (co_reportNums core (rm_View r))(rm_Level r := co_reportNums core (rm_View r) (rm_Level r) + 1);
                  core1 = core\<lparr>co_reportNums := (co_reportNums core)(rm_View r := nums)\<rparr>;
                  thr = HightThreshold (co_committee core) in
           if nums LEVEL_2 = 1 \<or> nums LEVEL_1 = thr \<or> nums LEVEL_0 = thr then
             do { (core2, effs) \<leftarrow> advanceView cx core1 (wrap64 (rm_View r + 1)) (rm_BlockQc r)
                                     (NewDocGQCMsg (rm_View r) (rm_Level r) []);
                  Some (core2, effs, None) }
           else Some (core1, [], None)))"

section \<open>The main loop\<close>

text \<open>
  The first proposal of \<open>Run\<close>. A node with an identifier below \<open>Faults\<close> plays a crashed one: it returns from
  \<open>Run\<close> without a proposal and without entering the loop.
\<close>

definition Core_boot ::
    "'k crypto_ext \<Rightarrow> ('k, 'db) Core \<Rightarrow> (('k, 'db) Core \<times> lean_go effect list) option" where
  "Core_boot cx core =
     (if co_nodeID core \<ge> Faults (co_parameters core) then
        (case generatorBlock core (co_view core) (co_height core) None of
           (block, core') \<Rightarrow>
             do { propose \<leftarrow> NewProposeMsg cx (co_sigService core') block;
                  Some (core', [ESend (co_nodeID core') NONE (ProposeM propose), EEnq (ProposeM propose)]) })
      else Some (core, [EReturn]))"

text \<open>The type switch: other messages are dropped.\<close>

fun Core_handle ::
    "'k crypto_ext \<Rightarrow> 'db store_ext \<Rightarrow> ('k, 'db) Core \<Rightarrow> input \<Rightarrow>
     (('k, 'db) Core \<times> lean_go effect list \<times> error option) option" where
  "Core_handle cx dx core (InMsg (ProposeM p)) = handleProposeMsg cx dx core p"
| "Core_handle cx dx core (InMsg (VoteM v)) = handleVoteMsg cx core v"
| "Core_handle cx dx core (InMsg (FinVoteM fv)) = handleFinVoteMsg cx core fv"
| "Core_handle cx dx core (InMsg (SpeedVoteM sv)) = handleSpeedVoteMsg cx core sv"
| "Core_handle cx dx core (InMsg (ElectM e)) = handleElectMsg cx dx core e"
| "Core_handle cx dx core (InMsg (RandomCoinM m)) = handleCoinMsg cx dx core m"
| "Core_handle cx dx core (InMsg (ReportM r)) = handleReportMsg cx core r"
| "Core_handle cx dx core _ = Some (core, [], None)"

text \<open>The pool's goroutines, which share \<open>txpool\<close>.\<close>

definition Core_background :: "('k, 'db) Core \<Rightarrow> ('k, 'db) Core \<Rightarrow> bool" where
  "Core_background core core' \<longleftrightarrow>
     (\<exists>e pool. pool_step (co_txpool core) e pool \<and> (\<forall>b. e \<noteq> BatchTaken b) \<and> core' = core\<lparr>co_txpool := pool\<rparr>)"

definition lean_machine :: "'k crypto_ext \<Rightarrow> 'db store_ext \<Rightarrow> Committee \<Rightarrow> (('k, 'db) Core, lean_go) machine" where
  "lean_machine cx dx c =
     \<lparr>mc_committee = c, mc_handle = Core_handle cx dx, mc_section = SPB_section cx,
      mc_background = Core_background\<rparr>"

end
