(* ===== verification/Lean_Safety.thy ===== *)
theory Lean_Safety
  imports Lean_Core
begin

text \<open>
  What the lean protocol of Lean_Core.thy does in every run of a node: its proposals and
  reports, and the way a full receive channel locks the node.
\<close>

section \<open>Frame\<close>

lemma put_spb_sel [simp]:
  "co_nodeID (put_spb v n s core) = co_nodeID core" "co_view (put_spb v n s core) = co_view core"
  "co_height (put_spb v n s core) = co_height core" "co_committee (put_spb v n s core) = co_committee core"
  "co_txpool (put_spb v n s core) = co_txpool core" "co_sigService (put_spb v n s core) = co_sigService core"
  "co_store (put_spb v n s core) = co_store core" "co_eletor (put_spb v n s core) = co_eletor core"
  "co_commitor (put_spb v n s core) = co_commitor core" "co_parameters (put_spb v n s core) = co_parameters core"
  "co_coinViewFlags (put_spb v n s core) = co_coinViewFlags core"
  "co_finVoteNums (put_spb v n s core) = co_finVoteNums core"
  "co_reportNums (put_spb v n s core) = co_reportNums core"
  by (simp_all add: put_spb_def Let_def)

lemma getSpbInstance_sel [simp]:
  "co_nodeID (getSpbInstance v n core) = co_nodeID core" "co_view (getSpbInstance v n core) = co_view core"
  "co_height (getSpbInstance v n core) = co_height core" "co_committee (getSpbInstance v n core) = co_committee core"
  "co_txpool (getSpbInstance v n core) = co_txpool core" "co_sigService (getSpbInstance v n core) = co_sigService core"
  "co_store (getSpbInstance v n core) = co_store core" "co_eletor (getSpbInstance v n core) = co_eletor core"
  "co_commitor (getSpbInstance v n core) = co_commitor core" "co_parameters (getSpbInstance v n core) = co_parameters core"
  "co_coinViewFlags (getSpbInstance v n core) = co_coinViewFlags core"
  by (simp_all add: getSpbInstance_def)

lemma spb_at_put [simp]:
  "spb_at (put_spb v n s core) v' n' = (if v' = v \<and> n' = n then s else spb_at core v' n')"
  by (simp add: spb_at_def put_spb_def)

lemma spb_at_get [simp]: "spb_at (getSpbInstance v n core) v' n' = spb_at core v' n'"
  by (auto simp: getSpbInstance_def)

text \<open>The instances depend only on their map.\<close>

lemma spb_at_cong: "co_spbInstances core' = co_spbInstances core \<Longrightarrow> spb_at core' = spb_at core"
  by (intro ext) (simp add: spb_at_def)

lemma generatorBlockE:
  assumes "generatorBlock core view height qc = (b, core')"
  obtains batch pool where "GetBatch (co_txpool core) = (batch, pool)" "core' = core\<lparr>co_txpool := pool\<rparr>"
    "b = \<lparr>b_Author = co_nodeID core, b_View = view, b_Height = height, b_Batch = batch, b_Qc = qc, b_References = []\<rparr>"
  using assms by (auto simp: generatorBlock_def split: prod.splits)

section \<open>The outcomes of the handlers\<close>

lemma handleProposeMsg_outcome:
  assumes "handleProposeMsg cx dx core p = Some (core', effs, err)"
  shows "(\<exists>db. core' = core\<lparr>co_store := db\<rparr> \<and> effs = []) \<or>
    (\<exists>b db. pm_B p = Some b \<and> ProposeMsg_Verify cx (co_committee core) p = Some True \<and> \<not> messageFilter core (pm_View p) \<and>
       storeBlock cx dx (co_store core) b = (None, db) \<and>
       core' = getSpbInstance (pm_View p) (pm_Author p) (core\<lparr>co_store := db\<rparr>) \<and>
       effs = [EGo (pm_View p, pm_Author p, ProposeStart p)])"
proof -
  have same: "core = core\<lparr>co_store := co_store core\<rparr>" by simp
  show ?thesis
    using assms unfolding handleProposeMsg_def
  proof (elim verifiedE)
    assume "(do { b \<leftarrow> pm_B p;
                case storeBlock cx dx (co_store core) b of
                  (Some err, db) \<Rightarrow> Some (core\<lparr>co_store := db\<rparr>, [], Some err)
                | (None, db) \<Rightarrow>
                    (let core1 = core\<lparr>co_store := db\<rparr> in
                     if messageFilter core1 (pm_View p) then Some (core1, [], None)
                     else Some (getSpbInstance (pm_View p) (pm_Author p) core1,
                                [EGo (pm_View p, pm_Author p, ProposeStart p)], None)) }) = Some (core', effs, err)"
      and ok: "ProposeMsg_Verify cx (co_committee core) p = Some True"
    then obtain b e db where b: "pm_B p = Some b" "storeBlock cx dx (co_store core) b = (e, db)"
      "(case (e, db) of
                  (Some err, db) \<Rightarrow> Some (core\<lparr>co_store := db\<rparr>, [], Some err)
                | (None, db) \<Rightarrow>
                    (let core1 = core\<lparr>co_store := db\<rparr> in
                     if messageFilter core1 (pm_View p) then Some (core1, [], None)
                     else Some (getSpbInstance (pm_View p) (pm_Author p) core1,
                                [EGo (pm_View p, pm_Author p, ProposeStart p)], None))) = Some (core', effs, err)"
      by (cases "pm_B p"; cases "storeBlock cx dx (co_store core) (the (pm_B p))") auto
    then show ?thesis using ok
      by (cases e; cases "messageFilter core (pm_View p)") (auto simp: messageFilter_def Let_def)
  qed (use same in blast)+
qed

lemma handleVoteMsg_outcome:
  assumes "handleVoteMsg cx core v = Some (core', effs, err)"
  shows "core' = core \<and> effs = [] \<or>
    \<not> messageFilter core (vm_View v) \<and> VoteMsg_Verify cx (co_committee core) v = Some True \<and>
    core' = getSpbInstance (vm_View v) (vm_Proposer v) core \<and> effs = [EGo (vm_View v, vm_Proposer v, VoteStart v)]"
  using assms by (auto simp: handleVoteMsg_def elim!: verifiedE split: if_splits)

lemma handleSpeedVoteMsg_outcome:
  assumes "handleSpeedVoteMsg cx core v = Some (core', effs, err)"
  shows "core' = core \<and> effs = [] \<or>
    core' = getSpbInstance (sv_View v) (sv_Proposer v) core \<and> effs = [EGo (sv_View v, sv_Proposer v, SpeedVoteStart v)]"
  using assms by (auto simp: handleSpeedVoteMsg_def elim!: verifiedE split: if_splits)

lemma handleFinVoteMsg_outcome:
  assumes "handleFinVoteMsg cx core fv = Some (core', effs, err)"
  shows "core' = core \<and> effs = [] \<or>
    (\<exists>vs pre. core' = getSpbInstance (fv_View fv) (fv_Author fv) (core\<lparr>co_finVoteNums := vs\<rparr>) \<and>
       effs = pre @ [EGo (fv_View fv, fv_Author fv, FinVoteStart fv)] \<and>
       (pre = [] \<or> elect_effects cx (co_sigService core) (co_nodeID core) (fv_View fv) = Some pre))"
  using assms
  by (auto simp: handleFinVoteMsg_def Let_def Option.bind_eq_Some_conv elim!: verifiedE split: if_splits)

text \<open>The commit of \<open>processCoin\<close>.\<close>

lemma commit_block_outcome:
  assumes "commit_block dx core h = Inr (core', effs)"
  shows "\<exists>cm out. core' = core\<lparr>co_commitor := cm\<rparr> \<and> effs = (case out of None \<Rightarrow> [] | Some b \<Rightarrow> [ECommit b])"
  using assms by (auto simp: commit_block_def split: sum.splits prod.splits)

lemma coin_commit_outcome:
  assumes "coin_commit dx core s = Inr (core', effs)"
  shows "\<exists>cm out. core' = core\<lparr>co_commitor := cm\<rparr> \<and> effs = (case out of None \<Rightarrow> [] | Some b \<Rightarrow> [ECommit b])"
proof (cases "SPB_SpeedCert s \<or> SPB_DecCert s")
  case True
  then obtain h where "commit_block dx core h = Inr (core', effs)"
    using assms by (auto simp: coin_commit_def split: if_splits)
  then show ?thesis by (rule commit_block_outcome)
next
  case False
  then have "core' = core\<lparr>co_commitor := co_commitor core\<rparr>" "effs = (case None of None \<Rightarrow> [] | Some b \<Rightarrow> [ECommit b])"
    using assms by (auto simp: coin_commit_def)
  then show ?thesis by blast
qed

lemma processCoin_outcome:
  assumes "processCoin cx dx core leader view = Some (core', effs, err)"
  shows "view \<in> co_coinViewFlags core \<and> core' = core \<and> effs = [] \<or>
    view \<notin> co_coinViewFlags core \<and> core' = getSpbInstance view leader core \<and> effs = [] \<and> err \<noteq> None \<or>
    view \<notin> co_coinViewFlags core \<and> err = None \<and>
      (\<exists>cm out report.
        core' = (getSpbInstance view leader core)
          \<lparr>co_commitor := cm, co_coinViewFlags := insert view (co_coinViewFlags core)\<rparr> \<and>
        effs = (case out of None \<Rightarrow> [] | Some b \<Rightarrow> [ECommit b]) @
          [ESend (co_nodeID core) NONE (ReportM report), EEnq (ReportM report)] \<and>
        NewReportMsg cx (co_sigService core) (co_nodeID core) view (fst (SPB_QCLEvel (spb_at core view leader)))
          (snd (SPB_QCLEvel (spb_at core view leader))) = Some report)"
proof (cases "view \<in> co_coinViewFlags core")
  case False
  let ?core1 = "getSpbInstance view leader core" and ?s = "spb_at core view leader"
  show ?thesis
  proof (cases "coin_commit dx ?core1 ?s")
    case (Inl e)
    then show ?thesis using assms False by (auto simp: processCoin_def Let_def)
  next
    case (Inr r)
    obtain core2 ceffs where r: "r = (core2, ceffs)" by (cases r)
    then obtain cm out where c2: "core2 = ?core1\<lparr>co_commitor := cm\<rparr>"
        "ceffs = (case out of None \<Rightarrow> [] | Some b \<Rightarrow> [ECommit b])"
      using coin_commit_outcome Inr by blast
    have "(case SPB_QCLEvel ?s of (level, qc) \<Rightarrow>
        do { report \<leftarrow> NewReportMsg cx (co_sigService core2) (co_nodeID core2) view level qc;
             Some (core2\<lparr>co_coinViewFlags := insert view (co_coinViewFlags core2)\<rparr>,
                   ceffs @ [ESend (co_nodeID core2) NONE (ReportM report), EEnq (ReportM report)], None) }) =
        Some (core', effs, err)"
      using assms False Inr r by (simp add: processCoin_def Let_def)
    then show ?thesis using False c2 by (auto simp: Option.bind_eq_Some_conv split: prod.splits)
  qed
qed (use assms in \<open>simp add: processCoin_def\<close>)

lemma handleElectMsg_outcome:
  assumes "handleElectMsg cx dx core oe = Some (core', effs, err)"
  shows "\<exists>e. oe = Some e \<and>
    ((\<exists>el. core' = core\<lparr>co_eletor := el\<rparr> \<and> (el = co_eletor core \<or> (\<exists>res. Elector_Add cx (co_eletor core) e = Some (el, res)))) \<and>
       effs = [] \<or>
     (\<exists>el leader coin effs'. Elector_Add cx (co_eletor core) e = Some (el, Inr leader) \<and> leader \<noteq> NONE \<and>
        processCoin cx dx (core\<lparr>co_eletor := el\<rparr>) leader (em_View e) = Some (core', effs', err) \<and>
        effs = ESend (co_nodeID core) NONE (RandomCoinM coin) # effs' \<and> rc_Author coin = co_nodeID core))"
proof -
  obtain e where e: "oe = Some e" using assms by (cases oe) (auto simp: handleElectMsg_def)
  have same: "core = core\<lparr>co_eletor := co_eletor core\<rparr>" by simp
  show ?thesis
  proof (cases "messageFilter core (em_View e) \<or> \<not> ElectMsg_Verify cx e")
    case True
    then have "core' = core" "effs = []" using assms e by (auto simp: handleElectMsg_def split: if_splits)
    then show ?thesis using e same by metis
  next
    case False
    obtain el res where add: "Elector_Add cx (co_eletor core) e = Some (el, res)"
      using assms e False by (cases "Elector_Add cx (co_eletor core) e") (auto simp: handleElectMsg_def)
    show ?thesis
    proof (cases res)
      case (Inl err)
      then show ?thesis using assms e False add by (auto simp: handleElectMsg_def Let_def)
    next
      case (Inr leader)
      then show ?thesis using assms e False add
        by (cases "leader = NONE") (auto simp: handleElectMsg_def Let_def Option.bind_eq_Some_conv dest: NewRandomCoinMsg_fields)
    qed
  qed
qed

lemma advanceView_outcome:
  assumes "advanceView cx core view qc docG = Some (core', effs)"
  shows "view \<le> co_view core \<and> core' = core \<and> effs = [] \<or>
    co_view core < view \<and> (\<exists>b pool p. core' = core\<lparr>co_view := view, co_txpool := pool\<rparr> \<and>
      generatorBlock (core\<lparr>co_view := view\<rparr>) view HEIGHT_1 qc = (b, core') \<and>
      NewProposeMsg cx (co_sigService core) b = Some p \<and>
      effs = [ESend (co_nodeID core) NONE (ProposeM (p\<lparr>pm_DocG := Some docG\<rparr>)), EEnq (ProposeM (p\<lparr>pm_DocG := Some docG\<rparr>))])"
  using assms
  by (auto simp: advanceView_def Let_def Option.bind_eq_Some_conv elim!: generatorBlockE split: if_splits prod.splits)

lemma handleReportMsg_outcome:
  assumes "handleReportMsg cx core r = Some (core', effs, err)"
  shows "(\<exists>nums. core' = core\<lparr>co_reportNums := nums\<rparr>) \<and> effs = [] \<or>
    (\<exists>nums. ReportMsg_Verify cx (co_committee core) r = Some True \<and>
       advanceView cx (core\<lparr>co_reportNums := nums\<rparr>) (wrap64 (rm_View r + 1)) (rm_BlockQc r)
         (NewDocGQCMsg (rm_View r) (rm_Level r) []) = Some (core', effs))"
proof (cases "messageFilter core (rm_View r) \<or> ReportMsg_Verify cx (co_committee core) r \<noteq> Some True")
  case True
  then have "core' = core\<lparr>co_reportNums := co_reportNums core\<rparr>" "effs = []"
    using assms by (auto simp: handleReportMsg_def elim!: verifiedE split: if_splits)
  then show ?thesis by blast
next
  case False
  with assms show ?thesis
    by (auto simp: handleReportMsg_def verified_def Let_def Option.bind_eq_Some_conv split: if_splits)
qed

section \<open>Proposals and reports of a run\<close>

text \<open>
  What one handler or section does to the view, the coin flags, the proposals and the reports.
\<close>

definition lean_delta :: "('k, 'db) Core \<Rightarrow> lean_go effect list \<Rightarrow> ('k, 'db) Core \<Rightarrow> bool" where
  "lean_delta core effs core' \<longleftrightarrow>
     advances co_view height1_views core effs core' \<and>
     (co_coinViewFlags core' = co_coinViewFlags core \<and> sent_reports effs = [] \<or>
      (\<exists>v. v \<notin> co_coinViewFlags core \<and> co_coinViewFlags core' = insert v (co_coinViewFlags core) \<and>
           map rm_View (sent_reports effs) = [v]))"

lemma lean_delta_quiet:
  "co_view core' = co_view core \<Longrightarrow> co_coinViewFlags core' = co_coinViewFlags core \<Longrightarrow>
   height1_views effs = [] \<Longrightarrow> sent_reports effs = [] \<Longrightarrow> lean_delta core effs core'"
  by (simp add: lean_delta_def advances_def)

lemma processCoin_delta:
  assumes "processCoin cx dx core leader view = Some (core', effs, err)"
  shows "lean_delta core effs core'"
  using processCoin_outcome[OF assms]
proof (elim disjE conjE exE)
  fix cm out report
  assume "view \<notin> co_coinViewFlags core"
    and "core' = (getSpbInstance view leader core)\<lparr>co_commitor := cm, co_coinViewFlags := insert view (co_coinViewFlags core)\<rparr>"
    and "effs = (case out of None \<Rightarrow> [] | Some b \<Rightarrow> [ECommit b]) @
          [ESend (co_nodeID core) NONE (ReportM report), EEnq (ReportM report)]"
    and "NewReportMsg cx (co_sigService core) (co_nodeID core) view (fst (SPB_QCLEvel (spb_at core view leader)))
          (snd (SPB_QCLEvel (spb_at core view leader))) = Some report"
  then show ?thesis
    by (auto simp: lean_delta_def advances_def height1_views_def dest!: NewReportMsg_fields split: option.splits)
qed (auto intro: lean_delta_quiet simp: height1_views_def)

lemma advanceView_delta:
  assumes "advanceView cx core view qc docG = Some (core', effs)"
  shows "lean_delta core effs core'"
  using advanceView_outcome[OF assms]
proof (elim disjE conjE exE)
  fix b pool p
  assume "co_view core < view" and c: "core' = core\<lparr>co_view := view, co_txpool := pool\<rparr>"
    and g: "generatorBlock (core\<lparr>co_view := view\<rparr>) view HEIGHT_1 qc = (b, core')"
    and p: "NewProposeMsg cx (co_sigService core) b = Some p"
    and e: "effs = [ESend (co_nodeID core) NONE (ProposeM (p\<lparr>pm_DocG := Some docG\<rparr>)), EEnq (ProposeM (p\<lparr>pm_DocG := Some docG\<rparr>))]"
  moreover have "pm_Height p = 0" "pm_View p = view"
    using NewProposeMsg_fields[OF p] g by (auto elim!: generatorBlockE)
  ultimately show ?thesis by (simp add: lean_delta_def advances_def height1_views_def)
qed (auto intro: lean_delta_quiet simp: height1_views_def)

lemma Core_handle_delta:
  assumes "Core_handle cx dx core i = Some (core', effs, err)"
  shows "lean_delta core effs core'"
proof (cases i)
  case (InCall v n)
  then show ?thesis using assms by (auto intro: lean_delta_quiet simp: height1_views_def)
next
  case (InMsg m)
  show ?thesis
  proof (cases m)
    case (ProposeM p)
    then show ?thesis using assms InMsg handleProposeMsg_outcome[of cx dx core p core' effs err]
      by (intro lean_delta_quiet) (auto simp: height1_views_def)
  next
    case (VoteM v)
    then show ?thesis using assms InMsg handleVoteMsg_outcome[of cx core v core' effs err]
      by (intro lean_delta_quiet) (auto simp: height1_views_def)
  next
    case (FinVoteM fv)
    then show ?thesis using assms InMsg handleFinVoteMsg_outcome[of cx core fv core' effs err]
      by (intro lean_delta_quiet) (auto simp: height1_views_def elect_msg_def dest!: elect_effects_outcome)
  next
    case (SpeedVoteM sv)
    then show ?thesis using assms InMsg handleSpeedVoteMsg_outcome[of cx core sv core' effs err]
      by (intro lean_delta_quiet) (auto simp: height1_views_def)
  next
    case (ElectM e)
    with assms InMsg have "handleElectMsg cx dx core e = Some (core', effs, err)" by simp
    from handleElectMsg_outcome[OF this] show ?thesis
    proof (elim exE conjE disjE)
      fix el leader coin effs' e'
      assume "processCoin cx dx (core\<lparr>co_eletor := el\<rparr>) leader (em_View e') = Some (core', effs', err)"
        and effs: "effs = ESend (co_nodeID core) NONE (RandomCoinM coin) # effs'"
      from processCoin_delta[OF this(1)] effs show ?thesis
        by (simp add: lean_delta_def advances_def height1_views_def)
    qed (auto intro: lean_delta_quiet simp: height1_views_def)
  next
    case (RandomCoinM rc)
    with assms InMsg have "handleCoinMsg cx dx core rc = Some (core', effs, err)" by simp
    then show ?thesis unfolding handleCoinMsg_def
      by (elim verifiedE) (auto intro: lean_delta_quiet simp: height1_views_def processCoin_delta)
  next
    case (ReportM r)
    with assms InMsg have "handleReportMsg cx core r = Some (core', effs, err)" by simp
    from handleReportMsg_outcome[OF this] show ?thesis
    proof (elim exE conjE disjE)
      fix nums
      assume "advanceView cx (core\<lparr>co_reportNums := nums\<rparr>) (wrap64 (rm_View r + 1)) (rm_BlockQc r)
         (NewDocGQCMsg (rm_View r) (rm_Level r) []) = Some (core', effs)"
      from advanceView_delta[OF this] show ?thesis by (simp add: lean_delta_def advances_def)
    qed (auto intro: lean_delta_quiet simp: height1_views_def)
  next
    case (DocGQCM d)
    then show ?thesis using assms InMsg by (auto intro: lean_delta_quiet simp: height1_views_def)
  qed
qed

lemma processVoteMsg_quorum_outcome:
  assumes "processVoteMsg_quorum cx core s v = Some (core', effs)"
  shows "(\<exists>b pool p qc. vm_Height v = HEIGHT_1 \<and> core' = core\<lparr>co_txpool := pool\<rparr> \<and>
       generatorBlock core (vm_View v) HEIGHT_2 (Some qc) = (b, core') \<and> NewProposeMsg cx (co_sigService core) b = Some p \<and>
       qc_ParentBlockHash qc = vm_BlockHash v \<and>
       effs = [ESend (co_nodeID core) NONE (ProposeM p), EEnq (ProposeM p)]) \<or>
    (\<exists>f qc. core' = core \<and> NewFinVoteMsg cx (co_sigService core) (co_nodeID core) (spb_View s) qc = Some f \<and>
       effs = [ESend (co_nodeID core) NONE (FinVoteM f), EEnq (FinVoteM f)])"
  using assms
  by (auto simp: processVoteMsg_quorum_def Let_def Option.bind_eq_Some_conv elim!: generatorBlockE
      split: if_splits prod.splits) (auto simp: generatorBlock_def)

lemma SPB_section_delta:
  assumes "SPB_section cx core g = Some (core', effs, g')"
  shows "lean_delta core effs core'"
proof -
  obtain view node t where g: "g = (view, node, t)" by (cases g) auto
  show ?thesis
  proof (cases t)
    case (VoteQuorum v)
    with assms g have "processVoteMsg_quorum cx core (spb_at core view node) v = Some (core', effs)"
      by (auto simp: Option.bind_eq_Some_conv)
    from processVoteMsg_quorum_outcome[OF this] show ?thesis
    proof (elim disjE exE conjE)
      fix b pool p qc
      assume "core' = core\<lparr>co_txpool := pool\<rparr>" and g: "generatorBlock core (vm_View v) HEIGHT_2 (Some qc) = (b, core')"
        and p: "NewProposeMsg cx (co_sigService core) b = Some p"
        and "effs = [ESend (co_nodeID core) NONE (ProposeM p), EEnq (ProposeM p)]"
      moreover have "pm_Height p = 1" using NewProposeMsg_fields[OF p] g by (auto elim!: generatorBlockE)
      ultimately show ?thesis by (intro lean_delta_quiet) (auto simp: height1_views_def)
    qed (auto intro: lean_delta_quiet simp: height1_views_def)
  qed (use assms g in \<open>auto intro!: lean_delta_quiet simp: height1_views_def Option.bind_eq_Some_conv
        processProposeMsg_vote_def processFinVoteMsg_send_def split: prod.splits if_splits\<close>)
qed

text \<open>A booted node.\<close>

lemma Core_boot_outcome:
  assumes "Core_boot cx (NewCore i c pr pool db srvc) = Some (core, effs)" "Faults pr \<le> i"
  shows "\<exists>pool' b p. core = (NewCore i c pr pool db srvc)\<lparr>co_txpool := pool'\<rparr> \<and>
    NewProposeMsg cx srvc b = Some p \<and> b_Author b = i \<and> b_View b = 0 \<and> b_Height b = HEIGHT_1 \<and> b_Qc b = None \<and>
    effs = [ESend i NONE (ProposeM p), EEnq (ProposeM p)]"
  using assms
  by (auto simp: Core_boot_def NewCore_def Option.bind_eq_Some_conv split: prod.splits elim!: generatorBlockE)
     (intro exI conjI, assumption, simp_all)

interpretation lean_prop: advancing_proposer "lean_machine cx dx c" "\<lambda>_. True" co_view height1_views for cx dx c
proof
  fix core i core' effs err
  assume "mc_handle (lean_machine cx dx c) core i = Some (core', effs, err)"
  then show "True \<and> advances co_view height1_views core effs core'"
    using Core_handle_delta by (fastforce simp: lean_machine_def lean_delta_def)
next
  fix core g core' effs g'
  assume "mc_section (lean_machine cx dx c) core g = Some (core', effs, g')"
  then show "True \<and> advances co_view height1_views core effs core'"
    using SPB_section_delta by (fastforce simp: lean_machine_def lean_delta_def)
qed (auto simp: height1_views_def lean_machine_def Core_background_def)

text \<open>
  C1. An honest node of the lean protocol proposes exactly one height-1 block for every view it
  enters, in increasing order of views, starting with view 0: in any run, whatever the
  network delivers, the views of the height-1 proposals it sends are strictly increasing and
  the last one is its current view.
\<close>

theorem lean_one_proposal_per_view:
  assumes "Core_boot cx (NewCore i c pr pool db srvc) = Some (core, effs)" "Faults pr \<le> i"
    and "node_run (lean_machine cx dx c) (\<lambda>_. True) (boot_node core effs) tr nd"
  shows "sorted_wrt (<) (height1_views (effs @ tr)) \<and> height1_views (effs @ tr) \<noteq> [] \<and>
    hd (height1_views (effs @ tr)) = 0 \<and> last (height1_views (effs @ tr)) = co_view (nd_core nd)"
proof -
  have h: "height1_views effs = [0]" "co_view core = 0"
    using Core_boot_outcome[OF assms(1,2)]
    by (auto simp: height1_views_def NewCore_def dest!: NewProposeMsg_fields)
  then have "lean_prop.in_order core effs" by (simp add: lean_prop.in_order_def)
  from lean_prop.run_invariant[OF this _ assms(3)]
  have "lean_prop.in_order (nd_core nd) (effs @ tr)" by simp
  then show ?thesis using h(1) by (simp add: lean_prop.in_order_def lean_prop.keys_append)
qed

definition sample_core :: "node_id \<Rightarrow> (unit, string \<times> bytes \<Rightarrow> bytes option) Core" where
  "sample_core i = NewCore i (sample_committee 4) DefaultParameters sample_pool Map.empty sample_service"

definition sample_lean :: "((unit, string \<times> bytes \<Rightarrow> bytes option) Core, lean_go) machine" where
  "sample_lean = lean_machine sample_cx (sample_dx []) (sample_committee 4)"

text \<open>The first proposal of node 0.\<close>

definition sample_first :: ProposeMsg where
  "sample_first = the (NewProposeMsg sample_cx sample_service (sample_block 0 0 HEIGHT_1))"

lemma sample_first_eq: "NewProposeMsg sample_cx sample_service (sample_block 0 0 HEIGHT_1) = Some sample_first"
  by (cases "NewProposeMsg sample_cx sample_service (sample_block 0 0 HEIGHT_1)") (auto simp: sample_first_def)

lemma sample_boot:
  "Core_boot sample_cx (sample_core 0) =
     Some (sample_core 0, [ESend 0 NONE (ProposeM sample_first), EEnq (ProposeM sample_first)])"
  using sample_first_eq
  by (simp add: Core_boot_def sample_core_def NewCore_def DefaultParameters_def generatorBlock_def sample_block_def)

text \<open>A report makes node 0 enter view 1.\<close>

lemma sample_lean_report:
  "\<exists>nd tr. exec sample_lean [Deliver (ReportM (sample_report 2 0 LEVEL_2)), Main, Main, Main]
     (boot_node (sample_core 0) [ESend 0 NONE (ProposeM sample_first), EEnq (ProposeM sample_first)]) = Some (nd, tr) \<and>
     height1_views tr = [1]"
proof -
  obtain p where "NewProposeMsg sample_cx sample_service (sample_block 0 1 HEIGHT_1) = Some p"
    by (cases "NewProposeMsg sample_cx sample_service (sample_block 0 1 HEIGHT_1)") auto
  moreover from this have "pm_Height p = 0" "pm_View p = 1" by (auto dest!: NewProposeMsg_fields simp: sample_block_def)
  ultimately show ?thesis
    by (simp add: boot_node_def recv_cap_def send_cap_def sample_lean_def lean_machine_def handleReportMsg_def
        messageFilter_def sample_core_def NewCore_def verified_def advanceView_def generatorBlock_def wrap64_def
        sample_block_def height1_views_def Let_def)
qed

theorem lean_one_proposal_per_view_witness:
  "\<exists>nd tr. node_run sample_lean (\<lambda>_. True)
      (boot_node (sample_core 0) [ESend 0 NONE (ProposeM sample_first), EEnq (ProposeM sample_first)]) tr nd \<and>
     sorted_wrt (<) (height1_views ([ESend 0 NONE (ProposeM sample_first), EEnq (ProposeM sample_first)] @ tr)) \<and>
     height1_views tr = [1]"
proof -
  obtain nd tr where x: "exec sample_lean [Deliver (ReportM (sample_report 2 0 LEVEL_2)), Main, Main, Main]
     (boot_node (sample_core 0) [ESend 0 NONE (ProposeM sample_first), EEnq (ProposeM sample_first)]) = Some (nd, tr)"
      "height1_views tr = [1]"
    using sample_lean_report by blast
  have run: "node_run sample_lean (\<lambda>_. True)
      (boot_node (sample_core 0) [ESend 0 NONE (ProposeM sample_first), EEnq (ProposeM sample_first)]) tr nd"
    by (rule exec_run[OF x(1)]) (simp_all add: boot_node_def)
  then have "sorted_wrt (<) (height1_views ([ESend 0 NONE (ProposeM sample_first), EEnq (ProposeM sample_first)] @ tr))"
    using lean_one_proposal_per_view[OF sample_boot[unfolded sample_core_def]]
    by (simp add: sample_lean_def sample_core_def del: append.simps)
  with run x(2) show ?thesis by blast
qed

text \<open>The reports: one for every flagged view.\<close>

definition reports_flagged :: "('k, 'db) Core \<Rightarrow> lean_go effect list \<Rightarrow> bool" where
  "reports_flagged core tr \<longleftrightarrow>
     distinct (map rm_View (sent_reports tr)) \<and> rm_View ` set (sent_reports tr) = co_coinViewFlags core"

lemma reports_flagged_delta:
  "reports_flagged core tr \<Longrightarrow> lean_delta core effs core' \<Longrightarrow> reports_flagged core' (tr @ effs)"
  unfolding reports_flagged_def lean_delta_def
  by (elim conjE disjE exE) (auto simp: Cons_eq_map_conv map_eq_Cons_conv)

interpretation lean_reports: node_invariant "lean_machine cx dx c" "\<lambda>_. True" reports_flagged "\<lambda>_. True" "\<lambda>_. True" "\<lambda>_ _. True"
  for cx dx c
proof
  fix core tr i core' effs err
  assume "reports_flagged core tr" "mc_handle (lean_machine cx dx c) core i = Some (core', effs, err)"
  then show "reports_flagged core' (tr @ effs) \<and> list_all (effect_ok (\<lambda>_. True) (\<lambda>_. True) (\<lambda>_ _. True)) effs"
    using Core_handle_delta reports_flagged_delta by (fastforce simp: lean_machine_def)
next
  fix core tr g core' effs g'
  assume "reports_flagged core tr" "mc_section (lean_machine cx dx c) core g = Some (core', effs, g')"
  then show "reports_flagged core' (tr @ effs) \<and> list_all (effect_ok (\<lambda>_. True) (\<lambda>_. True) (\<lambda>_ _. True)) effs \<and>
      pred_option (\<lambda>_. True) g'"
    using SPB_section_delta reports_flagged_delta by (fastforce simp: lean_machine_def option.pred_True)
qed (auto simp: lean_machine_def Core_background_def reports_flagged_def)

text \<open>
  C9. A node of the lean protocol processes the coin of a view at most once: in any run it
  reports at most once per view, and exactly for the views flagged in \<open>coinViewFlags\<close>.
\<close>

theorem lean_one_report_per_view:
  assumes "Core_boot cx (NewCore i c pr pool db srvc) = Some (core, effs)" "Faults pr \<le> i"
    and "node_run (lean_machine cx dx c) (\<lambda>_. True) (boot_node core effs) tr nd"
  shows "distinct (map rm_View (sent_reports tr)) \<and> rm_View ` set (sent_reports tr) = co_coinViewFlags (nd_core nd)"
proof -
  have r: "sent_reports effs = []" "co_coinViewFlags core = {}"
    using Core_boot_outcome[OF assms(1,2)] by (auto simp: NewCore_def)
  then have "reports_flagged core effs" by (simp add: reports_flagged_def)
  from lean_reports.run_invariant[OF this _ assms(3)] r show ?thesis by (simp add: reports_flagged_def)
qed

text \<open>Two coin messages of view 0, with different leaders, at node 0.\<close>

lemma sample_lean_coin:
  "\<exists>nd tr. exec sample_lean [Deliver (RandomCoinM (sample_coin 1 2 0)), Deliver (RandomCoinM (sample_coin 3 1 0)), Main, Main, Main,
       Main, Main, Main]
     (boot_node (sample_core 0) [ESend 0 NONE (ProposeM sample_first), EEnq (ProposeM sample_first)]) = Some (nd, tr) \<and>
     map rm_View (sent_reports tr) = [0]"
proof -
  obtain r where "NewReportMsg sample_cx sample_service 0 0 LEVEL_0 None = Some r"
    by (cases "NewReportMsg sample_cx sample_service 0 0 LEVEL_0 None") auto
  moreover from this have "rm_View r = 0" by (auto dest!: NewReportMsg_fields)
  ultimately show ?thesis
    by (simp add: boot_node_def recv_cap_def send_cap_def sample_lean_def lean_machine_def handleCoinMsg_def
        sample_core_def NewCore_def verified_def processCoin_def coin_commit_def spb_at_def NewSPB_def SPB_SpeedCert_def
        SPB_DecCert_def SPB_QCLEvel_def getSpbInstance_def put_spb_def inst_put_def inst_at_def Let_def)
qed

theorem lean_one_report_per_view_witness:
  "\<exists>nd tr. node_run sample_lean (\<lambda>_. True)
      (boot_node (sample_core 0) [ESend 0 NONE (ProposeM sample_first), EEnq (ProposeM sample_first)]) tr nd \<and>
    map rm_View (sent_reports tr) = [0] \<and> co_coinViewFlags (nd_core nd) = {0}"
proof -
  obtain nd tr where x: "exec sample_lean [Deliver (RandomCoinM (sample_coin 1 2 0)), Deliver (RandomCoinM (sample_coin 3 1 0)), Main, Main, Main,
       Main, Main, Main]
     (boot_node (sample_core 0) [ESend 0 NONE (ProposeM sample_first), EEnq (ProposeM sample_first)]) = Some (nd, tr)"
      "map rm_View (sent_reports tr) = [0]"
    using sample_lean_coin by (elim exE conjE)
  have run: "node_run sample_lean (\<lambda>_. True)
      (boot_node (sample_core 0) [ESend 0 NONE (ProposeM sample_first), EEnq (ProposeM sample_first)]) tr nd"
    by (rule exec_run[OF x(1)]) (simp_all add: boot_node_def)
  then have "rm_View ` set (sent_reports tr) = co_coinViewFlags (nd_core nd)"
    using lean_one_report_per_view[OF sample_boot[unfolded sample_core_def]]
    by (simp add: sample_lean_def sample_core_def)
  moreover have "rm_View ` set (sent_reports tr) = set (map rm_View (sent_reports tr))" by simp
  ultimately have "co_coinViewFlags (nd_core nd) = {0}" using x(2) by simp
  with run x(2) show ?thesis by (intro exI conjI)
qed

section \<open>A full receive channel\<close>

text \<open>
  C17. A full receive channel can lock a lean node for good, from its very first proposal: if the
  network delivers \<open>recv_cap\<close> consensus messages before the main goroutine has enqueued its proposal, that
  goroutine waits for room that only it could make. From then on no step of any goroutine and
  no message of the network lets it continue.
\<close>

theorem lean_full_recvCh_locks_node:
  assumes "Core_boot cx (NewCore i c pr pool db srvc) = Some (core, effs)" "Faults pr \<le> i" "net m" "is_ConsensusMessage m"
  shows "\<exists>tr nd p. node_run (lean_machine cx dx c) net (boot_node core effs) tr nd \<and> nd_alive nd \<and>
     (\<forall>tr' nd'. node_run (lean_machine cx dx c) net nd tr' nd' \<longrightarrow>
        nd_main nd' = [EEnq (ProposeM p)] \<and> nd_recvCh nd' = replicate recv_cap m)"
proof -
  obtain p where "effs = [ESend i NONE (ProposeM p), EEnq (ProposeM p)]" using Core_boot_outcome[OF assms(1,2)] by blast
  with full_recvCh_locks[of net m "lean_machine cx dx c" core i NONE "ProposeM p"] assms(3,4) show ?thesis by blast
qed

theorem lean_full_recvCh_locks_node_witness:
  "\<exists>tr nd p. node_run sample_lean (\<lambda>m. m = ElectM None)
      (boot_node (sample_core 0) [ESend 0 NONE (ProposeM sample_first), EEnq (ProposeM sample_first)]) tr nd \<and>
    nd_main nd = [EEnq (ProposeM p)] \<and> length (nd_recvCh nd) = recv_cap"
proof -
  obtain tr nd p where run: "node_run sample_lean (\<lambda>m. m = ElectM None)
      (boot_node (sample_core 0) [ESend 0 NONE (ProposeM sample_first), EEnq (ProposeM sample_first)]) tr nd"
    and all: "\<forall>tr' nd'. node_run sample_lean (\<lambda>m. m = ElectM None) nd tr' nd' \<longrightarrow>
        nd_main nd' = [EEnq (ProposeM p)] \<and> nd_recvCh nd' = replicate recv_cap (ElectM None)"
    using lean_full_recvCh_locks_node[OF sample_boot[unfolded sample_core_def], of "\<lambda>m. m = ElectM None" "ElectM None" "sample_dx []"]
    unfolding sample_lean_def sample_core_def by auto
  have "nd_main nd = [EEnq (ProposeM p)]" "nd_recvCh nd = replicate recv_cap (ElectM None)"
    using all node_run.start by blast+
  with run show ?thesis by (intro exI[of _ tr] exI[of _ nd] exI[of _ p]) simp
qed

end
