(* ===== verification/Lean_Panics.thy ===== *)
theory Lean_Panics
  imports Lean_Safety
begin

text \<open>
  A node of the lean protocol does not panic as long as the network delivers well-formed
  messages (\<open>msg_wf\<close> of Protocol_Base.thy), and each way of being ill-formed can crash it.
\<close>

section \<open>The invariant\<close>

definition spb_ok :: "Committee \<Rightarrow> SPB \<Rightarrow> bool" where
  "spb_ok c s \<longleftrightarrow>
     (\<forall>p \<in> set (spb_unHandlePropose s). propose_wf c p) \<and> (\<forall>f \<in> set (spb_unHandleFinVote s). fv_Qc f \<noteq> None)"

definition lean_ok :: "'k crypto_ext \<Rightarrow> Committee \<Rightarrow> node_id \<Rightarrow> 'k SigService \<Rightarrow> ('k, 'db) Core \<Rightarrow> bool" where
  "lean_ok cx c i srvc core \<longleftrightarrow>
     setup_ok cx c i srvc \<and> co_nodeID core = i \<and> co_committee core = c \<and> co_sigService core = srvc \<and>
     el_committee (co_eletor core) = c \<and> (\<forall>v n. spb_ok c (spb_at core v n))"

fun task_ok :: "Committee \<Rightarrow> spb_task \<Rightarrow> bool" where
  "task_ok c (ProposeStart p) = propose_wf c p"
| "task_ok c (ProposeWake p) = propose_wf c p"
| "task_ok c (ProposeVote p) = propose_wf c p"
| "task_ok c (VoteStart v) = in_heights (vm_Height v)"
| "task_ok c (FinVoteStart f) \<longleftrightarrow> fv_Qc f \<noteq> None"
| "task_ok c (FinVoteSend f) \<longleftrightarrow> fv_Qc f \<noteq> None"
| "task_ok c _ = True"

abbreviation lean_go_ok :: "Committee \<Rightarrow> lean_go \<Rightarrow> bool" where
  "lean_go_ok c g \<equiv> task_ok c (snd (snd g))"

abbreviation lean_effects_ok :: "Committee \<Rightarrow> lean_go effect list \<Rightarrow> bool" where
  "lean_effects_ok c \<equiv> list_all (effect_ok (msg_wf c) (lean_go_ok c) (\<lambda>_ _. True))"

lemma spb_ok_new [simp]: "spb_ok c (NewSPB n v)"
  by (simp add: spb_ok_def NewSPB_def)

lemma spb_at_upd [simp]:
  "spb_at (core\<lparr>co_store := x1\<rparr>) = spb_at core" "spb_at (core\<lparr>co_view := x2\<rparr>) = spb_at core"
  "spb_at (core\<lparr>co_txpool := x3\<rparr>) = spb_at core" "spb_at (core\<lparr>co_eletor := x4\<rparr>) = spb_at core"
  "spb_at (core\<lparr>co_commitor := x5\<rparr>) = spb_at core" "spb_at (core\<lparr>co_coinViewFlags := x6\<rparr>) = spb_at core"
  "spb_at (core\<lparr>co_finVoteNums := x7\<rparr>) = spb_at core" "spb_at (core\<lparr>co_reportNums := x8\<rparr>) = spb_at core"
  by (rule spb_at_cong, simp)+

lemma lean_ok_get [simp]: "lean_ok cx c i srvc (getSpbInstance v n core) = lean_ok cx c i srvc core"
  by (simp add: lean_ok_def)

lemma lean_ok_put: "lean_ok cx c i srvc core \<Longrightarrow> spb_ok c s \<Longrightarrow> lean_ok cx c i srvc (put_spb v n s core)"
  by (simp add: lean_ok_def)

lemma lean_ok_upd [simp]:
  "lean_ok cx c i srvc (core\<lparr>co_store := x1\<rparr>) = lean_ok cx c i srvc core"
  "lean_ok cx c i srvc (core\<lparr>co_view := x2\<rparr>) = lean_ok cx c i srvc core"
  "lean_ok cx c i srvc (core\<lparr>co_txpool := x3\<rparr>) = lean_ok cx c i srvc core"
  "lean_ok cx c i srvc (core\<lparr>co_commitor := x5\<rparr>) = lean_ok cx c i srvc core"
  "lean_ok cx c i srvc (core\<lparr>co_coinViewFlags := x6\<rparr>) = lean_ok cx c i srvc core"
  "lean_ok cx c i srvc (core\<lparr>co_finVoteNums := x7\<rparr>) = lean_ok cx c i srvc core"
  "lean_ok cx c i srvc (core\<lparr>co_reportNums := x8\<rparr>) = lean_ok cx c i srvc core"
  by (simp_all add: lean_ok_def)

section \<open>Handlers\<close>

text \<open>Messages the node makes itself are well-formed.\<close>

lemma report_level: "fst (SPB_QCLEvel s) < 3"
  by (simp add: SPB_QCLEvel_def)

lemma processCoin_ok:
  assumes "lean_ok cx c i srvc core" "processCoin cx dx core leader view = Some (core', effs, err)"
  shows "lean_ok cx c i srvc core' \<and> lean_effects_ok c effs"
  using processCoin_outcome[OF assms(2)]
proof (elim disjE conjE exE)
  fix cm out report
  assume "core' = (getSpbInstance view leader core)\<lparr>co_commitor := cm, co_coinViewFlags := insert view (co_coinViewFlags core)\<rparr>"
    and "effs = (case out of None \<Rightarrow> [] | Some b \<Rightarrow> [ECommit b]) @
          [ESend (co_nodeID core) NONE (ReportM report), EEnq (ReportM report)]"
    and r: "NewReportMsg cx (co_sigService core) (co_nodeID core) view (fst (SPB_QCLEvel (spb_at core view leader)))
          (snd (SPB_QCLEvel (spb_at core view leader))) = Some report"
  moreover have "rm_Author report = i" "rm_Level report < 3"
    using NewReportMsg_fields[OF r] report_level[of "spb_at core view leader"] assms(1) by (auto simp: lean_ok_def)
  ultimately show ?thesis
    using assms(1) by (auto simp: lean_ok_def setup_ok_def split: option.split)
qed (use assms(1) in auto)

lemma processCoin_total:
  assumes "lean_ok cx c i srvc core"
  shows "processCoin cx dx core leader view \<noteq> None"
proof -
  have sign: "can_sign (co_sigService core)" using assms by (simp add: lean_ok_def setup_ok_def)
  show ?thesis
  proof (cases "coin_commit dx (getSpbInstance view leader core) (spb_at core view leader)")
    case (Inr r)
    obtain core2 effs where r: "r = (core2, effs)" by (cases r)
    then have "co_sigService core2 = co_sigService core" using coin_commit_outcome[of dx] Inr by fastforce
    then show ?thesis using sign Inr r
      by (auto simp: processCoin_def Let_def Option.bind_eq_None_conv simp del: not_None_eq split: prod.split)
  qed (simp add: processCoin_def Let_def)
qed

lemma advanceView_ok:
  assumes "lean_ok cx c i srvc core" "advanceView cx core view qc (NewDocGQCMsg v l []) = Some (core', effs)"
  shows "lean_ok cx c i srvc core' \<and> lean_effects_ok c effs"
  using advanceView_outcome[OF assms(2)]
proof (elim disjE conjE exE)
  fix b pool p
  let ?d = "NewDocGQCMsg v l []"
  assume c: "core' = core\<lparr>co_view := view, co_txpool := pool\<rparr>"
    and g: "generatorBlock (core\<lparr>co_view := view\<rparr>) view HEIGHT_1 qc = (b, core')"
    and p: "NewProposeMsg cx (co_sigService core) b = Some p"
    and e: "effs = [ESend (co_nodeID core) NONE (ProposeM (p\<lparr>pm_DocG := Some ?d\<rparr>)), EEnq (ProposeM (p\<lparr>pm_DocG := Some ?d\<rparr>))]"
  have "b_Author b = i" "b_Height b = 0" using g assms(1) by (auto elim!: generatorBlockE simp: lean_ok_def)
  then have "propose_wf c (p\<lparr>pm_DocG := Some ?d\<rparr>)"
    using NewProposeMsg_fields[OF p] assms(1)
    by (auto simp: propose_wf_def lean_ok_def setup_ok_def in_heights_def NewDocGQCMsg_def)
  with c e assms(1) show ?thesis by simp
qed (use assms(1) in auto)

lemma advanceView_total:
  assumes "lean_ok cx c i srvc core"
  shows "advanceView cx core view qc docG \<noteq> None"
  using assms
  by (auto simp: advanceView_def lean_ok_def setup_ok_def Option.bind_eq_None_conv Let_def elim!: generatorBlockE
      simp del: not_None_eq split: prod.split)

lemma Core_handle_ok:
  assumes "lean_ok cx c i srvc core" "input_ok (msg_wf c) (\<lambda>_ _. True) inp"
    and "Core_handle cx dx core inp = Some (core', effs, err)"
  shows "lean_ok cx c i srvc core' \<and> lean_effects_ok c effs"
proof (cases inp)
  case (InCall v n)
  then show ?thesis using assms by simp
next
  case (InMsg m)
  with assms(2) have wf: "msg_wf c m" by simp
  show ?thesis
  proof (cases m)
    case (ProposeM p)
    then show ?thesis using assms InMsg wf handleProposeMsg_outcome[of cx dx core p core' effs err] by auto
  next
    case (VoteM v)
    then show ?thesis using assms InMsg wf handleVoteMsg_outcome[of cx core v core' effs err] by auto
  next
    case (FinVoteM fv)
    with assms InMsg have h: "handleFinVoteMsg cx core fv = Some (core', effs, err)" by simp
    obtain m where "elect_effects cx srvc i (fv_View fv) = Some [ESend i NONE (ElectM (Some m)), EEnq (ElectM (Some m)) :: lean_go effect]"
      using setup_elect_effects[of cx c i srvc "fv_View fv"] assms(1) by (auto simp: lean_ok_def)
    moreover have "co_sigService core = srvc" "co_nodeID core = i" using assms(1) by (simp_all add: lean_ok_def)
    ultimately show ?thesis using handleFinVoteMsg_outcome[OF h] assms(1) FinVoteM wf by auto
  next
    case (SpeedVoteM sv)
    then show ?thesis using assms InMsg handleSpeedVoteMsg_outcome[of cx core sv core' effs err] by auto
  next
    case (ElectM e)
    with assms InMsg have h: "handleElectMsg cx dx core e = Some (core', effs, err)" by simp
    from handleElectMsg_outcome[OF h] show ?thesis
    proof (elim exE conjE disjE)
      fix e' el leader coin effs'
      assume add: "Elector_Add cx (co_eletor core) e' = Some (el, Inr leader)"
        and pc: "processCoin cx dx (core\<lparr>co_eletor := el\<rparr>) leader (em_View e') = Some (core', effs', err)"
        and effs: "effs = ESend (co_nodeID core) NONE (RandomCoinM coin) # effs'" "rc_Author coin = co_nodeID core"
      have "lean_ok cx c i srvc (core\<lparr>co_eletor := el\<rparr>)"
        using assms(1) add by (auto simp: lean_ok_def elim!: Elector_AddE)
      from processCoin_ok[OF this pc] effs assms(1) show ?thesis by (simp add: lean_ok_def setup_ok_def)
    qed (use assms(1) in \<open>auto simp: lean_ok_def elim!: Elector_AddE\<close>)
  next
    case (RandomCoinM rc)
    with assms InMsg have "handleCoinMsg cx dx core rc = Some (core', effs, err)" by simp
    then show ?thesis unfolding handleCoinMsg_def
      by (elim verifiedE) (use assms(1) processCoin_ok[OF assms(1), of dx "rc_Leader rc" "rc_View rc" core' effs err] in auto)
  next
    case (ReportM r)
    with assms InMsg have h: "handleReportMsg cx core r = Some (core', effs, err)" by simp
    from handleReportMsg_outcome[OF h] show ?thesis
    proof (elim exE conjE disjE)
      fix nums
      assume "advanceView cx (core\<lparr>co_reportNums := nums\<rparr>) (wrap64 (rm_View r + 1)) (rm_BlockQc r)
         (NewDocGQCMsg (rm_View r) (rm_Level r) []) = Some (core', effs)"
      from advanceView_ok[OF _ this] assms(1) show ?thesis by simp
    qed (use assms(1) in simp)
  next
    case (DocGQCM d)
    then show ?thesis using assms InMsg by simp
  qed
qed

lemma Core_handle_total:
  assumes "lean_ok cx c i srvc core" "input_ok (msg_wf c) (\<lambda>_ _. True) inp"
  shows "Core_handle cx dx core inp \<noteq> None"
proof (cases inp)
  case (InMsg m)
  with assms(2) have wf: "msg_wf c m" by simp
  have st: "co_committee core = c" "co_nodeID core = i" "co_sigService core = srvc" "can_sign srvc"
      "el_committee (co_eletor core) = c" "setup_ok cx c i srvc"
    using assms(1) by (simp_all add: lean_ok_def setup_ok_def)
  show ?thesis
  proof (cases m)
    case (ProposeM p)
    with wf have p: "propose_wf c p" by simp
    then have "pm_B p \<noteq> None" by (simp add: propose_wf_def split: option.splits)
    moreover have "(case pm_DocG p of None \<Rightarrow> Some True | Some d \<Rightarrow> DocGQCMsg_Verify cx c d) \<noteq> None"
      using p docg_verify_defined[of "the (pm_DocG p)" c cx]
      by (auto simp: propose_wf_def split: option.splits simp del: not_None_eq)
    ultimately have "handleProposeMsg cx dx core p \<noteq> None"
      unfolding handleProposeMsg_def st(1) using propose_verify_defined[OF p, of cx]
      by (intro verified_defined) (auto simp: Let_def split: prod.split option.split)
    then show ?thesis using ProposeM InMsg by simp
  next
    case (VoteM v)
    then show ?thesis using InMsg wf st verify_defined(1)[of c v cx]
      by (auto simp: handleVoteMsg_def verified_Some)
  next
    case (FinVoteM fv)
    obtain m where "elect_effects cx srvc i (fv_View fv) = Some [ESend i NONE (ElectM (Some m)), EEnq (ElectM (Some m)) :: lean_go effect]"
      using setup_elect_effects[of cx c i srvc "fv_View fv"] st(6) by auto
    then show ?thesis using FinVoteM InMsg wf st verify_defined(2)[of c fv cx]
      by (auto simp: handleFinVoteMsg_def Let_def verified_Some)
  next
    case (SpeedVoteM sv)
    then show ?thesis using InMsg wf st verify_defined(3)[of c sv cx]
      by (auto simp: handleSpeedVoteMsg_def verified_Some)
  next
    case (ElectM oe)
    with wf obtain e where e: "oe = Some e" by auto
    obtain el res where add: "Elector_Add cx (co_eletor core) e = Some (el, res)"
      using setup_Elector_Add[OF st(6,5), of e] by auto
    have "lean_ok cx c i srvc (core\<lparr>co_eletor := el\<rparr>)"
      using assms(1) add by (auto simp: lean_ok_def elim!: Elector_AddE)
    from processCoin_total[OF this] show ?thesis
      using ElectM InMsg e add st(3,4)
      by (auto simp: handleElectMsg_def Let_def Option.bind_eq_None_conv split: sum.split prod.split simp del: not_None_eq)
  next
    case (RandomCoinM rc)
    then show ?thesis using InMsg wf st verify_defined(4)[of c rc cx] processCoin_total[OF assms(1), of dx]
      by (auto simp: handleCoinMsg_def verified_Some)
  next
    case (ReportM r)
    have adv: "advanceView cx (core\<lparr>co_reportNums := nums\<rparr>) view qc d \<bind>
        (\<lambda>(core2, effs). Some (core2, effs, None :: error option)) \<noteq> None" for nums view qc d
    proof -
      have "lean_ok cx c i srvc (core\<lparr>co_reportNums := nums\<rparr>)" using assms(1) by simp
      from advanceView_total[OF this, of view qc d] show ?thesis by (auto split: prod.split)
    qed
    obtain ok where "ReportMsg_Verify cx c r = Some ok" using verify_defined(5)[of c r cx] ReportM wf by auto
    then show ?thesis using ReportM InMsg wf st adv
      by (auto simp: handleReportMsg_def Let_def verified_Some simp del: not_None_eq)
  qed (use InMsg in simp)
qed simp

section \<open>Sections\<close>

lemma SPB_section_ok:
  assumes "lean_ok cx c i srvc core" "lean_go_ok c g"
  shows "\<exists>core' effs g'. SPB_section cx core g = Some (core', effs, g') \<and>
    lean_ok cx c i srvc core' \<and> lean_effects_ok c effs \<and> pred_option (lean_go_ok c) g'"
proof -
  obtain view node t where g: "g = (view, node, t)" by (cases g) auto
  let ?s = "spb_at core view node"
  have s: "spb_ok c ?s" and st: "co_committee core = c" "co_nodeID core = i" "co_sigService core = srvc" "can_sign srvc"
      "has_key c i"
    using assms(1) by (simp_all add: lean_ok_def setup_ok_def)
  note put = lean_ok_put[OF assms(1)]
  show ?thesis
  proof (cases t)
    case (ProposeStart p)
    with assms(2) g have p: "propose_wf c p" by simp
    then obtain b where b: "pm_B p = Some b" by (auto simp: propose_wf_def split: option.splits)
    have "\<exists>s' nx. processProposeMsg_start cx ?s p = Some (s', nx) \<and> spb_ok c s' \<and> pred_option (task_ok c) nx"
      using p b s by (auto simp: processProposeMsg_start_def propose_wf_def spb_ok_def)
    then show ?thesis using ProposeStart g put
      by (fastforce simp: option.pred_map comp_def)
  next
    case (ProposeWake p)
    have "lean_effects_ok c (map (\<lambda>t. EGo (view, node, t)) (processProposeMsg_wake ?s p))"
      using s by (auto simp: processProposeMsg_wake_def spb_ok_def list_all_iff)
    then show ?thesis using ProposeWake g assms by simp
  next
    case (ProposeVote p)
    with assms(2) g have p: "propose_wf c p" by simp
    then obtain b where b: "pm_B p = Some b" "in_heights (b_Height b)" by (auto simp: propose_wf_def split: option.splits)
    obtain v where v: "NewVoteMsg cx srvc i b = Some v"
      using New_msg_panics(2)[of cx srvc i b] st(4) by (cases "NewVoteMsg cx srvc i b") auto
    then have "msg_wf c (VoteM v)" using NewVoteMsg_fields[OF v] b st by simp
    then show ?thesis using ProposeVote g assms b v st by (simp add: processProposeMsg_vote_def)
  next
    case (VoteStart v)
    with assms(2) g have v: "in_heights (vm_Height v)" by simp
    have "\<exists>s' nx. processVoteMsg_start c ?s v = Some (s', nx) \<and> spb_ok c s' \<and> pred_option (task_ok c) nx"
      using v s by (simp add: processVoteMsg_start_def spb_ok_def Let_def)
    then show ?thesis using VoteStart g put st by (fastforce simp: option.pred_map comp_def)
  next
    case (VoteQuorum v)
    have "\<exists>core' effs. processVoteMsg_quorum cx core ?s v = Some (core', effs)"
      using st by (cases "processVoteMsg_quorum cx core ?s v")
        (auto simp: processVoteMsg_quorum_def Let_def Option.bind_eq_None_conv elim!: generatorBlockE
          split: if_splits prod.splits)
    then obtain core' effs where q: "processVoteMsg_quorum cx core ?s v = Some (core', effs)" by blast
    from processVoteMsg_quorum_outcome[OF q] have "lean_ok cx c i srvc core' \<and> lean_effects_ok c effs"
    proof (elim disjE exE conjE)
      fix b pool p qc
      assume c: "core' = core\<lparr>co_txpool := pool\<rparr>"
        and gb: "generatorBlock core (vm_View v) HEIGHT_2 (Some qc) = (b, core')"
        and p: "NewProposeMsg cx (co_sigService core) b = Some p"
        and e: "effs = [ESend (co_nodeID core) NONE (ProposeM p), EEnq (ProposeM p)]"
      have "propose_wf c p" using NewProposeMsg_fields[OF p] gb st
        by (auto elim!: generatorBlockE simp: propose_wf_def in_heights_def)
      with c e assms(1) show ?thesis by simp
    next
      fix f qc
      assume "core' = core" and f: "NewFinVoteMsg cx (co_sigService core) (co_nodeID core) (spb_View ?s) qc = Some f"
        and e: "effs = [ESend (co_nodeID core) NONE (FinVoteM f), EEnq (FinVoteM f)]"
      with assms(1) NewFinVoteMsg_fields[OF f] st show ?thesis by simp
    qed
    then show ?thesis using VoteQuorum g q by simp
  next
    case (FinVoteStart fv)
    with assms(2) g have "fv_Qc fv \<noteq> None" by simp
    then have "\<exists>s' nx. processFinVoteMsg_start ?s fv = Some (s', nx) \<and> spb_ok c s' \<and> pred_option (task_ok c) nx"
      using s by (auto simp: processFinVoteMsg_start_def spb_ok_def)
    then show ?thesis using FinVoteStart g put by (fastforce simp: option.pred_map comp_def)
  next
    case (FinVoteSend fv)
    with assms(2) g obtain qc where qc: "fv_Qc fv = Some qc" by auto
    obtain v where v: "NewSpeedVoteMsg cx srvc i qc = Some v"
      using New_msg_panics(4)[of cx srvc i qc] st(4) by (cases "NewSpeedVoteMsg cx srvc i qc") auto
    then show ?thesis using FinVoteSend g assms(1) qc st NewSpeedVoteMsg_fields[OF v]
      by (simp add: processFinVoteMsg_send_def)
  next
    case (SpeedVoteStart sv)
    obtain s' nx where n: "processSpeedVoteMsg_start c ?s sv = (s', nx)" by (cases "processSpeedVoteMsg_start c ?s sv")
    then have "spb_ok c s'" "pred_option (task_ok c) nx"
      using s by (auto simp: processSpeedVoteMsg_start_def spb_ok_def Let_def split: if_splits)
    then show ?thesis using SpeedVoteStart g put st n by (simp add: option.pred_map comp_def)
  next
    case SpeedVoteStore
    have "spb_ok c (processSpeedVoteMsg_store ?s)" using s by (simp add: processSpeedVoteMsg_store_def spb_ok_def)
    then show ?thesis using SpeedVoteStore g put by simp
  qed
qed

section \<open>No panic for well-formed messages\<close>

interpretation lean_safe: node_safe "lean_machine cx dx c" "msg_wf c" "\<lambda>core tr. lean_ok cx c i srvc core"
    "msg_wf c" "lean_go_ok c" "\<lambda>_ _. True" 
  for cx :: "'k crypto_ext" and dx :: "'db store_ext" and c i srvc
proof
  fix core :: "('k, 'db) Core" and inp core' effs err
  assume "lean_ok cx c i srvc core" "input_ok (msg_wf c) (\<lambda>_ _. True) inp"
    and "mc_handle (lean_machine cx dx c) core inp = Some (core', effs, err)"
  then show "lean_ok cx c i srvc core' \<and> lean_effects_ok c effs"
    using Core_handle_ok[of cx c i srvc core inp dx core' effs err] by (simp add: lean_machine_def)
next
  fix core :: "('k, 'db) Core" and g core' effs g'
  assume "lean_ok cx c i srvc core" "lean_go_ok c g"
    and "mc_section (lean_machine cx dx c) core g = Some (core', effs, g')"
  then show "lean_ok cx c i srvc core' \<and> lean_effects_ok c effs \<and> pred_option (lean_go_ok c) g'"
    using SPB_section_ok[of cx c i srvc core g] by (auto simp: lean_machine_def)
next
  fix core :: "('k, 'db) Core" and inp
  assume "lean_ok cx c i srvc core" "input_ok (msg_wf c) (\<lambda>_ _. True) inp"
  then show "mc_handle (lean_machine cx dx c) core inp \<noteq> None"
    using Core_handle_total[of cx c i srvc core inp dx] by (simp add: lean_machine_def)
next
  fix core :: "('k, 'db) Core" and g
  assume "lean_ok cx c i srvc core" "lean_go_ok c g"
  then show "mc_section (lean_machine cx dx c) core g \<noteq> None"
    using SPB_section_ok[of cx c i srvc core g] by (auto simp: lean_machine_def)
qed (auto simp: lean_machine_def Core_background_def msg_wf_consensus)

lemma Core_boot_ok:
  assumes "setup_ok cx c i srvc" "Core_boot cx (NewCore i c pr pool db srvc) = Some (core, effs)"
  shows "lean_ok cx c i srvc core \<and> lean_effects_ok c effs"
proof (cases "Faults pr \<le> i")
  case True
  from Core_boot_outcome[OF assms(2) this] obtain pool' b p where
    core: "core = (NewCore i c pr pool db srvc)\<lparr>co_txpool := pool'\<rparr>" and p: "NewProposeMsg cx srvc b = Some p"
    and b: "b_Author b = i" "b_Height b = HEIGHT_1" and effs: "effs = [ESend i NONE (ProposeM p), EEnq (ProposeM p)]"
    by blast
  have "propose_wf c p" using NewProposeMsg_fields[OF p] b assms(1)
    by (auto simp: propose_wf_def in_heights_def setup_ok_def)
  then show ?thesis using assms(1) core effs
    by (simp add: lean_ok_def) (simp add: NewCore_def NewElector_def spb_at_def)
next
  case False
  then show ?thesis using assms
    by (auto simp: Core_boot_def NewCore_def NewElector_def lean_ok_def spb_at_def)
qed

text \<open>
  A lean node whose own keys are in order never panics, however the goroutines interleave, as
  long as the network delivers well-formed messages only: authors with a key in the
  committee, heights and levels in range, and the blocks and certificates the code follows
  present. No assumption is made on the senders, on signatures or on views.
\<close>

theorem lean_never_panics:
  assumes "setup_ok cx c i srvc" "Core_boot cx (NewCore i c pr pool db srvc) = Some (core, effs)"
    and "node_run (lean_machine cx dx c) (msg_wf c) (boot_node core effs) tr nd"
  shows "nd_alive nd"
  using lean_safe.run_alive[OF assms(3), of i srvc] Core_boot_ok[OF assms(1,2)] by simp

theorem lean_never_panics_witness:
  "\<exists>tr nd. node_run sample_lean (msg_wf (sample_committee 4))
      (boot_node (sample_core 0) [ESend 0 NONE (ProposeM sample_first), EEnq (ProposeM sample_first)]) tr nd \<and>
    height1_views tr = [1] \<and> nd_alive nd"
proof -
  obtain nd tr where x: "exec sample_lean [Deliver (ReportM (sample_report 2 0 LEVEL_2)), Main, Main, Main]
     (boot_node (sample_core 0) [ESend 0 NONE (ProposeM sample_first), EEnq (ProposeM sample_first)]) = Some (nd, tr)"
      "height1_views tr = [1]"
    using sample_lean_report by blast
  have run: "node_run sample_lean (msg_wf (sample_committee 4))
      (boot_node (sample_core 0) [ESend 0 NONE (ProposeM sample_first), EEnq (ProposeM sample_first)]) tr nd"
    by (rule exec_run[OF x(1)]) (simp_all add: boot_node_def)
  have "nd_alive nd"
    using lean_never_panics[OF sample_setup sample_boot[unfolded sample_core_def] run[unfolded sample_lean_def sample_core_def]]
    by simp
  with run x(2) show ?thesis by (intro exI conjI)
qed

section \<open>Messages that crash a handler\<close>

text \<open>The panics of the main goroutine, message by message.\<close>

fun lean_crash :: "'k crypto_ext \<Rightarrow> ('k, 'db) Core \<Rightarrow> msg \<Rightarrow> bool" where
  "lean_crash cx core (ProposeM p) \<longleftrightarrow>
     pm_B p = None \<or> \<not> has_key (co_committee core) (pm_Author p) \<or>
     ProposeMsg_Verify cx (co_committee core) p = Some True \<and>
       (\<exists>d r. pm_DocG p = Some d \<and> r \<in> set (dg_Shares d) \<and> \<not> has_key (co_committee core) (rm_Author r))"
| "lean_crash cx core (VoteM v) \<longleftrightarrow> co_view core \<le> vm_View v \<and> \<not> has_key (co_committee core) (vm_Author v)"
| "lean_crash cx core (FinVoteM f) \<longleftrightarrow> co_view core \<le> fv_View f \<and> \<not> has_key (co_committee core) (fv_Author f)"
| "lean_crash cx core (SpeedVoteM v) \<longleftrightarrow> co_view core \<le> sv_View v \<and> \<not> has_key (co_committee core) (sv_Author v)"
| "lean_crash cx core (ElectM e) \<longleftrightarrow> e = None"
| "lean_crash cx core (RandomCoinM m) \<longleftrightarrow> \<not> has_key (co_committee core) (rc_Author m)"
| "lean_crash cx core (ReportM r) \<longleftrightarrow> co_view core \<le> rm_View r \<and>
     (\<not> has_key (co_committee core) (rm_Author r) \<or>
      ReportMsg_Verify cx (co_committee core) r = Some True \<and> 3 \<le> rm_Level r)"
| "lean_crash cx core (DocGQCM d) \<longleftrightarrow> False"

fun task_crash :: "SPB \<Rightarrow> spb_task \<Rightarrow> bool" where
  "task_crash s (ProposeStart p) \<longleftrightarrow>
     pm_Height p = HEIGHT_1 \<and> pm_B p = None \<or>
     pm_Height p = HEIGHT_2 \<and> (case pm_B p of None \<Rightarrow> True | Some b \<Rightarrow> b_Qc b = None)"
| "task_crash s (ProposeVote p) \<longleftrightarrow> pm_B p = None"
| "task_crash s (VoteStart v) \<longleftrightarrow> \<not> in_heights (vm_Height v)"
| "task_crash s (FinVoteStart f) \<longleftrightarrow> fv_Author f = spb_Proposer s \<and> fv_View f = spb_View s \<and> fv_Qc f = None"
| "task_crash s (FinVoteSend f) \<longleftrightarrow> fv_Qc f = None"
| "task_crash s _ \<longleftrightarrow> False"

lemma verify_None:
  "VoteMsg_Verify cx c v = None \<longleftrightarrow> \<not> has_key c (vm_Author v)"
  "FinVoteMsg_Verify cx c f = None \<longleftrightarrow> \<not> has_key c (fv_Author f)"
  "SpeedVoteMsg_Verify cx c sv = None \<longleftrightarrow> \<not> has_key c (sv_Author sv)"
  "RandomCoinMsg_Verify cx c m = None \<longleftrightarrow> \<not> has_key c (rc_Author m)"
  "ReportMsg_Verify cx c r = None \<longleftrightarrow> \<not> has_key c (rm_Author r)"
  "ProposeMsg_Verify cx c p = None \<longleftrightarrow> pm_B p = None \<or> \<not> has_key c (pm_Author p)"
  by (auto simp: has_key_def VoteMsg_Verify_def FinVoteMsg_Verify_def SpeedVoteMsg_Verify_def
      RandomCoinMsg_Verify_def ReportMsg_Verify_def ProposeMsg_Verify_def ProposeMsg_Hash_def Signature_Verify_def
      split: option.splits)

lemma verify_shares_None: "verify_shares cx c rs = None \<longleftrightarrow> (\<exists>r \<in> set rs. \<not> has_key c (rm_Author r))"
  by (induction rs) (auto simp: Option.bind_eq_None_conv verify_None)

lemma verified_None: "verified ok e s k = None \<longleftrightarrow> ok = None \<or> ok = Some True \<and> k = None"
  by (auto simp: verified_def split: option.split bool.split)

lemma handleProposeMsg_None:
  "handleProposeMsg cx dx core p = None \<longleftrightarrow> lean_crash cx core (ProposeM p)"
proof -
  have "(do { b \<leftarrow> pm_B p; case storeBlock cx dx (co_store core) b of
      (Some err, db) \<Rightarrow> Some (core\<lparr>co_store := db\<rparr>, [], Some err)
    | (None, db) \<Rightarrow> (let core1 = core\<lparr>co_store := db\<rparr> in
        if messageFilter core1 (pm_View p) then Some (core1, [], None)
        else Some (getSpbInstance (pm_View p) (pm_Author p) core1,
          [EGo (pm_View p, pm_Author p, ProposeStart p)], None)) }) = None \<longleftrightarrow> pm_B p = None"
    by (auto simp: Option.bind_eq_None_conv Let_def split: prod.split option.split)
  moreover have "(case pm_DocG p of None \<Rightarrow> Some True | Some d \<Rightarrow> DocGQCMsg_Verify cx (co_committee core) d) = None \<longleftrightarrow>
      (\<exists>d r. pm_DocG p = Some d \<and> r \<in> set (dg_Shares d) \<and> \<not> has_key (co_committee core) (rm_Author r))"
    by (auto simp: DocGQCMsg_Verify_def Option.bind_eq_None_conv verify_shares_None split: option.split)
  ultimately show ?thesis
    unfolding handleProposeMsg_def verified_None by (auto simp: verify_None)
qed

text \<open>
  C32. The panics of a lean node, exactly: a handler of the main goroutine panics iff the message
  satisfies \<open>lean_crash\<close> (an author without a key, a proposal without block, a justification with
  a share of an unknown author, a nil election message, a report level above 2), and a section of another
  goroutine iff its task satisfies \<open>task_crash\<close> (a height-2 proposal or a final vote without
  certificate, a vote height above 1).
\<close>

theorem lean_panics_iff:
  assumes "lean_ok cx c i srvc core"
  shows "(Core_handle cx dx core (InMsg m) = None \<longleftrightarrow> lean_crash cx core m) \<and>
    (SPB_section cx core (view, node, t) = None \<longleftrightarrow> task_crash (spb_at core view node) t)"
proof
  have st: "co_committee core = c" "co_nodeID core = i" "co_sigService core = srvc" "can_sign srvc"
    using assms by (simp_all add: lean_ok_def setup_ok_def)
  show "Core_handle cx dx core (InMsg m) = None \<longleftrightarrow> lean_crash cx core m"
  proof (cases "msg_wf c m")
    case True
    then have "Core_handle cx dx core (InMsg m) \<noteq> None" using Core_handle_total[OF assms, of "InMsg m" dx] by simp
    moreover have "\<not> lean_crash cx core m" using True st
      by (cases m) (auto simp: propose_wf_def not_le split: option.splits)
    ultimately show ?thesis by simp
  next
    case False
    show ?thesis
    proof (cases m)
      case (ProposeM p)
      then show ?thesis by (simp only: Core_handle.simps handleProposeMsg_None)
    next
      case (VoteM v)
      then show ?thesis by (auto simp: handleVoteMsg_def verified_None verify_None messageFilter_def not_less)
    next
      case (FinVoteM fv)
      obtain m where "elect_effects cx srvc i (fv_View fv) = Some [ESend i NONE (ElectM (Some m)), EEnq (ElectM (Some m)) :: lean_go effect]"
        using setup_elect_effects[of cx c i srvc "fv_View fv"] assms by (auto simp: lean_ok_def)
      with FinVoteM st show ?thesis
        by (auto simp: handleFinVoteMsg_def verified_None verify_None messageFilter_def not_less Let_def)
    next
      case (SpeedVoteM sv)
      then show ?thesis by (auto simp: handleSpeedVoteMsg_def verified_None verify_None messageFilter_def not_less)
    next
      case (ElectM e)
      then show ?thesis using False by (simp add: handleElectMsg_def)
    next
      case (RandomCoinM rc)
      then show ?thesis using processCoin_total[OF assms, of dx "rc_Leader rc" "rc_View rc"]
        by (auto simp: handleCoinMsg_def verified_None verify_None)
    next
      case (ReportM r)
      then show ?thesis using False st
        by (auto simp: handleReportMsg_def verified_None verify_None messageFilter_def not_less)
    next
      case (DocGQCM d)
      then show ?thesis by simp
    qed
  qed
  show "SPB_section cx core (view, node, t) = None \<longleftrightarrow> task_crash (spb_at core view node) t"
  proof (cases t)
    case (VoteQuorum v)
    then show ?thesis using SPB_section_ok[OF assms, of "(view, node, t)"] by auto
  qed (use st in \<open>auto simp: processProposeMsg_start_def processProposeMsg_vote_def processVoteMsg_start_def
      processFinVoteMsg_start_def processFinVoteMsg_send_def Option.bind_eq_None_conv Let_def
      split: option.split prod.splits\<close>)
qed

text \<open>Node 0, a vote of height 2 and a report of level 3, both signed by node 2.\<close>

theorem lean_panics_iff_witness:
  "Core_handle sample_cx (sample_dx []) (sample_core 0) (InMsg (ReportM (sample_report 2 0 3))) = None \<and>
   SPB_section sample_cx (sample_core 0) (0, 0, VoteStart (sample_vote 2 0 [] 0 2)) = None \<and>
   SPB_section sample_cx (sample_core 0) (0, 0, VoteStart (sample_vote 2 0 [] 0 1)) \<noteq> None"
proof -
  have ok: "lean_ok sample_cx (sample_committee 4) 0 sample_service (sample_core 0)"
    using Core_boot_ok[OF sample_setup sample_boot[unfolded sample_core_def]] by (simp add: sample_core_def)
  have "co_committee (sample_core 0) = sample_committee 4" "co_view (sample_core 0) = 0"
    by (simp_all add: sample_core_def NewCore_def)
  then show ?thesis
    using lean_panics_iff[OF ok, of "sample_dx []" "ReportM (sample_report 2 0 3)" 0 0 "VoteStart (sample_vote 2 0 [] 0 2)"]
      lean_panics_iff[OF ok, of "sample_dx []" "ReportM (sample_report 2 0 3)" 0 0 "VoteStart (sample_vote 2 0 [] 0 1)"]
    by (simp add: in_heights_def)
qed

text \<open>
  Any member of the committee can stop a lean node with one message: a correctly signed vote
  of a height above 1, delivered to a node that has just booted, has a run in which the node
  panics.
\<close>

theorem lean_vote_kills_node:
  assumes "setup_ok cx c i srvc" "Core_boot cx (NewCore i c pr pool db srvc) = Some (core, effs)" "Faults pr \<le> i"
    and "VoteMsg_Verify cx c v = Some True" "\<not> in_heights (vm_Height v)" "0 \<le> vm_View v"
  shows "\<exists>tr nd. node_run (lean_machine cx dx c) (\<lambda>m. m = VoteM v) (boot_node core effs) tr nd \<and> \<not> nd_alive nd"
proof -
  obtain pool' p where core: "core = (NewCore i c pr pool db srvc)\<lparr>co_txpool := pool'\<rparr>"
      and effs: "effs = [ESend i NONE (ProposeM p), EEnq (ProposeM p)]"
    using Core_boot_outcome[OF assms(2,3)] by blast
  have c: "co_committee core = c" "co_view core = 0" by (simp_all add: core NewCore_def)
  let ?g = "(vm_View v, vm_Proposer v, VoteStart v)"
  obtain nd tr where x: "exec (lean_machine cx dx c) [Deliver (VoteM v), Main, Main, Main, Main] (boot_node core effs) = Some (nd, tr)"
      and nd: "nd_gos nd = [([], Some ?g)]" "nd_alive nd"
    using assms(4,6) c effs
    by (simp add: boot_node_def recv_cap_def send_cap_def lean_machine_def handleVoteMsg_def messageFilter_def verified_def)
  have "node_run (lean_machine cx dx c) (\<lambda>m. m = VoteM v) (boot_node core effs) tr nd"
    by (rule exec_run[OF x]) (simp_all add: boot_node_def)
  moreover have "node_step (lean_machine cx dx c) (\<lambda>m. m = VoteM v) nd [] (nd\<lparr>nd_alive := False\<rparr>)"
    using nd assms(5)
    by (intro node_step.go_panic[where i = 0 and g = ?g]) (simp_all add: lean_machine_def processVoteMsg_start_def)
  ultimately have "node_run (lean_machine cx dx c) (\<lambda>m. m = VoteM v) (boot_node core effs) (tr @ []) (nd\<lparr>nd_alive := False\<rparr>)"
    by (rule node_run.more)
  moreover have "\<not> nd_alive (nd\<lparr>nd_alive := False\<rparr>)" by simp
  ultimately show ?thesis by (intro exI conjI)
qed

theorem lean_vote_kills_node_witness:
  "\<exists>tr nd. node_run sample_lean (\<lambda>m. m = VoteM (sample_vote 3 1 [] 0 2))
      (boot_node (sample_core 0) [ESend 0 NONE (ProposeM sample_first), EEnq (ProposeM sample_first)]) tr nd \<and> \<not> nd_alive nd"
  using lean_vote_kills_node[OF sample_setup sample_boot[unfolded sample_core_def], of "sample_vote 3 1 [] 0 2"]
  by (simp add: sample_lean_def sample_core_def in_heights_def)

end
