(* ===== verification/Lean_Votes.thy ===== *)
theory Lean_Votes
  imports Lean_Panics Gate
begin

text \<open>
  The vote counters of the lean protocol. The counter of an instance and height fires at most
  once in \<open>2 ^ 32\<close> sections; but it counts messages and not voters, and does not look at the digest
  voted for, so one member can make a node certify anything.
\<close>

section \<open>The counter fires once\<close>

text \<open>The section of \<open>g\<close> passes the quorum of height \<open>h\<close> on the instance of \<open>view\<close> and \<open>node\<close>.\<close>

definition passes_quorum :: "'k crypto_ext \<Rightarrow> int \<Rightarrow> node_id \<Rightarrow> 8 word \<Rightarrow> ('k, 'db) Core \<Rightarrow> lean_go \<Rightarrow> bool" where
  "passes_quorum cx view node h core g \<longleftrightarrow>
     (case g of
        (v, n, VoteStart m) \<Rightarrow>
          v = view \<and> n = node \<and> vm_Height m = h \<and>
          (case SPB_section cx core g of Some (core', effs, Some g') \<Rightarrow> True | _ \<Rightarrow> False)
      | _ \<Rightarrow> False)"

text \<open>The state after a section, or the same if it panics; and the quorums of a sequence of sections.\<close>

definition after_section :: "'k crypto_ext \<Rightarrow> ('k, 'db) Core \<Rightarrow> lean_go \<Rightarrow> ('k, 'db) Core" where
  "after_section cx core g = (case SPB_section cx core g of None \<Rightarrow> core | Some (core', effs, g') \<Rightarrow> core')"

fun quorums_passed :: "'k crypto_ext \<Rightarrow> int \<Rightarrow> node_id \<Rightarrow> 8 word \<Rightarrow> ('k, 'db) Core \<Rightarrow> lean_go list \<Rightarrow> nat" where
  "quorums_passed cx view node h core [] = 0"
| "quorums_passed cx view node h core (g # gs) =
     (if passes_quorum cx view node h core g then 1 else 0) +
     quorums_passed cx view node h (after_section cx core g) gs"

lemma after_section_votes:
  "spb_voteNums (spb_at (after_section cx core g) view node) h =
     (case g of
        (v, n, VoteStart m) \<Rightarrow>
          if v = view \<and> n = node \<and> vm_Height m = h \<and> in_heights h then spb_voteNums (spb_at core view node) h + 1
          else spb_voteNums (spb_at core view node) h
      | _ \<Rightarrow> spb_voteNums (spb_at core view node) h)"
proof -
  obtain v n t where g: "g = (v, n, t)" by (cases g) auto
  show ?thesis
  proof (cases t)
    case (VoteQuorum m)
    have "spb_at core' = spb_at core" if "processVoteMsg_quorum cx core s m = Some (core', effs)" for s core' effs
      using processVoteMsg_quorum_outcome[OF that] by auto
    then show ?thesis using g VoteQuorum by (auto simp: after_section_def Option.bind_eq_Some_conv split: option.splits)
  qed (auto simp: g after_section_def processProposeMsg_start_def processVoteMsg_start_def processFinVoteMsg_start_def
      processSpeedVoteMsg_start_def processSpeedVoteMsg_store_def processProposeMsg_vote_def processFinVoteMsg_send_def
      Option.bind_eq_Some_conv Let_def split: option.splits prod.splits if_splits)
qed

lemma after_section_committee [simp]: "co_committee (after_section cx core g) = co_committee core"
proof -
  obtain v n t where g: "g = (v, n, t)" by (cases g) auto
  show ?thesis
  proof (cases t)
    case (VoteQuorum m)
    then show ?thesis using g
      by (auto simp: after_section_def Option.bind_eq_Some_conv dest!: processVoteMsg_quorum_outcome split: option.splits)
  qed (auto simp: g after_section_def Option.bind_eq_Some_conv split: option.splits prod.splits)
qed

lemma passes_quorum_at:
  assumes "passes_quorum cx view node h core g"
  shows "spb_voteNums (spb_at (after_section cx core g) view node) h = threshold32 (co_committee core) \<and>
    spb_voteNums (spb_at core view node) h + 1 = threshold32 (co_committee core)"
proof -
  obtain m where g: "g = (view, node, VoteStart m)" "vm_Height m = h"
    using assms by (auto simp: passes_quorum_def split: prod.splits spb_task.splits)
  then show ?thesis using assms
    by (auto simp: passes_quorum_def after_section_votes processVoteMsg_start_def Let_def
        split: option.splits if_splits)
qed

interpretation lean_gate: one_shot_gate "after_section cx :: ('k, 'db) Core \<Rightarrow> lean_go \<Rightarrow> ('k, 'db) Core"
    "\<lambda>core g. co_committee core = c \<and> passes_quorum cx view node h core g"
    "\<lambda>core. unat (spb_voteNums (spb_at core view node) h)" "unat (threshold32 c)" "2 ^ 32" for cx c view node h
proof
  fix core :: "('k, 'db) Core" and g
  have inc: "unat (x + 1) = (unat x + 1) mod 2 ^ 32" for x :: "32 word" by (simp add: unat_word_ariths)
  show "unat (spb_voteNums (spb_at core view node) h) mod 2 ^ 32 = unat (spb_voteNums (spb_at core view node) h)"
    using unsigned_less[where ?'a = nat, of "spb_voteNums (spb_at core view node) h"] by simp
  show "unat (spb_voteNums (spb_at (after_section cx core g) view node) h) = unat (spb_voteNums (spb_at core view node) h) \<or>
      unat (spb_voteNums (spb_at (after_section cx core g) view node) h) =
        (unat (spb_voteNums (spb_at core view node) h) + 1) mod 2 ^ 32"
    unfolding after_section_votes inc[symmetric] by (auto split: prod.splits spb_task.splits)
  show "co_committee core = c \<and> passes_quorum cx view node h core g \<Longrightarrow>
      unat (spb_voteNums (spb_at (after_section cx core g) view node) h) = unat (threshold32 c) \<and>
      unat (spb_voteNums (spb_at (after_section cx core g) view node) h) =
        (unat (spb_voteNums (spb_at core view node) h) + 1) mod 2 ^ 32"
    unfolding inc[symmetric] using passes_quorum_at[of cx view node h core g] by auto
qed

lemma quorums_passed_gate:
  "quorums_passed cx view node h core gs = lean_gate.gate_fires cx (co_committee core) view node h core gs"
proof (induction gs arbitrary: core)
  case (Cons g gs)
  then show ?case using Cons.IH[of "after_section cx core g"] by simp
qed simp

text \<open>
  C33. However the goroutines of an instance interleave, the votes of one height pass the quorum at
  most once in any \<open>2 ^ 32\<close> sections: the node makes at most one certificate per view, proposer
  and height. (The bound is where the \<open>int32\<close> counter would come back to the threshold.)
\<close>

theorem lean_quorum_once:
  assumes "length gs \<le> 2 ^ 32"
  shows "quorums_passed cx view node h core gs \<le> 1"
  using lean_gate.fires_at_most_once[of gs cx "co_committee core" view node h core] assms
  by (simp add: quorums_passed_gate)

text \<open>Five votes at a node of a committee of four: the third passes the quorum, the others do not.\<close>

theorem lean_quorum_once_witness:
  "quorums_passed sample_cx 0 0 HEIGHT_1 (sample_core 0) (replicate 5 (0, 0, VoteStart (sample_vote 2 0 [] 0 HEIGHT_1))) = 1"
proof -
  let ?gs = "replicate 5 (0, 0, VoteStart (sample_vote 2 0 [] 0 HEIGHT_1)) :: lean_go list"
  have "co_committee (sample_core 0) = sample_committee 4" "spb_voteNums (spb_at (sample_core 0) 0 0) HEIGHT_1 = 0"
    by (simp_all add: sample_core_def NewCore_def spb_at_def NewSPB_def)
  moreover have "replicate 5 x = [x, x, x, x, x]" for x :: lean_go by (simp add: numeral_eq_Suc)
  ultimately have "1 \<le> quorums_passed sample_cx 0 0 HEIGHT_1 (sample_core 0) ?gs"
    by (simp add: passes_quorum_def after_section_def processVoteMsg_start_def in_heights_def Let_def)
  with lean_quorum_once[of ?gs sample_cx 0 0 HEIGHT_1 "sample_core 0"] show ?thesis by simp
qed

section \<open>The counter counts messages\<close>

abbreviation vote_count :: "('k, 'db) Core \<Rightarrow> VoteMsg \<Rightarrow> 32 word" where
  "vote_count core v \<equiv> spb_voteNums (spb_at core (vm_View v) (vm_Proposer v)) (vm_Height v)"

definition count_vote :: "VoteMsg \<Rightarrow> ('k, 'db) Core \<Rightarrow> ('k, 'db) Core" where
  "count_vote v core =
     (let s = spb_at core (vm_View v) (vm_Proposer v)
      in put_spb (vm_View v) (vm_Proposer v) (s\<lparr>spb_voteNums := (spb_voteNums s)(vm_Height v := vote_count core v + 1)\<rparr>)
           (getSpbInstance (vm_View v) (vm_Proposer v) core))"

lemma count_vote_sel [simp]:
  "co_nodeID (count_vote v core) = co_nodeID core" "co_view (count_vote v core) = co_view core"
  "co_committee (count_vote v core) = co_committee core" "co_sigService (count_vote v core) = co_sigService core"
  by (simp_all add: count_vote_def Let_def)

lemma count_vote_count [simp]:
  "vote_count (count_vote v core) w =
     (if vm_View w = vm_View v \<and> vm_Proposer w = vm_Proposer v \<and> vm_Height w = vm_Height v then vote_count core v + 1
      else vote_count core w)"
  by (auto simp: count_vote_def Let_def)

lemma count_vote_instance [simp]:
  "spb_View (spb_at (count_vote v core) x y) = spb_View (spb_at core x y)"
  by (auto simp: count_vote_def Let_def)

text \<open>A vote is acceptable to a node.\<close>

definition acceptable :: "'k crypto_ext \<Rightarrow> ('k, 'db) Core \<Rightarrow> VoteMsg \<Rightarrow> bool" where
  "acceptable cx core v \<longleftrightarrow>
     VoteMsg_Verify cx (co_committee core) v = Some True \<and> co_view core \<le> vm_View v \<and> vm_Height v = HEIGHT_1"

lemma deliver_vote:
  assumes "idle nd" "acceptable cx (nd_core nd) v" "net (VoteM v)"
  shows "\<exists>tr nd'. node_run (lean_machine cx dx c) net nd tr nd' \<and> idle nd' \<and> sent_proposals tr = [] \<and>
    nd_core nd' = count_vote v (nd_core nd) \<and>
    nd_gos nd' = nd_gos nd @ [([], if vote_count (nd_core nd) v + 1 = threshold32 (co_committee (nd_core nd))
        then Some (vm_View v, vm_Proposer v, VoteQuorum v) else None)]"
proof -
  let ?nd' = "nd\<lparr>nd_core := count_vote v (nd_core nd),
      nd_gos := nd_gos nd @ [([], if vote_count (nd_core nd) v + 1 = threshold32 (co_committee (nd_core nd))
        then Some (vm_View v, vm_Proposer v, VoteQuorum v) else None)]\<rparr>"
  have x: "exec (lean_machine cx dx c) [Deliver (VoteM v), Main, Main, Go (length (nd_gos nd))] nd =
      Some (?nd', [EGo (vm_View v, vm_Proposer v, VoteStart v)])"
    using assms(1,2)
    by (simp add: idle_def acceptable_def recv_cap_def lean_machine_def handleVoteMsg_def messageFilter_def not_less
        verified_def processVoteMsg_start_def in_heights_def Let_def count_vote_def nth_append)
  show ?thesis
  proof (intro exI conjI)
    show "node_run (lean_machine cx dx c) net nd [EGo (vm_View v, vm_Proposer v, VoteStart v)] ?nd'"
      by (rule exec_run[OF x]) (use assms in \<open>simp_all add: idle_def\<close>)
  qed (use assms(1) in \<open>simp_all add: idle_def\<close>)
qed

lemma acceptable_count [simp]: "acceptable cx (count_vote w core) v = acceptable cx core v"
  by (simp add: acceptable_def)

lemma count_votes [simp]:
  "vote_count ((count_vote v ^^ n) core) w =
     (if vm_View w = vm_View v \<and> vm_Proposer w = vm_Proposer v \<and> vm_Height w = vm_Height v then vote_count core v + of_nat n
      else vote_count core w)"
  "acceptable cx ((count_vote v ^^ n) core) w = acceptable cx core w"
  "co_committee ((count_vote v ^^ n) core) = co_committee core" "co_sigService ((count_vote v ^^ n) core) = co_sigService core"
  "co_nodeID ((count_vote v ^^ n) core) = co_nodeID core"
  by (induction n) (auto simp: add.assoc add.commute)

lemma deliver_votes:
  assumes "idle nd" "acceptable cx (nd_core nd) v" "net (VoteM v)"
  shows "\<exists>tr nd'. node_run (lean_machine cx dx c) net nd tr nd' \<and> idle nd' \<and> sent_proposals tr = [] \<and>
    nd_core nd' = (count_vote v ^^ n) (nd_core nd)"
proof (induction n)
  case 0
  then show ?case using assms(1) node_run.start by fastforce
next
  case (Suc n)
  then obtain tr nd' where 1: "node_run (lean_machine cx dx c) net nd tr nd'" "idle nd'" "sent_proposals tr = []"
      "nd_core nd' = (count_vote v ^^ n) (nd_core nd)" by blast
  obtain tr2 nd2 where 2: "node_run (lean_machine cx dx c) net nd' tr2 nd2" "idle nd2" "sent_proposals tr2 = []"
      "nd_core nd2 = count_vote v (nd_core nd')"
    using deliver_vote[of nd' cx v net dx c] 1 assms by auto
  have "node_run (lean_machine cx dx c) net nd (tr @ tr2) nd2" by (rule node_run_trans[OF 2(1) 1(1)])
  with 1 2 show ?case by (intro exI[of _ "tr @ tr2"] exI[of _ nd2]) simp
qed

lemma certify:
  assumes "idle nd" "acceptable cx (nd_core nd) v" "net (VoteM v)" "can_sign (co_sigService (nd_core nd))"
    and "vote_count (nd_core nd) v = 0" "threshold32 (co_committee (nd_core nd)) \<noteq> 0"
  shows "\<exists>tr nd' p b qc. node_run (lean_machine cx dx c) net nd tr nd' \<and> idle nd' \<and> sent_proposals tr = [p] \<and>
    pm_Height p = HEIGHT_2 \<and> pm_View p = vm_View v \<and> pm_B p = Some b \<and> b_Qc b = Some qc \<and>
    qc_Proposer qc = vm_Proposer v \<and> qc_ParentBlockHash qc = vm_BlockHash v \<and>
    (\<exists>pool. nd_core nd' =
       ((count_vote v ^^ unat (threshold32 (co_committee (nd_core nd)))) (nd_core nd))\<lparr>co_txpool := pool\<rparr>)"
proof -
  let ?m = "lean_machine cx dx c" and ?core = "nd_core nd"
  let ?t = "threshold32 (co_committee ?core)"
  let ?q = "(vm_View v, vm_Proposer v, VoteQuorum v)"
  obtain n where n: "unat ?t = Suc n" using assms(6) by (cases "unat ?t") (auto simp: unsigned_eq_0_iff)
  obtain tr nd1 where 1: "node_run ?m net nd tr nd1" "idle nd1" "sent_proposals tr = []" "nd_core nd1 = (count_vote v ^^ n) ?core"
    using deliver_votes[of nd cx v net dx c n] assms(1-3) by blast
  have "of_nat (unat ?t) = ?t" by simp
  then have t: "of_nat n + 1 = ?t" unfolding n by (simp add: add.commute)
  obtain tr2 nd2 where 2: "node_run ?m net nd1 tr2 nd2" "idle nd2" "sent_proposals tr2 = []"
      "nd_core nd2 = count_vote v (nd_core nd1)" "nd_gos nd2 = nd_gos nd1 @ [([], Some ?q)]"
    using deliver_vote[of nd1 cx v net dx c] 1 assms(2,3,5) t by auto
  let ?core2 = "nd_core nd2"
  obtain qc where qc: "qc = \<lparr>qc_View = spb_View (spb_at ?core2 (vm_View v) (vm_Proposer v)), qc_Height = vm_Height v,
      qc_Proposer = vm_Proposer v, qc_ParentBlockHash = vm_BlockHash v, qc_Shares = []\<rparr>" by simp
  obtain b core3 where g: "generatorBlock ?core2 (vm_View v) HEIGHT_2 (Some qc) = (b, core3)"
    by (cases "generatorBlock ?core2 (vm_View v) HEIGHT_2 (Some qc)")
  then obtain pool where core3: "core3 = ?core2\<lparr>co_txpool := pool\<rparr>"
      and b: "b_View b = vm_View v" "b_Height b = HEIGHT_2" "b_Qc b = Some qc"
    by (elim generatorBlockE) auto
  have "can_sign (co_sigService core3)" using core3 2(4) 1(4) assms(4) by simp
  then obtain p where p: "NewProposeMsg cx (co_sigService core3) b = Some p"
    by (cases "NewProposeMsg cx (co_sigService core3) b") auto
  let ?effs = "[ESend (co_nodeID core3) NONE (ProposeM p), EEnq (ProposeM p)] :: lean_go effect list"
  let ?nd3 = "nd2\<lparr>nd_core := core3, nd_gos := (nd_gos nd2)[length (nd_gos nd1) := (?effs, None)]\<rparr>"
  have sec: "mc_section ?m ?core2 ?q = Some (core3, ?effs, None)"
    using g p qc assms(2) by (simp add: lean_machine_def processVoteMsg_quorum_def acceptable_def Let_def)
  have step: "node_step ?m net nd2 ?effs ?nd3"
    by (rule node_step.go_section[OF _ _ _ sec]) (use 2 in \<open>simp_all add: idle_def nth_append\<close>)
  have "node_run ?m net nd ((tr @ tr2) @ ?effs) ?nd3"
    by (rule node_run.more[OF node_run_trans[OF 2(1) 1(1)] step])
  moreover have "sent_proposals ((tr @ tr2) @ ?effs) = [p]" "idle ?nd3" using 1 2 by (simp_all add: idle_def)
  moreover have "core3 = ((count_vote v ^^ unat ?t) ?core)\<lparr>co_txpool := pool\<rparr>"
    using n core3 1(4) 2(4) by simp
  moreover have "pm_Height p = HEIGHT_2" "pm_View p = vm_View v" "pm_B p = Some b"
    using NewProposeMsg_fields[OF p] b by auto
  ultimately show ?thesis using qc b(3)
    by (intro exI[of _ "(tr @ tr2) @ ?effs"] exI[of _ ?nd3] exI[of _ p] exI[of _ b] exI[of _ qc]) auto
qed

text \<open>
  C34. One member alone makes an honest node certify any two digests for one view and propose twice.
  Given two votes of the same author for the same view that name different proposers, an idle
  node that has counted no such votes has a run, with no other message than these two, in which it
  sends two height-2 proposals for that view, each with a certificate for the digest that
  vote names. Neither the number of distinct voters, nor the digest, nor whether the node proposed
  the block it certifies is checked.
\<close>

theorem lean_one_voter_equivocation:
  assumes "idle nd" "can_sign (co_sigService (nd_core nd))" "threshold32 (co_committee (nd_core nd)) \<noteq> 0"
    and "acceptable cx (nd_core nd) v" "acceptable cx (nd_core nd) w"
    and "vm_Author v = vm_Author w" "vm_View v = vm_View w" "vm_Proposer v \<noteq> vm_Proposer w"
    and "vote_count (nd_core nd) v = 0" "vote_count (nd_core nd) w = 0"
  shows "\<exists>tr nd' p p' b b' qc qc'.
    node_run (lean_machine cx dx c) (\<lambda>m. m \<in> {VoteM v, VoteM w}) nd tr nd' \<and> sent_proposals tr = [p, p'] \<and>
    pm_Height p = HEIGHT_2 \<and> pm_View p = vm_View v \<and> pm_B p = Some b \<and> b_Qc b = Some qc \<and>
    pm_Height p' = HEIGHT_2 \<and> pm_View p' = vm_View v \<and> pm_B p' = Some b' \<and> b_Qc b' = Some qc' \<and>
    qc_ParentBlockHash qc = vm_BlockHash v \<and> qc_ParentBlockHash qc' = vm_BlockHash w \<and> b \<noteq> b'"
proof -
  let ?net = "\<lambda>m. m \<in> {VoteM v, VoteM w}" and ?m = "lean_machine cx dx c"
  obtain tr nd1 p b qc pool where 1: "node_run ?m ?net nd tr nd1" "idle nd1" "sent_proposals tr = [p]"
      "pm_Height p = HEIGHT_2" "pm_View p = vm_View v" "pm_B p = Some b" "b_Qc b = Some qc"
      "qc_Proposer qc = vm_Proposer v" "qc_ParentBlockHash qc = vm_BlockHash v"
      and core1: "nd_core nd1 = ((count_vote v ^^ unat (threshold32 (co_committee (nd_core nd)))) (nd_core nd))\<lparr>co_txpool := pool\<rparr>"
    using certify[of nd cx v ?net dx c] assms by blast
  have "acceptable cx (nd_core nd1) w = acceptable cx ((count_vote v ^^ unat (threshold32 (co_committee (nd_core nd)))) (nd_core nd)) w"
    by (simp add: core1 acceptable_def)
  then have "acceptable cx (nd_core nd1) w" "vote_count (nd_core nd1) w = 0"
    using assms(5,8,10) by (simp_all add: core1)
  then obtain tr2 nd2 p' b' qc' where 2: "node_run ?m ?net nd1 tr2 nd2" "sent_proposals tr2 = [p']"
      "pm_Height p' = HEIGHT_2" "pm_View p' = vm_View w" "pm_B p' = Some b'" "b_Qc b' = Some qc'"
      "qc_Proposer qc' = vm_Proposer w" "qc_ParentBlockHash qc' = vm_BlockHash w"
    using certify[of nd1 cx w ?net dx c] 1(2) assms(2,3) core1 by auto
  have "node_run ?m ?net nd (tr @ tr2) nd2" by (rule node_run_trans[OF 2(1) 1(1)])
  moreover have "b \<noteq> b'" using 1 2 assms(8) by auto
  ultimately show ?thesis using 1 2 assms(7)
    by (intro exI[of _ "tr @ tr2"] exI[of _ nd2] exI[of _ p] exI[of _ p'] exI[of _ b] exI[of _ b'] exI[of _ qc] exI[of _ qc'])
       simp
qed

text \<open>Node 3 makes node 0 certify the digests \<open>[1]\<close> and \<open>[2]\<close>.\<close>

theorem lean_one_voter_equivocation_witness:
  "\<exists>tr nd p p'. node_run sample_lean (\<lambda>m. m \<in> {VoteM (sample_vote 3 0 [1] 0 HEIGHT_1), VoteM (sample_vote 3 1 [2] 0 HEIGHT_1)})
      (boot_node (sample_core 0) []) tr nd \<and> sent_proposals tr = [p, p'] \<and> pm_B p \<noteq> pm_B p' \<and> pm_View p = pm_View p'"
proof -
  let ?nd = "boot_node (sample_core 0) [] :: (_, lean_go) node"
  have s: "nd_core ?nd = sample_core 0" by (simp add: boot_node_def)
  have "idle ?nd" by (simp add: idle_def boot_node_def)
  moreover have "can_sign (co_sigService (sample_core 0))" "threshold32 (co_committee (sample_core 0)) \<noteq> 0"
    "acceptable sample_cx (sample_core 0) (sample_vote 3 0 [1] 0 HEIGHT_1)"
    "acceptable sample_cx (sample_core 0) (sample_vote 3 1 [2] 0 HEIGHT_1)"
    "vote_count (sample_core 0) (sample_vote 3 0 [1] 0 HEIGHT_1) = 0"
    "vote_count (sample_core 0) (sample_vote 3 1 [2] 0 HEIGHT_1) = 0"
    by (simp_all add: sample_core_def NewCore_def acceptable_def spb_at_def NewSPB_def)
  ultimately obtain tr nd' p p' b b' qc qc' where
    "node_run sample_lean (\<lambda>m. m \<in> {VoteM (sample_vote 3 0 [1] 0 HEIGHT_1), VoteM (sample_vote 3 1 [2] 0 HEIGHT_1)}) ?nd tr nd'"
    "sent_proposals tr = [p, p']" "pm_View p = 0" "pm_View p' = 0" "pm_B p = Some b" "pm_B p' = Some b'" "b \<noteq> b'"
    using lean_one_voter_equivocation[of ?nd sample_cx "sample_vote 3 0 [1] 0 HEIGHT_1" "sample_vote 3 1 [2] 0 HEIGHT_1"
        "sample_dx []" "sample_committee 4"]
    unfolding s sample_lean_def by auto
  then show ?thesis by (intro exI[of _ tr] exI[of _ nd'] exI[of _ p] exI[of _ p']) simp
qed

end
