(* ===== verification/Big_SPB.thy ===== *)
theory Big_SPB
  imports Protocol_Base
begin

text \<open>
  The instances of the big protocol, src/core/bigspb.go. Votes are broadcast and every node
  counts them; a vote counts only for the digest the node has received, and waits in a buffer
  otherwise. As in Lean_Core.thy a method is given as its critical sections. The sections
  work on the instance alone, so that the DAG variant, whose instances differ in two
  places, can use them too.
\<close>

section \<open>The instance\<close>

record BigSPB =
  bs_Proposer :: node_id
  bs_View :: int
  bs_preQc :: "BlockQC option"
  bs_blockHash :: "8 word \<Rightarrow> digest"
  bs_blockQcs :: "8 word \<Rightarrow> BlockQC option"
  bs_unHandlePropose :: "ProposeMsg list"
  bs_unHandleVote :: "8 word \<Rightarrow> VoteMsg list"
  bs_unHandleSpeedVote :: "SpeedVoteMsg list"
  bs_voteNums :: "8 word \<Rightarrow> 32 word"
  bs_speedVoteNums :: "32 word"
  bs_isSpeedCert :: bool

definition NewBigSPB :: "node_id \<Rightarrow> int \<Rightarrow> BigSPB" where
  "NewBigSPB proposer view =
     \<lparr>bs_Proposer = proposer, bs_View = view, bs_preQc = None, bs_blockHash = (\<lambda>_. zero_Digest),
      bs_blockQcs = (\<lambda>_. None), bs_unHandlePropose = [], bs_unHandleVote = (\<lambda>_. []), bs_unHandleSpeedVote = [],
      bs_voteNums = (\<lambda>_. 0), bs_speedVoteNums = 0, bs_isSpeedCert = False\<rparr>"

definition BigSPB_SpeedCert :: "BigSPB \<Rightarrow> bool" where
  "BigSPB_SpeedCert s = bs_isSpeedCert s"

definition BigSPB_DecCert :: "BigSPB \<Rightarrow> bool" where
  "BigSPB_DecCert s \<longleftrightarrow> bs_blockQcs s HEIGHT_1 \<noteq> None \<and> bs_blockQcs s HEIGHT_2 \<noteq> None"

definition BigSPB_BlockHash :: "BigSPB \<Rightarrow> 8 word \<Rightarrow> digest" where
  "BigSPB_BlockHash s height = (if height > HEIGHT_2 then zero_Digest else bs_blockHash s height)"

definition BigSPB_QCLEvel :: "BigSPB \<Rightarrow> 8 word \<times> BlockQC option" where
  "BigSPB_QCLEvel s =
     (if bs_blockQcs s HEIGHT_1 \<noteq> None \<and> bs_blockQcs s HEIGHT_2 \<noteq> None then (LEVEL_2, bs_blockQcs s HEIGHT_2)
      else if bs_blockQcs s HEIGHT_1 \<noteq> None then (LEVEL_1, bs_blockQcs s HEIGHT_1)
      else (LEVEL_0, bs_preQc s))"

section \<open>The methods of an instance\<close>

datatype big_task =
    BPropose ProposeMsg          \<comment> \<open>\<open>processProposeMsg\<close>, the section under \<open>hMutex\<close>\<close>
  | BProposeWake ProposeMsg      \<comment> \<open>the section under \<open>uMutex\<close>\<close>
  | BProposeVote ProposeMsg      \<comment> \<open>the vote\<close>
  | BVote VoteMsg                \<comment> \<open>\<open>processVoteMsg\<close>, the comparison with the digest\<close>
  | BVoteCount VoteMsg           \<comment> \<open>the atomic increment\<close>
  | BVoteQc VoteMsg              \<comment> \<open>storing the certificate\<close>
  | BVoteAct VoteMsg             \<comment> \<open>acting on it\<close>
  | BSpeedWake                   \<comment> \<open>waking the buffered speed votes\<close>
  | BSpeedVote SpeedVoteMsg      \<comment> \<open>\<open>processSpeedVoteMsg\<close>, the section under \<open>hMutex\<close>\<close>
  | BSpeedCount                  \<comment> \<open>the atomic increment\<close>
  | BSpeedStore                  \<comment> \<open>storing the flag\<close>

type_synonym big_go = "int \<times> node_id \<times> big_task"

definition BigSPB_propose_start :: "'k crypto_ext \<Rightarrow> BigSPB \<Rightarrow> ProposeMsg \<Rightarrow> (BigSPB \<times> big_task option) option" where
  "BigSPB_propose_start cx s p =
     (if pm_Height p = HEIGHT_1 then
        do { b \<leftarrow> pm_B p;
             Some (s\<lparr>bs_preQc := b_Qc b, bs_blockHash := (bs_blockHash s)(HEIGHT_1 := Block_Hash cx b)\<rparr>,
                   Some (BProposeWake p)) }
      else if pm_Height p = HEIGHT_2 then
        do { b \<leftarrow> pm_B p;
             qc \<leftarrow> b_Qc b;
             if bs_blockHash s HEIGHT_1 \<noteq> qc_ParentBlockHash qc
             then Some (s\<lparr>bs_unHandlePropose := bs_unHandlePropose s @ [p]\<rparr>, None)
             else Some (s\<lparr>bs_blockHash := (bs_blockHash s)(HEIGHT_2 := Block_Hash cx b)\<rparr>, Some (BProposeWake p)) }
      else Some (s, Some (BProposeVote p)))"

definition BigSPB_propose_wake :: "BigSPB \<Rightarrow> ProposeMsg \<Rightarrow> big_task list" where
  "BigSPB_propose_wake s p =
     (if pm_Height p = HEIGHT_1 then map BPropose (bs_unHandlePropose s) @ map BVote (bs_unHandleVote s HEIGHT_1)
      else if pm_Height p = HEIGHT_2 then map BVote (bs_unHandleVote s HEIGHT_2)
      else [])"

definition BigSPB_propose_vote ::
    "'k crypto_ext \<Rightarrow> 'k SigService \<Rightarrow> node_id \<Rightarrow> ProposeMsg \<Rightarrow> 'g effect list option" where
  "BigSPB_propose_vote cx srvc nodeID p =
     do { b \<leftarrow> pm_B p;
          vote \<leftarrow> NewVoteMsg cx srvc nodeID b;
          Some [ESend nodeID NONE (VoteM vote), EEnq (VoteM vote)] }"

definition BigSPB_vote_start :: "BigSPB \<Rightarrow> VoteMsg \<Rightarrow> (BigSPB \<times> big_task option) option" where
  "BigSPB_vote_start s v =
     (if \<not> in_heights (vm_Height v) then None
      else if bs_blockHash s (vm_Height v) \<noteq> vm_BlockHash v
      then Some (s\<lparr>bs_unHandleVote := (bs_unHandleVote s)(vm_Height v := bs_unHandleVote s (vm_Height v) @ [v])\<rparr>, None)
      else Some (s, Some (BVoteCount v)))"

definition BigSPB_vote_count :: "Committee \<Rightarrow> BigSPB \<Rightarrow> VoteMsg \<Rightarrow> BigSPB \<times> big_task option" where
  "BigSPB_vote_count c s v =
     (let nums = bs_voteNums s (vm_Height v) + 1 in
      (s\<lparr>bs_voteNums := (bs_voteNums s)(vm_Height v := nums)\<rparr>,
       if nums = threshold32 c then Some (BVoteQc v) else None))"

definition BigSPB_qc :: "BigSPB \<Rightarrow> VoteMsg \<Rightarrow> BlockQC" where
  "BigSPB_qc s v =
     \<lparr>qc_View = bs_View s, qc_Height = vm_Height v, qc_Proposer = vm_Proposer v,
      qc_ParentBlockHash = vm_BlockHash v, qc_Shares = []\<rparr>"

definition BigSPB_vote_qc :: "BigSPB \<Rightarrow> VoteMsg \<Rightarrow> BigSPB" where
  "BigSPB_vote_qc s v = s\<lparr>bs_blockQcs := (bs_blockQcs s)(vm_Height v \<mapsto> BigSPB_qc s v)\<rparr>"

text \<open>The speed vote for a height-2 certificate, and the speed votes that waited for it.\<close>

definition BigSPB_speed_send ::
    "'k crypto_ext \<Rightarrow> 'k SigService \<Rightarrow> node_id \<Rightarrow> BlockQC \<Rightarrow> 'g effect list option" where
  "BigSPB_speed_send cx srvc nodeID qc =
     do { sv \<leftarrow> NewSpeedVoteMsg cx srvc nodeID qc;
          Some [ESend nodeID NONE (SpeedVoteM sv), EEnq (SpeedVoteM sv)] }"

definition BigSPB_speed_wake :: "BigSPB \<Rightarrow> big_task list" where
  "BigSPB_speed_wake s = map BSpeedVote (bs_unHandleSpeedVote s)"

definition BigSPB_speed_start :: "BigSPB \<Rightarrow> SpeedVoteMsg \<Rightarrow> BigSPB \<times> big_task option" where
  "BigSPB_speed_start s sv =
     (if sv_Proposer sv \<noteq> bs_Proposer s \<or> sv_View sv \<noteq> bs_View s then (s, None)
      else if bs_blockQcs s HEIGHT_2 = None
      then (s\<lparr>bs_unHandleSpeedVote := bs_unHandleSpeedVote s @ [sv]\<rparr>, None)
      else (s, Some BSpeedCount))"

definition BigSPB_speed_count :: "Committee \<Rightarrow> BigSPB \<Rightarrow> BigSPB \<times> big_task option" where
  "BigSPB_speed_count c s =
     (let nums = bs_speedVoteNums s + 1 in
      (s\<lparr>bs_speedVoteNums := nums\<rparr>, if nums = threshold32 c then Some BSpeedStore else None))"

definition BigSPB_speed_store :: "BigSPB \<Rightarrow> BigSPB" where
  "BigSPB_speed_store s = s\<lparr>bs_isSpeedCert := True\<rparr>"

text \<open>
  One section of a goroutine of an instance: the new state of the instance, the effects and the
  point the goroutine goes to. What is done on a height-1 certificate needs the core and differs
  between the two protocols; here it is nothing.
\<close>

fun BigSPB_section ::
    "'k crypto_ext \<Rightarrow> Committee \<Rightarrow> node_id \<Rightarrow> 'k SigService \<Rightarrow> BigSPB \<Rightarrow> big_task \<Rightarrow>
     (BigSPB \<times> big_task effect list \<times> big_task option) option" where
  "BigSPB_section cx c i srvc s (BPropose p) =
     do { (s', nx) \<leftarrow> BigSPB_propose_start cx s p; Some (s', [], nx) }"
| "BigSPB_section cx c i srvc s (BProposeWake p) = Some (s, map EGo (BigSPB_propose_wake s p), Some (BProposeVote p))"
| "BigSPB_section cx c i srvc s (BProposeVote p) =
     do { effs \<leftarrow> BigSPB_propose_vote cx srvc i p; Some (s, effs, None) }"
| "BigSPB_section cx c i srvc s (BVote v) = do { (s', nx) \<leftarrow> BigSPB_vote_start s v; Some (s', [], nx) }"
| "BigSPB_section cx c i srvc s (BVoteCount v) =
     (case BigSPB_vote_count c s v of (s', nx) \<Rightarrow> Some (s', [], nx))"
| "BigSPB_section cx c i srvc s (BVoteQc v) = Some (BigSPB_vote_qc s v, [], Some (BVoteAct v))"
| "BigSPB_section cx c i srvc s (BVoteAct v) =
     (if vm_Height v = HEIGHT_2
      then do { effs \<leftarrow> BigSPB_speed_send cx srvc i (BigSPB_qc s v); Some (s, effs, Some BSpeedWake) }
      else Some (s, [], None))"
| "BigSPB_section cx c i srvc s BSpeedWake = Some (s, map EGo (BigSPB_speed_wake s), None)"
| "BigSPB_section cx c i srvc s (BSpeedVote sv) =
     (case BigSPB_speed_start s sv of (s', nx) \<Rightarrow> Some (s', [], nx))"
| "BigSPB_section cx c i srvc s BSpeedCount =
     (case BigSPB_speed_count c s of (s', nx) \<Rightarrow> Some (s', [], nx))"
| "BigSPB_section cx c i srvc s BSpeedStore = Some (BigSPB_speed_store s, [], None)"

section \<open>What a section does\<close>

text \<open>An instance keeps its proposer and view, and never sends proposals or reports itself.\<close>

lemma BigSPB_section_quiet:
  assumes "BigSPB_section cx c i srvc s t = Some (s', effs, nx)"
  shows "bs_Proposer s' = bs_Proposer s \<and> bs_View s' = bs_View s \<and> sent_proposals effs = [] \<and> sent_reports effs = []"
  using assms
  by (cases t)
     (auto simp: BigSPB_propose_start_def BigSPB_propose_vote_def BigSPB_vote_start_def BigSPB_vote_count_def
      BigSPB_vote_qc_def BigSPB_speed_send_def BigSPB_speed_start_def BigSPB_speed_count_def BigSPB_speed_store_def
      Option.bind_eq_Some_conv Let_def sent_EGo[where f = "\<lambda>t. t"] split: if_splits)

text \<open>
  Well-formed buffers and tasks; \<open>W\<close> says which proposals are, which the protocols do differently.
\<close>

definition bspb_ok :: "(ProposeMsg \<Rightarrow> bool) \<Rightarrow> BigSPB \<Rightarrow> bool" where
  "bspb_ok W s \<longleftrightarrow> (\<forall>p \<in> set (bs_unHandlePropose s). W p) \<and> (\<forall>h. \<forall>v \<in> set (bs_unHandleVote s h). in_heights (vm_Height v))"

fun big_task_ok :: "(ProposeMsg \<Rightarrow> bool) \<Rightarrow> big_task \<Rightarrow> bool" where
  "big_task_ok W (BPropose p) = W p"
| "big_task_ok W (BProposeWake p) = W p"
| "big_task_ok W (BProposeVote p) = W p"
| "big_task_ok W (BVote v) = in_heights (vm_Height v)"
| "big_task_ok W _ = True"

text \<open>Well-formed messages, with another notion of well-formed proposals.\<close>

fun msg_ok :: "(ProposeMsg \<Rightarrow> bool) \<Rightarrow> Committee \<Rightarrow> msg \<Rightarrow> bool" where
  "msg_ok W c (ProposeM p) = W p"
| "msg_ok W c m = msg_wf c m"

definition votable :: "ProposeMsg \<Rightarrow> bool" where
  "votable p \<longleftrightarrow> (case pm_B p of None \<Rightarrow> False | Some b \<Rightarrow> in_heights (b_Height b))"

abbreviation inst_effects_ok :: "(ProposeMsg \<Rightarrow> bool) \<Rightarrow> Committee \<Rightarrow> big_task effect list \<Rightarrow> bool" where
  "inst_effects_ok W c \<equiv> list_all (effect_ok (msg_ok W c) (big_task_ok W) (\<lambda>_ _. True))"

lemma bspb_ok_new [simp]: "bspb_ok W (NewBigSPB n v)"
  by (simp add: bspb_ok_def NewBigSPB_def)

lemma BigSPB_section_ok:
  assumes "bspb_ok W s" "big_task_ok W t" "can_sign srvc" "has_key c i" "\<And>p. W p \<Longrightarrow> votable p"
    and "\<And>p. t \<noteq> BPropose p"
  shows "\<exists>s' effs nx. BigSPB_section cx c i srvc s t = Some (s', effs, nx) \<and> bspb_ok W s' \<and>
    inst_effects_ok W c effs \<and> pred_option (big_task_ok W) nx"
proof (cases t)
  case (BProposeWake p)
  then show ?thesis using assms(1,2) by (auto simp: BigSPB_propose_wake_def bspb_ok_def list_all_iff)
next
  case (BProposeVote p)
  then obtain b where b: "pm_B p = Some b" "in_heights (b_Height b)"
    using assms(2) assms(5)[of p] by (auto simp: votable_def split: option.splits)
  obtain v where v: "NewVoteMsg cx srvc i b = Some v"
    using assms(3) by (cases "NewVoteMsg cx srvc i b") auto
  then show ?thesis using BProposeVote assms(1,4) b NewVoteMsg_fields[OF v] by (simp add: BigSPB_propose_vote_def)
next
  case (BVoteAct v)
  obtain sv where sv: "NewSpeedVoteMsg cx srvc i (BigSPB_qc s v) = Some sv"
    using assms(3) by (cases "NewSpeedVoteMsg cx srvc i (BigSPB_qc s v)") auto
  then show ?thesis using BVoteAct assms(1,4) NewSpeedVoteMsg_fields[OF sv] by (simp add: BigSPB_speed_send_def)
qed (use assms in \<open>auto simp: BigSPB_vote_start_def BigSPB_vote_count_def BigSPB_vote_qc_def BigSPB_speed_wake_def
      BigSPB_speed_start_def BigSPB_speed_count_def BigSPB_speed_store_def bspb_ok_def Let_def list_all_iff\<close>)

lemma BigSPB_propose_ok:
  assumes "bspb_ok (propose_wf c) s" "propose_wf c p"
  shows "\<exists>s' nx. BigSPB_propose_start cx s p = Some (s', nx) \<and> bspb_ok (propose_wf c) s' \<and>
    pred_option (big_task_ok (propose_wf c)) nx"
proof -
  obtain b where "pm_B p = Some b" using assms(2) by (auto simp: propose_wf_def split: option.splits)
  then show ?thesis using assms by (auto simp: BigSPB_propose_start_def bspb_ok_def propose_wf_def)
qed

lemma msg_ok_consensus: "msg_ok W c m \<Longrightarrow> is_ConsensusMessage m"
  by (cases m) simp_all

lemma msg_ok_propose_wf [simp]: "msg_ok (propose_wf c) c = msg_wf c"
proof
  fix m show "msg_ok (propose_wf c) c m = msg_wf c m" by (cases m) auto
qed

lemma propose_wf_votable: "propose_wf c p \<Longrightarrow> votable p"
  by (simp add: propose_wf_def votable_def split: option.splits)

text \<open>Every goroutine and every buffered vote is at the instance of its view and proposer.\<close>

fun placed_task :: "int \<Rightarrow> node_id \<Rightarrow> big_task \<Rightarrow> bool" where
  "placed_task v n (BVote m) \<longleftrightarrow> vm_View m = v \<and> vm_Proposer m = n"
| "placed_task v n (BVoteCount m) \<longleftrightarrow> vm_View m = v \<and> vm_Proposer m = n"
| "placed_task v n (BVoteQc m) \<longleftrightarrow> vm_View m = v \<and> vm_Proposer m = n"
| "placed_task v n (BVoteAct m) \<longleftrightarrow> vm_View m = v \<and> vm_Proposer m = n"
| "placed_task v n _ \<longleftrightarrow> True"

definition placed_inst :: "int \<Rightarrow> node_id \<Rightarrow> BigSPB \<Rightarrow> bool" where
  "placed_inst v n s \<longleftrightarrow> bs_View s = v \<and> bs_Proposer s = n \<and>
     (\<forall>h. \<forall>m \<in> set (bs_unHandleVote s h). vm_View m = v \<and> vm_Proposer m = n)"

lemma placed_new [simp]: "placed_inst v n (NewBigSPB n v)"
  by (simp add: placed_inst_def NewBigSPB_def)

lemma BigSPB_section_placed:
  assumes "BigSPB_section cx c i srvc s t = Some (s', effs, nx)" "placed_inst v n s" "placed_task v n t"
  shows "placed_inst v n s' \<and> (\<forall>u \<in># go_pending (effs, nx). placed_task v n u)"
  using assms
  by (cases t)
     (auto simp: BigSPB_propose_start_def BigSPB_propose_wake_def BigSPB_propose_vote_def BigSPB_vote_start_def
      BigSPB_vote_count_def BigSPB_vote_qc_def BigSPB_speed_send_def BigSPB_speed_wake_def BigSPB_speed_start_def
      BigSPB_speed_count_def BigSPB_speed_store_def Option.bind_eq_Some_conv Let_def placed_inst_def go_pending_def
      split: if_splits prod.splits)

end
