(* ===== verification/Big_Core.thy ===== *)
theory Big_Core
  imports Big_SPB
begin

text \<open>
  The main loop of the big protocol, src/core/bigcore.go, around the instances of Big_SPB.thy.
\<close>

section \<open>The core\<close>

record ('k, 'db) BigCore =
  bc_nodeID :: node_id
  bc_view :: int
  bc_height :: "8 word"
  bc_committee :: Committee
  bc_parameters :: Parameters
  bc_txpool :: Pool
  bc_sigService :: "'k SigService"
  bc_store :: 'db
  bc_eletor :: "'k Elector"
  bc_commitor :: Commitor
  bc_spbInstances :: "BigSPB instances"
  bc_speedVoteNums :: "int \<Rightarrow> node_id \<Rightarrow> int"
  bc_reportNums :: "int \<Rightarrow> 8 word \<Rightarrow> int"

definition NewBigCore ::
    "node_id \<Rightarrow> Committee \<Rightarrow> Parameters \<Rightarrow> Pool \<Rightarrow> 'db \<Rightarrow> 'k SigService \<Rightarrow> ('k, 'db) BigCore" where
  "NewBigCore nodeID c parameters txpool db sigService =
     \<lparr>bc_nodeID = nodeID, bc_view = 0, bc_height = HEIGHT_1, bc_committee = c, bc_parameters = parameters,
      bc_txpool = txpool, bc_sigService = sigService, bc_store = db,
      bc_eletor = NewElector sigService c, bc_commitor = NewCommitor,
      bc_spbInstances = Map.empty, bc_speedVoteNums = (\<lambda>_ _. 0), bc_reportNums = (\<lambda>_ _. 0)\<rparr>"

abbreviation bspb_at :: "('k, 'db) BigCore \<Rightarrow> int \<Rightarrow> node_id \<Rightarrow> BigSPB" where
  "bspb_at core \<equiv> inst_at NewBigSPB (bc_spbInstances core)"

definition put_bspb :: "int \<Rightarrow> node_id \<Rightarrow> BigSPB \<Rightarrow> ('k, 'db) BigCore \<Rightarrow> ('k, 'db) BigCore" where
  "put_bspb view node s core = core\<lparr>bc_spbInstances := inst_put view node s (bc_spbInstances core)\<rparr>"

definition BigCore_getSpbInstance :: "int \<Rightarrow> node_id \<Rightarrow> ('k, 'db) BigCore \<Rightarrow> ('k, 'db) BigCore" where
  "BigCore_getSpbInstance view node core = put_bspb view node (bspb_at core view node) core"

definition BigCore_generatorBlock ::
    "('k, 'db) BigCore \<Rightarrow> int \<Rightarrow> 8 word \<Rightarrow> BlockQC option \<Rightarrow> Block \<times> ('k, 'db) BigCore" where
  "BigCore_generatorBlock core view height qc =
     (case GetBatch (bc_txpool core) of
        (batch, pool) \<Rightarrow>
          (\<lparr>b_Author = bc_nodeID core, b_View = view, b_Height = height, b_Batch = batch, b_Qc = qc,
            b_References = []\<rparr>,
           core\<lparr>bc_txpool := pool\<rparr>))"

text \<open>A proposal made from a new block: it is broadcast and enqueued.\<close>

definition BigCore_propose ::
    "'k crypto_ext \<Rightarrow> ('k, 'db) BigCore \<Rightarrow> int \<Rightarrow> 8 word \<Rightarrow> BlockQC option \<Rightarrow>
     (('k, 'db) BigCore \<times> big_go effect list) option" where
  "BigCore_propose cx core view height qc =
     (case BigCore_generatorBlock core view height qc of
        (block, core') \<Rightarrow>
          do { p \<leftarrow> NewProposeMsg cx (bc_sigService core') block;
               Some (core', [ESend (bc_nodeID core') NONE (ProposeM p), EEnq (ProposeM p)]) })"

text \<open>
  A section of a goroutine on the instance of \<open>view\<close> and \<open>node\<close>. On a height-1 certificate the
  proposer, and only the proposer, makes its height-2 proposal.
\<close>

definition BigCore_section ::
    "'k crypto_ext \<Rightarrow> ('k, 'db) BigCore \<Rightarrow> big_go \<Rightarrow>
     (('k, 'db) BigCore \<times> big_go effect list \<times> big_go option) option" where
  "BigCore_section cx core g =
     (case g of (view, node, t) \<Rightarrow>
        let s = bspb_at core view node;
            inst = do { (s', effs, nx) \<leftarrow> BigSPB_section cx (bc_committee core) (bc_nodeID core) (bc_sigService core) s t;
                        Some (put_bspb view node s' core, map (map_effect (\<lambda>t. (view, node, t))) effs,
                              map_option (\<lambda>t. (view, node, t)) nx) } in
        (case t of
           BVoteAct v \<Rightarrow>
             if vm_Height v = HEIGHT_1 \<and> bs_Proposer s = bc_nodeID core
             then do { (core', effs) \<leftarrow> BigCore_propose cx core (vm_View v) HEIGHT_2 (Some (BigSPB_qc s v));
                       Some (core', effs, None) }
             else inst
         | _ \<Rightarrow> inst))"

section \<open>The handlers\<close>

definition BigCore_handleProposeMsg ::
    "'k crypto_ext \<Rightarrow> 'db store_ext \<Rightarrow> ('k, 'db) BigCore \<Rightarrow> ProposeMsg \<Rightarrow>
     (('k, 'db) BigCore \<times> big_go effect list \<times> error option) option" where
  "BigCore_handleProposeMsg cx dx core p =
     verified (ProposeMsg_Verify cx (bc_committee core) p) (ErrSignature ProposeType (pm_View p) (pm_Author p)) core
       (do { b \<leftarrow> pm_B p;
             case storeBlock cx dx (bc_store core) b of
               (Some err, db) \<Rightarrow> Some (core\<lparr>bc_store := db\<rparr>, [], Some err)
             | (None, db) \<Rightarrow>
                 Some (BigCore_getSpbInstance (pm_View p) (pm_Author p) (core\<lparr>bc_store := db\<rparr>),
                       [EGo (pm_View p, pm_Author p, BPropose p)], None) })"

definition BigCore_handleVoteMsg ::
    "'k crypto_ext \<Rightarrow> ('k, 'db) BigCore \<Rightarrow> VoteMsg \<Rightarrow>
     (('k, 'db) BigCore \<times> big_go effect list \<times> error option) option" where
  "BigCore_handleVoteMsg cx core v =
     verified (VoteMsg_Verify cx (bc_committee core) v) (ErrSignature VoteType (vm_View v) (vm_Author v)) core
       (Some (BigCore_getSpbInstance (vm_View v) (vm_Proposer v) core, [EGo (vm_View v, vm_Proposer v, BVote v)], None))"

text \<open>The speed vote is handed to the instance of its \<^emph>\<open>author\<close>, and elections are triggered by the own count.\<close>

definition BigCore_handleSpeedVoteMsg ::
    "'k crypto_ext \<Rightarrow> ('k, 'db) BigCore \<Rightarrow> SpeedVoteMsg \<Rightarrow>
     (('k, 'db) BigCore \<times> big_go effect list \<times> error option) option" where
  "BigCore_handleSpeedVoteMsg cx core sv =
     verified (SpeedVoteMsg_Verify cx (bc_committee core) sv) (ErrSignature SpeedVoteType (sv_View sv) (sv_Author sv)) core
       (let nodes = (bc_speedVoteNums core (sv_View sv))(sv_Author sv := bc_speedVoteNums core (sv_View sv) (sv_Author sv) + 1);
            core1 = core\<lparr>bc_speedVoteNums := (bc_speedVoteNums core)(sv_View sv := nodes)\<rparr> in
        do { effs \<leftarrow> (if nodes (bc_nodeID core) = HightThreshold (bc_committee core)
                       then elect_effects cx (bc_sigService core) (bc_nodeID core) (sv_View sv) else Some []);
             Some (BigCore_getSpbInstance (sv_View sv) (sv_Author sv) core1,
                   effs @ [EGo (sv_View sv, sv_Author sv, BSpeedVote sv)], None) })"

definition BigCore_commit_block ::
    "'db store_ext \<Rightarrow> ('k, 'db) BigCore \<Rightarrow> digest \<Rightarrow> error + ('k, 'db) BigCore \<times> big_go effect list" where
  "BigCore_commit_block dx core blockHash =
     (case getBlock dx (bc_store core) blockHash of
        Inl err \<Rightarrow> Inl err
      | Inr block \<Rightarrow>
          (case Commitor_Commit (bc_commitor core) block of
             (cm, out) \<Rightarrow> Inr (core\<lparr>bc_commitor := cm\<rparr>, (case out of None \<Rightarrow> [] | Some b \<Rightarrow> [ECommit b]))))"

definition BigCore_coin_commit ::
    "'db store_ext \<Rightarrow> ('k, 'db) BigCore \<Rightarrow> BigSPB \<Rightarrow> error + ('k, 'db) BigCore \<times> big_go effect list" where
  "BigCore_coin_commit dx core s =
     (if BigSPB_SpeedCert s then BigCore_commit_block dx core (BigSPB_BlockHash s HEIGHT_2)
      else if BigSPB_DecCert s then BigCore_commit_block dx core (BigSPB_BlockHash s HEIGHT_1)
      else Inr (core, []))"

definition BigCore_processCoin ::
    "'k crypto_ext \<Rightarrow> 'db store_ext \<Rightarrow> ('k, 'db) BigCore \<Rightarrow> node_id \<Rightarrow> int \<Rightarrow>
     (('k, 'db) BigCore \<times> big_go effect list \<times> error option) option" where
  "BigCore_processCoin cx dx core leader view =
     (let core1 = BigCore_getSpbInstance view leader core; s = bspb_at core1 view leader in
      case BigCore_coin_commit dx core1 s of
        Inl err \<Rightarrow> Some (core1, [], Some err)
      | Inr (core2, effs) \<Rightarrow>
          (case BigSPB_QCLEvel s of
             (level, qc) \<Rightarrow>
               do { report \<leftarrow> NewReportMsg cx (bc_sigService core2) (bc_nodeID core2) view level qc;
                    Some (core2, effs @ [ESend (bc_nodeID core2) NONE (ReportM report), EEnq (ReportM report)], None) }))"

definition BigCore_handleElectMsg ::
    "'k crypto_ext \<Rightarrow> 'db store_ext \<Rightarrow> ('k, 'db) BigCore \<Rightarrow> ElectMsg option \<Rightarrow>
     (('k, 'db) BigCore \<times> big_go effect list \<times> error option) option" where
  "BigCore_handleElectMsg cx dx core oe =
     do { e \<leftarrow> oe;
          if \<not> ElectMsg_Verify cx e then Some (core, [], Some (ErrSignature ElectType (em_View e) (em_Author e)))
          else do { (el, res) \<leftarrow> Elector_Add cx (bc_eletor core) e;
                    let core1 = core\<lparr>bc_eletor := el\<rparr>;
                    case res of
                      Inl err \<Rightarrow> Some (core1, [], Some err)
                    | Inr leader \<Rightarrow>
                        if leader \<noteq> NONE then BigCore_processCoin cx dx core1 leader (em_View e)
                        else Some (core1, [], None) } }"

definition BigCore_advanceView ::
    "'k crypto_ext \<Rightarrow> ('k, 'db) BigCore \<Rightarrow> int \<Rightarrow> BlockQC option \<Rightarrow>
     (('k, 'db) BigCore \<times> big_go effect list) option" where
  "BigCore_advanceView cx core view qc =
     (if view \<le> bc_view core then Some (core, [])
      else BigCore_propose cx (core\<lparr>bc_view := view\<rparr>) view HEIGHT_1 qc)"

definition BigCore_handleReportMsg ::
    "'k crypto_ext \<Rightarrow> ('k, 'db) BigCore \<Rightarrow> ReportMsg \<Rightarrow>
     (('k, 'db) BigCore \<times> big_go effect list \<times> error option) option" where
  "BigCore_handleReportMsg cx core r =
     verified (ReportMsg_Verify cx (bc_committee core) r) (ErrSignature ReportType (rm_View r) (rm_Author r)) core
       (if \<not> rm_Level r < 3 then None
        else let nums = (bc_reportNums core (rm_View r))(rm_Level r := bc_reportNums core (rm_View r) (rm_Level r) + 1);
                 core1 = core\<lparr>bc_reportNums := (bc_reportNums core)(rm_View r := nums)\<rparr>;
                 thr = HightThreshold (bc_committee core) in
          if nums LEVEL_2 = 1 \<or> nums LEVEL_1 = thr \<or> nums LEVEL_0 = thr then
            do { (core2, effs) \<leftarrow> BigCore_advanceView cx core1 (wrap64 (rm_View r + 1)) (rm_BlockQc r);
                 Some (core2, effs, None) }
          else Some (core1, [], None))"

section \<open>The main loop\<close>

definition BigCore_boot ::
    "'k crypto_ext \<Rightarrow> ('k, 'db) BigCore \<Rightarrow> (('k, 'db) BigCore \<times> big_go effect list) option" where
  "BigCore_boot cx core =
     (if bc_nodeID core \<ge> Faults (bc_parameters core)
      then BigCore_propose cx core (bc_view core) (bc_height core) None
      else Some (core, [EReturn]))"

fun BigCore_handle ::
    "'k crypto_ext \<Rightarrow> 'db store_ext \<Rightarrow> ('k, 'db) BigCore \<Rightarrow> input \<Rightarrow>
     (('k, 'db) BigCore \<times> big_go effect list \<times> error option) option" where
  "BigCore_handle cx dx core (InMsg (ProposeM p)) = BigCore_handleProposeMsg cx dx core p"
| "BigCore_handle cx dx core (InMsg (VoteM v)) = BigCore_handleVoteMsg cx core v"
| "BigCore_handle cx dx core (InMsg (SpeedVoteM sv)) = BigCore_handleSpeedVoteMsg cx core sv"
| "BigCore_handle cx dx core (InMsg (ElectM e)) = BigCore_handleElectMsg cx dx core e"
| "BigCore_handle cx dx core (InMsg (ReportM r)) = BigCore_handleReportMsg cx core r"
| "BigCore_handle cx dx core _ = Some (core, [], None)"

definition BigCore_background :: "('k, 'db) BigCore \<Rightarrow> ('k, 'db) BigCore \<Rightarrow> bool" where
  "BigCore_background core core' \<longleftrightarrow>
     (\<exists>e pool. pool_step (bc_txpool core) e pool \<and> (\<forall>b. e \<noteq> BatchTaken b) \<and> core' = core\<lparr>bc_txpool := pool\<rparr>)"

definition big_machine :: "'k crypto_ext \<Rightarrow> 'db store_ext \<Rightarrow> Committee \<Rightarrow> (('k, 'db) BigCore, big_go) machine" where
  "big_machine cx dx c =
     \<lparr>mc_committee = c, mc_handle = BigCore_handle cx dx, mc_section = BigCore_section cx,
      mc_background = BigCore_background\<rparr>"

end
