(* ===== verification/Big_Safety.thy ===== *)
theory Big_Safety
  imports Big_Core
begin

text \<open>
  What a node of the big protocol does in every run: the outcomes of its handlers and
  sections, on which Big_Proposals.thy and Big_Panics.thy build.
\<close>

section \<open>Frame\<close>

lemma put_bspb_sel [simp]:
  "bc_nodeID (put_bspb v n s core) = bc_nodeID core" "bc_view (put_bspb v n s core) = bc_view core"
  "bc_committee (put_bspb v n s core) = bc_committee core" "bc_sigService (put_bspb v n s core) = bc_sigService core"
  "bc_eletor (put_bspb v n s core) = bc_eletor core" "bc_store (put_bspb v n s core) = bc_store core"
  "bc_speedVoteNums (put_bspb v n s core) = bc_speedVoteNums core"
  "bspb_at (put_bspb v n s core) v' n' = (if v' = v \<and> n' = n then s else bspb_at core v' n')"
  by (simp_all add: put_bspb_def)

lemma BigCore_getSpbInstance_sel [simp]:
  "bc_nodeID (BigCore_getSpbInstance v n core) = bc_nodeID core" "bc_view (BigCore_getSpbInstance v n core) = bc_view core"
  "bc_committee (BigCore_getSpbInstance v n core) = bc_committee core"
  "bc_sigService (BigCore_getSpbInstance v n core) = bc_sigService core"
  "bc_eletor (BigCore_getSpbInstance v n core) = bc_eletor core"
  "bc_speedVoteNums (BigCore_getSpbInstance v n core) = bc_speedVoteNums core"
  "bspb_at (BigCore_getSpbInstance v n core) v' n' = bspb_at core v' n'"
  by (auto simp: BigCore_getSpbInstance_def)

text \<open>The parts of the state that the handlers leave alone.\<close>

definition bc_same :: "('k, 'db) BigCore \<Rightarrow> ('k, 'db) BigCore \<Rightarrow> bool" where
  "bc_same core core' \<longleftrightarrow>
     bc_nodeID core' = bc_nodeID core \<and> bc_committee core' = bc_committee core \<and> bc_sigService core' = bc_sigService core \<and>
     el_committee (bc_eletor core') = el_committee (bc_eletor core) \<and> (\<forall>v n. bspb_at core' v n = bspb_at core v n)"

lemma bc_same_refl [simp]: "bc_same core core"
  by (simp add: bc_same_def)

lemma bc_same_trans: "bc_same a b \<Longrightarrow> bc_same b c \<Longrightarrow> bc_same a c"
  by (simp add: bc_same_def)

lemma bc_same_upd [simp]:
  "bc_same core (core'\<lparr>bc_store := x1\<rparr>) = bc_same core core'" "bc_same core (core'\<lparr>bc_view := x2\<rparr>) = bc_same core core'"
  "bc_same core (core'\<lparr>bc_txpool := x3\<rparr>) = bc_same core core'" "bc_same core (core'\<lparr>bc_commitor := x4\<rparr>) = bc_same core core'"
  "bc_same core (core'\<lparr>bc_speedVoteNums := x5\<rparr>) = bc_same core core'" "bc_same core (core'\<lparr>bc_reportNums := x6\<rparr>) = bc_same core core'"
  "bc_same core (BigCore_getSpbInstance v n core') = bc_same core core'"
  by (simp_all add: bc_same_def)

section \<open>The outcomes of the handlers\<close>

lemma BigCore_propose_outcome:
  assumes "BigCore_propose cx core view h qc = Some (core', effs)"
  shows "\<exists>pool b p. core' = core\<lparr>bc_txpool := pool\<rparr> \<and> effs = [ESend (bc_nodeID core) NONE (ProposeM p), EEnq (ProposeM p)] \<and>
    pm_Author p = bc_nodeID core \<and> pm_View p = view \<and> pm_Height p = h \<and> pm_B p = Some b \<and> pm_DocG p = None \<and>
    b_Author b = bc_nodeID core \<and> b_View b = view \<and> b_Height b = h \<and> b_Qc b = qc"
  using assms NewProposeMsg_fields
  by (fastforce simp: BigCore_propose_def BigCore_generatorBlock_def Option.bind_eq_Some_conv split: prod.splits)

lemma BigCore_coin_commit_outcome:
  assumes "BigCore_coin_commit dx core s = Inr (core', effs)"
  shows "(\<exists>cm. core' = core\<lparr>bc_commitor := cm\<rparr>) \<and> (effs = [] \<or> (\<exists>b. effs = [ECommit b]))"
proof (cases "BigSPB_SpeedCert s \<or> BigSPB_DecCert s")
  case True
  then obtain h where "BigCore_commit_block dx core h = Inr (core', effs)"
    using assms by (auto simp: BigCore_coin_commit_def split: if_splits)
  then show ?thesis by (auto simp: BigCore_commit_block_def split: sum.splits prod.splits option.splits)
next
  case False
  then have "core' = core\<lparr>bc_commitor := bc_commitor core\<rparr>" "effs = []"
    using assms by (auto simp: BigCore_coin_commit_def)
  then show ?thesis by blast
qed

lemma BigCore_processCoin_outcome:
  assumes "BigCore_processCoin cx dx core leader view = Some (core', effs, err)"
  shows "bc_same core core' \<and> bc_view core' = bc_view core \<and>
    (effs = [] \<or> (\<exists>pre r. effs = pre @ [ESend (bc_nodeID core) NONE (ReportM r), EEnq (ReportM r)] \<and>
       (pre = [] \<or> (\<exists>b. pre = [ECommit b])) \<and> rm_Author r = bc_nodeID core \<and> rm_View r = view \<and> rm_Level r < 3))"
proof (cases "BigCore_coin_commit dx (BigCore_getSpbInstance view leader core) (bspb_at core view leader)")
  case (Inl e)
  then show ?thesis using assms by (auto simp: BigCore_processCoin_def Let_def)
next
  case (Inr r)
  obtain core2 ceffs where r: "r = (core2, ceffs)" by (cases r)
  let ?core1 = "BigCore_getSpbInstance view leader core"
  from BigCore_coin_commit_outcome[OF Inr[unfolded r]] obtain cm where core2: "core2 = ?core1\<lparr>bc_commitor := cm\<rparr>"
      and ceffs: "ceffs = [] \<or> (\<exists>b. ceffs = [ECommit b])" by blast
  obtain level qc where l: "BigSPB_QCLEvel (bspb_at core view leader) = (level, qc)"
    by (cases "BigSPB_QCLEvel (bspb_at core view leader)")
  then have "level < 3" by (auto simp: BigSPB_QCLEvel_def split: if_splits)
  have sel: "bc_nodeID core2 = bc_nodeID core" "bc_view core2 = bc_view core" "bc_same core core2"
    by (simp_all add: core2)
  obtain report where rep: "NewReportMsg cx (bc_sigService core2) (bc_nodeID core2) view level qc = Some report"
    "core' = core2" "effs = ceffs @ [ESend (bc_nodeID core2) NONE (ReportM report), EEnq (ReportM report)]"
    using assms Inr r l by (auto simp: BigCore_processCoin_def Let_def Option.bind_eq_Some_conv)
  with NewReportMsg_fields[OF rep(1)] ceffs sel \<open>level < 3\<close> show ?thesis by auto
qed

text \<open>What a handler may start, and its outcome as a whole.\<close>

fun big_spawn :: "input \<Rightarrow> big_go list" where
  "big_spawn (InMsg (ProposeM p)) = [(pm_View p, pm_Author p, BPropose p)]"
| "big_spawn (InMsg (VoteM v)) = [(vm_View v, vm_Proposer v, BVote v)]"
| "big_spawn (InMsg (SpeedVoteM sv)) = [(sv_View sv, sv_Author sv, BSpeedVote sv)]"
| "big_spawn _ = []"

definition big_step :: "('k, 'db) BigCore \<Rightarrow> input \<Rightarrow> big_go effect list \<Rightarrow> ('k, 'db) BigCore \<Rightarrow> bool" where
  "big_step core inp effs core' \<longleftrightarrow> bc_same core core' \<and> sends_enqueued effs \<and> (\<forall>sv. EEnq (SpeedVoteM sv) \<notin> set effs) \<and>
     (bc_view core' = bc_view core \<and> sent_proposals effs = [] \<and> (spawned effs = {#} \<or> spawned effs = mset (big_spawn inp)) \<or>
      (\<exists>p. bc_view core < bc_view core' \<and> effs = [ESend (bc_nodeID core) NONE (ProposeM p), EEnq (ProposeM p)] \<and>
         pm_View p = bc_view core' \<and> pm_Height p = HEIGHT_1))"

lemma BigCore_handleElectMsg_step:
  assumes "BigCore_handleElectMsg cx dx core oe = Some (core', effs, err)"
  shows "big_step core (InMsg (ElectM oe)) effs core'"
proof -
  obtain e where e: "oe = Some e" using assms by (cases oe) (auto simp: BigCore_handleElectMsg_def)
  show ?thesis
  proof (cases "ElectMsg_Verify cx e")
    case False
    then show ?thesis using assms e by (auto simp: BigCore_handleElectMsg_def big_step_def sends_enqueued_def)
  next
    case True
    obtain el res where add: "Elector_Add cx (bc_eletor core) e = Some (el, res)"
      using assms e True by (cases "Elector_Add cx (bc_eletor core) e") (auto simp: BigCore_handleElectMsg_def)
    let ?core1 = "core\<lparr>bc_eletor := el\<rparr>"
    have same: "bc_same core ?core1" using Elector_Add_committee[OF add] by (simp add: bc_same_def)
    show ?thesis
    proof (cases "\<exists>leader. res = Inr leader \<and> leader \<noteq> NONE")
      case True
      then obtain leader where "BigCore_processCoin cx dx ?core1 leader (em_View e) = Some (core', effs, err)"
        using assms e \<open>ElectMsg_Verify cx e\<close> add by (auto simp: BigCore_handleElectMsg_def Let_def)
      from BigCore_processCoin_outcome[OF this] show ?thesis
        using bc_same_trans[OF same, of core'] by (auto simp: big_step_def sends_enqueued_def)
    next
      case False
      then have "core' = ?core1" "effs = []"
        using assms e \<open>ElectMsg_Verify cx e\<close> add by (auto simp: BigCore_handleElectMsg_def Let_def split: sum.splits if_splits)
      with same show ?thesis by (simp add: big_step_def sends_enqueued_def)
    qed
  qed
qed

lemma BigCore_handle_step:
  assumes "BigCore_handle cx dx core inp = Some (core', effs, err)"
  shows "big_step core inp effs core'"
proof (cases inp)
  case (InCall v n)
  then show ?thesis using assms by (simp add: big_step_def sends_enqueued_def)
next
  case (InMsg m)
  show ?thesis
  proof (cases m)
    case (ProposeM p)
    then show ?thesis using assms InMsg
      by (cases "storeBlock cx dx (bc_store core) (the (pm_B p))")
         (auto simp: BigCore_handleProposeMsg_def big_step_def sends_enqueued_def Option.bind_eq_Some_conv elim!: verifiedE split: option.splits)
  next
    case (VoteM v)
    then show ?thesis using assms InMsg by (auto simp: BigCore_handleVoteMsg_def big_step_def sends_enqueued_def elim!: verifiedE)
  next
    case (SpeedVoteM sv)
    then show ?thesis using assms InMsg
      by (auto simp: BigCore_handleSpeedVoteMsg_def big_step_def sends_enqueued_def Let_def Option.bind_eq_Some_conv elect_msg_def
          elim!: verifiedE dest!: elect_effects_outcome split: if_splits)
  next
    case (ElectM e)
    then show ?thesis using assms InMsg by (simp add: BigCore_handleElectMsg_step)
  next
    case (ReportM r)
    show ?thesis
    proof (cases "ReportMsg_Verify cx (bc_committee core) r = Some True \<and>
        (\<exists>nums. BigCore_advanceView cx (core\<lparr>bc_reportNums := nums\<rparr>) (wrap64 (rm_View r + 1)) (rm_BlockQc r) = Some (core', effs))")
      case True
      then show ?thesis
        by (auto simp: BigCore_advanceView_def big_step_def sends_enqueued_def dest!: BigCore_propose_outcome split: if_splits)
    next
      case False
      then show ?thesis using assms InMsg ReportM
        by (auto simp: BigCore_handleReportMsg_def big_step_def sends_enqueued_def Let_def Option.bind_eq_Some_conv elim!: verifiedE
            split: if_splits)
    qed
  qed (use assms InMsg in \<open>simp_all add: big_step_def sends_enqueued_def\<close>)
qed

end
