(* ===== verification/Big_Proposals.thy ===== *)
theory Big_Proposals
  imports Big_Safety
begin

text \<open>
  The proposals of a node of the big protocol: one of height 1 for every view it enters, and at
  most one of height 2 for each view, which carries the certificate for its own first block.
\<close>

section \<open>Sections of the core\<close>

lemma BigCore_sectionE:
  assumes "BigCore_section cx core (view, node, t) = Some (core', effs, g')"
  obtains (inst) s' ieffs nx where
      "BigSPB_section cx (bc_committee core) (bc_nodeID core) (bc_sigService core) (bspb_at core view node) t = Some (s', ieffs, nx)"
      "core' = put_bspb view node s' core" "effs = map (map_effect (\<lambda>t. (view, node, t))) ieffs"
      "g' = map_option (\<lambda>t. (view, node, t)) nx"
    | (propose) v where "t = BVoteAct v" "vm_Height v = HEIGHT_1" "bs_Proposer (bspb_at core view node) = bc_nodeID core"
      "BigCore_propose cx core (vm_View v) HEIGHT_2 (Some (BigSPB_qc (bspb_at core view node) v)) = Some (core', effs)" "g' = None"
proof (cases "\<exists>v. t = BVoteAct v \<and> vm_Height v = HEIGHT_1 \<and> bs_Proposer (bspb_at core view node) = bc_nodeID core")
  case True
  then show ?thesis using assms propose by (auto simp: BigCore_section_def Let_def Option.bind_eq_Some_conv)
next
  case False
  then have "(do { (s', effs, nx) \<leftarrow> BigSPB_section cx (bc_committee core) (bc_nodeID core) (bc_sigService core) (bspb_at core view node) t;
       Some (put_bspb view node s' core, map (map_effect (\<lambda>t. (view, node, t))) effs, map_option (\<lambda>t. (view, node, t)) nx) }) =
     Some (core', effs, g')"
    using assms by (auto simp: BigCore_section_def Let_def split: big_task.splits if_splits)
  then show ?thesis using inst by (auto simp: Option.bind_eq_Some_conv)
qed

lemma BigCore_section_same:
  assumes "BigCore_section cx core g = Some (core', effs, g')"
  shows "bc_nodeID core' = bc_nodeID core" "bc_committee core' = bc_committee core" "bc_sigService core' = bc_sigService core"
    "bc_view core' = bc_view core" "el_committee (bc_eletor core') = el_committee (bc_eletor core)" "height1_views effs = []"
proof -
  obtain view node t where g: "g = (view, node, t)" by (cases g) auto
  have *: "bc_nodeID core' = bc_nodeID core \<and> bc_committee core' = bc_committee core \<and> bc_sigService core' = bc_sigService core \<and>
    bc_view core' = bc_view core \<and> el_committee (bc_eletor core') = el_committee (bc_eletor core) \<and> height1_views effs = []"
    using assms unfolding g
  proof (cases rule: BigCore_sectionE)
    case (inst s' ieffs nx)
    then show ?thesis using BigSPB_section_quiet[OF inst(1)] by (simp add: height1_views_def)
  next
    case (propose v)
    then show ?thesis using BigCore_propose_outcome[OF propose(4)] by (auto simp: height1_views_def)
  qed
  from * show "bc_nodeID core' = bc_nodeID core" "bc_committee core' = bc_committee core" "bc_sigService core' = bc_sigService core"
    "bc_view core' = bc_view core" "el_committee (bc_eletor core') = el_committee (bc_eletor core)" "height1_views effs = []"
    by simp_all
qed

section \<open>Height 1\<close>

interpretation big_prop: advancing_proposer "big_machine cx dx c" "\<lambda>_. True" bc_view height1_views for cx dx c
proof
  fix core i core' effs err
  assume "mc_handle (big_machine cx dx c) core i = Some (core', effs, err)"
  then show "True \<and> advances bc_view height1_views core effs core'"
    using BigCore_handle_step[of cx dx core i core' effs err]
    by (auto simp: big_machine_def advances_def big_step_def height1_views_def)
next
  fix core g core' effs g'
  assume "mc_section (big_machine cx dx c) core g = Some (core', effs, g')"
  then show "True \<and> advances bc_view height1_views core effs core'"
    using BigCore_section_same[of cx core g core' effs g'] by (simp add: big_machine_def advances_def)
qed (auto simp: height1_views_def big_machine_def BigCore_background_def)

lemma BigCore_boot_outcome:
  assumes "BigCore_boot cx (NewBigCore i c pr pool db srvc) = Some (core, effs)" "Faults pr \<le> i"
  shows "\<exists>pool' b p. core = (NewBigCore i c pr pool db srvc)\<lparr>bc_txpool := pool'\<rparr> \<and>
    effs = [ESend i NONE (ProposeM p), EEnq (ProposeM p)] \<and> pm_Author p = i \<and> pm_View p = 0 \<and> pm_Height p = HEIGHT_1 \<and>
    pm_B p = Some b \<and> pm_DocG p = None \<and> b_Height b = HEIGHT_1 \<and> b_Qc b = None"
  using assms BigCore_propose_outcome[of cx "NewBigCore i c pr pool db srvc" 0 HEIGHT_1 None core effs]
  by (auto simp: BigCore_boot_def NewBigCore_def)

text \<open>
  C35. An honest node of the big protocol proposes exactly one height-1 block for every view it
  enters, in increasing order of views starting with view 0, whatever the network delivers and
  however the goroutines interleave.
\<close>

theorem big_one_proposal_per_view:
  assumes "BigCore_boot cx (NewBigCore i c pr pool db srvc) = Some (core, effs)" "Faults pr \<le> i"
    and "node_run (big_machine cx dx c) (\<lambda>_. True) (boot_node core effs) tr nd"
  shows "sorted_wrt (<) (height1_views (effs @ tr)) \<and> height1_views (effs @ tr) \<noteq> [] \<and>
    hd (height1_views (effs @ tr)) = 0 \<and> last (height1_views (effs @ tr)) = bc_view (nd_core nd)"
proof -
  have h: "height1_views effs = [0]" "bc_view core = 0"
    using BigCore_boot_outcome[OF assms(1,2)] by (auto simp: height1_views_def NewBigCore_def)
  then have "big_prop.in_order core effs" by (simp add: big_prop.in_order_def)
  from big_prop.run_invariant[OF this _ assms(3)]
  have "big_prop.in_order (nd_core nd) (effs @ tr)" by simp
  then show ?thesis using h(1) by (simp add: big_prop.in_order_def big_prop.keys_append)
qed

definition sample_bcore :: "node_id \<Rightarrow> (unit, string \<times> bytes \<Rightarrow> bytes option) BigCore" where
  "sample_bcore i = NewBigCore i (sample_committee 4) DefaultParameters sample_pool Map.empty sample_service"

definition sample_big :: "((unit, string \<times> bytes \<Rightarrow> bytes option) BigCore, big_go) machine" where
  "sample_big = big_machine sample_cx (sample_dx [sample_block 0 0 HEIGHT_1]) (sample_committee 4)"

lemma sample_big_boot:
  "BigCore_boot sample_cx (sample_bcore 0) =
     Some (sample_bcore 0, [ESend 0 NONE (ProposeM (sample_proposal 0 0 HEIGHT_1)), EEnq (ProposeM (sample_proposal 0 0 HEIGHT_1))])"
  using sample_proposal_eq[of 0 0 HEIGHT_1]
  by (simp add: BigCore_boot_def sample_bcore_def NewBigCore_def BigCore_propose_def BigCore_generatorBlock_def sample_block_def)

lemma sample_big_report:
  "\<exists>nd. exec sample_big [Deliver (ReportM (sample_report 2 0 LEVEL_2)), Main, Main, Main]
     (boot_node (sample_bcore 0) [ESend 0 NONE (ProposeM (sample_proposal 0 0 HEIGHT_1)), EEnq (ProposeM (sample_proposal 0 0 HEIGHT_1))]) =
     Some (nd, [ESend 0 NONE (ProposeM (sample_proposal 0 1 HEIGHT_1)), EEnq (ProposeM (sample_proposal 0 1 HEIGHT_1))])"
  using sample_proposal_eq[of 0 1 HEIGHT_1]
  by (simp add: boot_node_def recv_cap_def send_cap_def sample_big_def big_machine_def BigCore_handleReportMsg_def
      sample_bcore_def NewBigCore_def verified_def BigCore_advanceView_def BigCore_propose_def BigCore_generatorBlock_def
      wrap64_def sample_block_def Let_def)

theorem big_one_proposal_per_view_witness:
  "\<exists>nd tr. node_run sample_big (\<lambda>_. True) (boot_node (sample_bcore 0)
      [ESend 0 NONE (ProposeM (sample_proposal 0 0 HEIGHT_1)), EEnq (ProposeM (sample_proposal 0 0 HEIGHT_1))]) tr nd \<and>
    height1_views tr = [1] \<and> sorted_wrt (<)
     (height1_views ([ESend 0 NONE (ProposeM (sample_proposal 0 0 HEIGHT_1)), EEnq (ProposeM (sample_proposal 0 0 HEIGHT_1))] @ tr))"
proof -
  let ?effs = "[ESend 0 NONE (ProposeM (sample_proposal 0 0 HEIGHT_1)), EEnq (ProposeM (sample_proposal 0 0 HEIGHT_1))] :: big_go effect list"
  let ?tr = "[ESend 0 NONE (ProposeM (sample_proposal 0 1 HEIGHT_1)), EEnq (ProposeM (sample_proposal 0 1 HEIGHT_1))] :: big_go effect list"
  obtain nd where x: "exec sample_big [Deliver (ReportM (sample_report 2 0 LEVEL_2)), Main, Main, Main]
      (boot_node (sample_bcore 0) ?effs) = Some (nd, ?tr)"
    using sample_big_report by blast
  have run: "node_run sample_big (\<lambda>_. True) (boot_node (sample_bcore 0) ?effs) ?tr nd"
    by (rule exec_run[OF x]) (simp_all add: boot_node_def)
  then have "sorted_wrt (<) (height1_views (?effs @ ?tr))"
    using big_one_proposal_per_view[OF sample_big_boot[unfolded sample_bcore_def]]
    by (simp add: sample_big_def sample_bcore_def del: append.simps)
  moreover have "height1_views ?tr = [1]" by (simp add: height1_views_def)
  ultimately show ?thesis using run by blast
qed

section \<open>Height 2\<close>

text \<open>
  Goroutines that may still count a height-1 vote, and goroutines that have passed the quorum
  and not yet acted; first for the tasks of an instance, then for those of one view and proposer.
\<close>

fun counting :: "big_task \<Rightarrow> bool" where
  "counting (BVote v) \<longleftrightarrow> vm_Height v = HEIGHT_1"
| "counting (BVoteCount v) \<longleftrightarrow> vm_Height v = HEIGHT_1"
| "counting _ \<longleftrightarrow> False"

fun holding :: "big_task \<Rightarrow> bool" where
  "holding (BVoteQc v) \<longleftrightarrow> vm_Height v = HEIGHT_1"
| "holding (BVoteAct v) \<longleftrightarrow> vm_Height v = HEIGHT_1"
| "holding _ \<longleftrightarrow> False"

abbreviation of_inst :: "int \<Rightarrow> node_id \<Rightarrow> (big_task \<Rightarrow> bool) \<Rightarrow> big_go \<Rightarrow> bool" where
  "of_inst v n Q g \<equiv> fst g = v \<and> fst (snd g) = n \<and> Q (snd (snd g))"

abbreviation number :: "('a \<Rightarrow> bool) \<Rightarrow> 'a multiset \<Rightarrow> nat" where
  "number Q P \<equiv> size (filter_mset Q P)"

lemma number_inst [simp]:
  "number (of_inst v n Q) (image_mset (\<lambda>t. (view, node, t)) P) = (if view = v \<and> node = n then number Q P else 0)"
  by (induction P) auto

lemma number_1 [simp]: "number Q {#x#} = (if Q x then 1 else 0)"
  by simp

definition open_gate :: "Committee \<Rightarrow> 32 word \<Rightarrow> nat" where
  "open_gate c x = (if unat x < unat (threshold32 c) then 1 else 0)"

lemma unat_plus_1: "unat (x + 1) = (if unat x + 1 < 2 ^ 32 then unat x + 1 else 0)" for x :: "32 word"
  using unsigned_less[where ?'a = nat, of x] by (auto simp: unat_word_ariths mod_if)

text \<open>The effect of one section on the counter and on both kinds of goroutines.\<close>

lemma BigSPB_section_counter:
  assumes "BigSPB_section cx c i srvc s t = Some (s', effs, nx)"
  shows "unat (bs_voteNums s' HEIGHT_1) + number counting (go_pending (effs, nx)) \<le>
      unat (bs_voteNums s HEIGHT_1) + number counting {#t#} + number counting (spawned effs)"
    and "(counting t \<Longrightarrow> unat (bs_voteNums s HEIGHT_1) + 1 < 2 ^ 32) \<Longrightarrow>
      number holding (go_pending (effs, nx)) + open_gate c (bs_voteNums s' HEIGHT_1) \<le>
      number holding {#t#} + open_gate c (bs_voteNums s HEIGHT_1)"
proof -
  have both: "unat (bs_voteNums s' HEIGHT_1) + number counting (go_pending (effs, nx)) \<le>
      unat (bs_voteNums s HEIGHT_1) + number counting {#t#} + number counting (spawned effs) \<and>
    ((counting t \<longrightarrow> unat (bs_voteNums s HEIGHT_1) + 1 < 2 ^ 32) \<longrightarrow>
      number holding (go_pending (effs, nx)) + open_gate c (bs_voteNums s' HEIGHT_1) \<le>
      number holding {#t#} + open_gate c (bs_voteNums s HEIGHT_1))"
  proof (cases "\<exists>v. t = BVoteCount v")
    case True
    then obtain v where t: "t = BVoteCount v" by blast
    show ?thesis
    proof (cases "bs_voteNums s (vm_Height v) + 1 = threshold32 c")
      case True
      then show ?thesis using assms t
        by (cases "vm_Height v = HEIGHT_1")
           (auto simp: BigSPB_vote_count_def go_pending_def Let_def open_gate_def unat_plus_1 simp flip: True
             split: if_splits)
    next
      case False
      then show ?thesis using assms t
        by (auto simp: BigSPB_vote_count_def go_pending_def Let_def open_gate_def unat_plus_1)
    qed
  next
    case False
    have parts: "number Q (go_pending (effs, nx)) = number Q (spawned effs) + number Q (go_pending ([], nx))" for Q
      by (simp add: go_pending_def)
    have same: "bs_voteNums s' = bs_voteNums s"
      using assms False
      by (cases t) (auto simp: BigSPB_propose_start_def BigSPB_vote_start_def BigSPB_vote_qc_def BigSPB_speed_start_def
          BigSPB_speed_count_def BigSPB_speed_store_def Option.bind_eq_Some_conv Let_def split: if_splits)
    have "number counting (go_pending ([], nx)) \<le> number counting {#t#}" "number holding (go_pending ([], nx)) \<le> number holding {#t#}"
      using assms False
      by (cases t; auto simp: BigSPB_propose_start_def BigSPB_vote_start_def BigSPB_speed_start_def
          BigSPB_speed_count_def Option.bind_eq_Some_conv go_pending_def Let_def split: if_splits)+
    moreover have "number holding (spawned effs) = 0"
      using assms
      by (cases t) (auto simp: BigSPB_propose_wake_def BigSPB_propose_vote_def BigSPB_speed_send_def BigSPB_speed_wake_def
          Option.bind_eq_Some_conv split: if_splits prod.splits)
    ultimately show ?thesis unfolding parts same by linarith
  qed
  then show "unat (bs_voteNums s' HEIGHT_1) + number counting (go_pending (effs, nx)) \<le>
      unat (bs_voteNums s HEIGHT_1) + number counting {#t#} + number counting (spawned effs)"
    and "(counting t \<Longrightarrow> unat (bs_voteNums s HEIGHT_1) + 1 < 2 ^ 32) \<Longrightarrow>
      number holding (go_pending (effs, nx)) + open_gate c (bs_voteNums s' HEIGHT_1) \<le>
      number holding {#t#} + open_gate c (bs_voteNums s HEIGHT_1)"
    by blast+
qed

abbreviation big_placed :: "big_go \<Rightarrow> bool" where
  "big_placed g \<equiv> placed_task (fst g) (fst (snd g)) (snd (snd g))"

text \<open>
  The invariant, for view \<open>v\<close>: the counter of the node's own instance and the goroutines that may
  still increment it stay below the number of such goroutines ever started; and as long as
  that number is below \<open>2 ^ 32\<close>, at most one of the following is there: a proposal already
  made, a goroutine that will make one, and a counter that has not reached the threshold.
\<close>

definition height2_of :: "int \<Rightarrow> 'g effect list \<Rightarrow> ProposeMsg list" where
  "height2_of v es = filter (\<lambda>p. pm_Height p = HEIGHT_2 \<and> pm_View p = v) (sent_proposals es)"

definition own_certificate :: "int \<Rightarrow> node_id \<Rightarrow> ProposeMsg \<Rightarrow> bool" where
  "own_certificate v i p \<longleftrightarrow>
     (\<exists>b qc. pm_B p = Some b \<and> b_Qc b = Some qc \<and> qc_View qc = v \<and> qc_Height qc = HEIGHT_1 \<and> qc_Proposer qc = i)"

definition votes_started :: "int \<Rightarrow> node_id \<Rightarrow> big_go effect list \<Rightarrow> nat" where
  "votes_started v i tr = number (of_inst v i counting) (spawned tr)"

definition big_tasks :: "int \<Rightarrow> node_id \<Rightarrow> ('k, 'db) BigCore \<Rightarrow> big_go effect list \<Rightarrow> big_go multiset \<Rightarrow> bool" where
  "big_tasks v self core tr P \<longleftrightarrow> bc_nodeID core = self \<and>
     (\<forall>v n. placed_inst v n (bspb_at core v n)) \<and> (\<forall>g \<in># P. big_placed g) \<and>
     (let i = bc_nodeID core; x = bs_voteNums (bspb_at core v i) HEIGHT_1 in
      (\<forall>p \<in> set (height2_of v tr). own_certificate v i p) \<and>
      unat x + number (of_inst v i counting) P \<le> votes_started v i tr \<and>
      (votes_started v i tr < 2 ^ 32 \<longrightarrow>
         number (of_inst v i holding) P + length (height2_of v tr) + open_gate (bc_committee core) x \<le> 1))"

lemma height2_of_append [simp]: "height2_of v (es @ es') = height2_of v es @ height2_of v es'"
  by (simp add: height2_of_def)

lemma votes_started_append [simp]: "votes_started v i (es @ es') = votes_started v i es + votes_started v i es'"
  by (simp add: votes_started_def)

lemma big_tasks_handle:
  assumes "big_tasks v self core tr P" "BigCore_handle cx dx core inp = Some (core', effs, err)"
  shows "big_tasks v self core' (tr @ effs) (P + spawned effs)"
proof -
  have step: "big_step core inp effs core'" by (rule BigCore_handle_step[OF assms(2)])
  then have same: "bc_nodeID core' = bc_nodeID core" "bc_committee core' = bc_committee core" "\<And>v n. bspb_at core' v n = bspb_at core v n"
    by (simp_all add: big_step_def bc_same_def)
  have sp: "\<forall>g \<in># mset (big_spawn inp). big_placed g \<and> \<not> holding (snd (snd g))"
    by (cases inp rule: big_spawn.cases) auto
  have "spawned effs = {#} \<or> spawned effs = mset (big_spawn inp)" "height2_of v effs = []"
    using step by (auto simp: big_step_def height2_of_def)
  with sp have pl: "\<forall>g \<in># spawned effs. big_placed g" and h0: "number (of_inst v i holding) (spawned effs) = 0" for i
    by (fastforce simp: filter_mset_eq_conv)+
  show ?thesis
    using assms(1) pl
    unfolding big_tasks_def Let_def same votes_started_append filter_union_mset size_union h0 height2_of_append
      \<open>height2_of v effs = []\<close>
    by (auto simp: votes_started_def)
qed

lemma big_tasks_section:
  assumes "big_tasks v self core tr (add_mset g P)" "BigCore_section cx core g = Some (core', effs, g')"
  shows "big_tasks v self core' (tr @ effs) (P + go_pending (effs, g'))"
proof -
  obtain view node t where g: "g = (view, node, t)" by (cases g) auto
  let ?i = "bc_nodeID core" and ?s = "bspb_at core view node" and ?f = "\<lambda>t. (view, node, t)"
  let ?x = "bs_voteNums (bspb_at core v ?i) HEIGHT_1"
  have place: "\<forall>v n. placed_inst v n (bspb_at core v n)" "placed_task view node t" "\<forall>g \<in># P. big_placed g"
    and cnt: "unat ?x + number (of_inst v ?i counting) (add_mset g P) \<le> votes_started v ?i tr"
    and self: "?i = self" and own: "\<forall>p \<in> set (height2_of v tr). own_certificate v ?i p"
    and one: "votes_started v ?i tr < 2 ^ 32 \<Longrightarrow>
      number (of_inst v ?i holding) (add_mset g P) + length (height2_of v tr) + open_gate (bc_committee core) ?x \<le> 1"
    using assms(1) g unfolding big_tasks_def Let_def by auto
  show ?thesis
    using assms(2) unfolding g
  proof (cases rule: BigCore_sectionE)
    case (inst s' ieffs nx)
    have pend: "go_pending (effs, g') = image_mset ?f (go_pending (ieffs, nx))"
      using inst(3,4) by (cases nx) (simp_all add: go_pending_def)
    have quiet: "height2_of v effs = []" using BigSPB_section_quiet[OF inst(1)] inst(3) by (simp add: height2_of_def)
    have pl: "placed_inst view node s'" "\<forall>u \<in># go_pending (ieffs, nx). placed_task view node u"
      using BigSPB_section_placed[OF inst(1)] place by simp_all
    have placed': "(\<forall>v n. placed_inst v n (bspb_at core' v n)) \<and> (\<forall>g \<in># P + go_pending (effs, g'). big_placed g)"
      using pl place inst(2) unfolding pend by auto
    show ?thesis
    proof (cases "view = v \<and> node = ?i")
      case False
      then have x': "bs_voteNums (bspb_at core' v ?i) HEIGHT_1 = ?x" and n: "number (of_inst v ?i Q) (go_pending (effs, g')) = 0"
          "votes_started v ?i effs = 0" and gQ: "number (of_inst v ?i Q) (add_mset g P) = number (of_inst v ?i Q) P" for Q
        using inst(2,3) g unfolding pend votes_started_def by (auto simp: number_inst simp del: filter_mset_eq_conv)
      have 1: "unat ?x + number (of_inst v ?i counting) (P + go_pending (effs, g')) \<le> votes_started v ?i (tr @ effs)"
        using cnt unfolding gQ votes_started_append n filter_union_mset size_union by linarith
      have 2: "number (of_inst v ?i holding) (P + go_pending (effs, g')) + length (height2_of v (tr @ effs)) +
          open_gate (bc_committee core) ?x \<le> 1" if "votes_started v ?i (tr @ effs) < 2 ^ 32"
        using one that unfolding gQ votes_started_append n filter_union_mset size_union by (simp add: quiet)
      show ?thesis using placed' self own quiet 1 2 x' inst(2) unfolding big_tasks_def Let_def by simp
    next
      case True
      have x': "bs_voteNums (bspb_at core' v ?i) HEIGHT_1 = bs_voteNums s' HEIGHT_1" and x: "?x = bs_voteNums ?s HEIGHT_1"
        using True inst(2) by simp_all
      have n: "number (of_inst v ?i Q) (go_pending (effs, g')) = number Q (go_pending (ieffs, nx))"
          "votes_started v ?i effs = number counting (spawned ieffs)" for Q
        using True inst(3) unfolding pend votes_started_def by (simp_all add: number_inst)
      have gQ: "number (of_inst v ?i Q) (add_mset g P) = number Q {#t#} + number (of_inst v ?i Q) P" for Q
        using True by (simp add: g)
      note c = BigSPB_section_counter[OF inst(1)]
      have 1: "unat (bs_voteNums s' HEIGHT_1) + number (of_inst v ?i counting) (P + go_pending (effs, g')) \<le> votes_started v ?i (tr @ effs)"
        using c(1) cnt unfolding gQ x votes_started_append n filter_union_mset size_union by linarith
      have 2: "number (of_inst v ?i holding) (P + go_pending (effs, g')) + length (height2_of v (tr @ effs)) +
          open_gate (bc_committee core) (bs_voteNums s' HEIGHT_1) \<le> 1" if "votes_started v ?i (tr @ effs) < 2 ^ 32"
      proof -
        have "counting t \<Longrightarrow> unat (bs_voteNums ?s HEIGHT_1) + 1 < 2 ^ 32"
          using cnt that unfolding gQ x by simp
        with c(2) one that show ?thesis unfolding gQ x n filter_union_mset size_union by (simp add: quiet)
      qed
      show ?thesis using placed' self own quiet 1 2 x' inst(2) unfolding big_tasks_def Let_def by simp
    qed
  next
    case (propose m)
    from BigCore_propose_outcome[OF propose(4)] obtain pool p where
      core': "core' = core\<lparr>bc_txpool := pool\<rparr>" and effs: "effs = [ESend ?i NONE (ProposeM p), EEnq (ProposeM p)]"
      and p: "pm_View p = vm_View m" "pm_Height p = HEIGHT_2" "\<exists>b. pm_B p = Some b \<and> b_Qc b = Some (BigSPB_qc ?s m)" by blast
    have at: "node = ?i" "vm_View m = view" "bs_View ?s = view" "vm_Proposer m = node"
      using place propose(1,3) by (auto simp: placed_inst_def)
    then have "own_certificate view ?i p" using p(3) propose(2) by (auto simp: own_certificate_def BigSPB_qc_def)
    then have own': "\<forall>p \<in> set (height2_of v effs). own_certificate v ?i p" using p at by (auto simp: effs height2_of_def)
    have "length (height2_of v effs) = number (of_inst v ?i holding) {#g#}"
      using p propose(1,2) at by (simp add: effs height2_of_def g)
    with place self own own' cnt one core' show ?thesis
      unfolding big_tasks_def Let_def by (auto simp: effs propose(5) go_pending_def votes_started_def g propose(1))
  qed
qed

interpretation big_once: node_tasks "big_machine cx dx c" "big_tasks v self" for cx dx c v self
  by unfold_locales
     (auto simp: big_machine_def BigCore_background_def big_tasks_handle big_tasks_section, auto simp: big_tasks_def Let_def)

text \<open>
  C36. An honest node of the big protocol sends at most one height-2 proposal for a view, and that
  one carries a certificate of that view and of height 1 with the node itself as proposer (C37 shows that
  its votes need not be for the block it names). This holds in every run in
  which fewer than \<open>2 ^ 32\<close> goroutines are started to count a height-1 vote for that block,
  whatever the network delivers: the counter's quorum lets one goroutine through.
\<close>

theorem big_one_height2_per_view:
  assumes "BigCore_boot cx (NewBigCore i c pr pool db srvc) = Some (core, effs)" "Faults pr \<le> i"
    and "node_run (big_machine cx dx c) net (boot_node core effs) tr nd" "votes_started v i tr < 2 ^ 32"
  shows "length (height2_of v (effs @ tr)) \<le> 1 \<and> (\<forall>p \<in> set (height2_of v (effs @ tr)). own_certificate v i p)"
proof -
  from BigCore_boot_outcome[OF assms(1,2)] obtain pool' p where
    core: "core = (NewBigCore i c pr pool db srvc)\<lparr>bc_txpool := pool'\<rparr>"
    and effs: "effs = [ESend i NONE (ProposeM p), EEnq (ProposeM p)]" and p: "pm_Height p = HEIGHT_1" by blast
  have "votes_started v i effs = 0" "height2_of v effs = []" by (simp_all add: effs votes_started_def height2_of_def p)
  moreover have init: "big_tasks v i core effs {#}"
    by (simp add: big_tasks_def Let_def core NewBigCore_def effs votes_started_def height2_of_def p open_gate_def)
       (simp add: NewBigSPB_def)
  moreover have "pending (boot_node core effs) = {#}" "nd_core (boot_node core effs) = core"
    by (simp_all add: boot_node_def pending_def effs)
  ultimately have "big_tasks v i (nd_core nd) (effs @ tr) (pending nd)" "votes_started v i (effs @ tr) < 2 ^ 32"
    using big_once.run_tasks[OF assms(3), of v i effs] assms(4) by simp_all
  then show ?thesis unfolding big_tasks_def Let_def by auto
qed

text \<open>Delivering a proposal and a matching vote to an idle node.\<close>

lemma big_deliver_proposal:
  assumes "idle nd" "ProposeMsg_Verify cx (bc_committee (nd_core nd)) p = Some True" "pm_B p = Some b" "pm_Height p = HEIGHT_1"
    and "storeBlock cx dx (bc_store (nd_core nd)) b = (None, db)" "net (ProposeM p)"
  shows "\<exists>nd'. node_run (big_machine cx dx c) net nd [EGo (pm_View p, pm_Author p, BPropose p)] nd' \<and> idle nd' \<and>
    nd_gos nd' = nd_gos nd @ [([], Some (pm_View p, pm_Author p, BProposeWake p))] \<and>
    bc_committee (nd_core nd') = bc_committee (nd_core nd) \<and> bc_nodeID (nd_core nd') = bc_nodeID (nd_core nd) \<and>
    bc_sigService (nd_core nd') = bc_sigService (nd_core nd) \<and>
    bspb_at (nd_core nd') (pm_View p) (pm_Author p) = (bspb_at (nd_core nd) (pm_View p) (pm_Author p))
      \<lparr>bs_preQc := b_Qc b, bs_blockHash := (bs_blockHash (bspb_at (nd_core nd) (pm_View p) (pm_Author p)))(HEIGHT_1 := Block_Hash cx b)\<rparr>"
proof -
  let ?s = "bspb_at (nd_core nd) (pm_View p) (pm_Author p)"
  let ?core = "put_bspb (pm_View p) (pm_Author p)
      (?s\<lparr>bs_preQc := b_Qc b, bs_blockHash := (bs_blockHash ?s)(HEIGHT_1 := Block_Hash cx b)\<rparr>)
      (BigCore_getSpbInstance (pm_View p) (pm_Author p) ((nd_core nd)\<lparr>bc_store := db\<rparr>))"
  let ?nd' = "nd\<lparr>nd_core := ?core, nd_gos := nd_gos nd @ [([], Some (pm_View p, pm_Author p, BProposeWake p))]\<rparr>"
  have x: "exec (big_machine cx dx c) [Deliver (ProposeM p), Main, Main, Go (length (nd_gos nd))] nd =
      Some (?nd', [EGo (pm_View p, pm_Author p, BPropose p)])"
    using assms(1-5)
    by (simp add: idle_def recv_cap_def big_machine_def BigCore_handleProposeMsg_def verified_def BigCore_section_def
        BigSPB_propose_start_def Let_def nth_append)
  have "node_run (big_machine cx dx c) net nd [EGo (pm_View p, pm_Author p, BPropose p)] ?nd'"
    by (rule exec_run[OF x]) (use assms(1,6) in \<open>simp_all add: idle_def\<close>)
  then show ?thesis using assms(1) by (intro exI[of _ ?nd']) (simp add: idle_def)
qed

lemma big_deliver_vote:
  assumes "idle nd" "VoteMsg_Verify cx (bc_committee (nd_core nd)) v = Some True" "in_heights (vm_Height v)" "net (VoteM v)"
    and "bs_blockHash (bspb_at (nd_core nd) (vm_View v) (vm_Proposer v)) (vm_Height v) = vm_BlockHash v"
  shows "\<exists>nd'. node_run (big_machine cx dx c) net nd [EGo (vm_View v, vm_Proposer v, BVote v)] nd' \<and> idle nd' \<and>
    (let s = bspb_at (nd_core nd) (vm_View v) (vm_Proposer v) in
     nd_core nd' = put_bspb (vm_View v) (vm_Proposer v)
         (s\<lparr>bs_voteNums := (bs_voteNums s)(vm_Height v := bs_voteNums s (vm_Height v) + 1)\<rparr>)
         (BigCore_getSpbInstance (vm_View v) (vm_Proposer v) (nd_core nd)) \<and>
     nd_gos nd' = nd_gos nd @ [([], if bs_voteNums s (vm_Height v) + 1 = threshold32 (bc_committee (nd_core nd))
        then Some (vm_View v, vm_Proposer v, BVoteQc v) else None)])"
proof -
  let ?s = "bspb_at (nd_core nd) (vm_View v) (vm_Proposer v)"
  let ?core = "put_bspb (vm_View v) (vm_Proposer v)
      (?s\<lparr>bs_voteNums := (bs_voteNums ?s)(vm_Height v := bs_voteNums ?s (vm_Height v) + 1)\<rparr>)
      (BigCore_getSpbInstance (vm_View v) (vm_Proposer v) (nd_core nd))"
  let ?nd' = "nd\<lparr>nd_core := ?core,
      nd_gos := nd_gos nd @ [([], if bs_voteNums ?s (vm_Height v) + 1 = threshold32 (bc_committee (nd_core nd))
        then Some (vm_View v, vm_Proposer v, BVoteQc v) else None)]\<rparr>"
  have twice: "put_bspb a b s (put_bspb a b s' core) = put_bspb a b s core" for a b s s' and core :: "('a, 'b) BigCore"
    by (simp add: put_bspb_def inst_put_def)
  have x: "exec (big_machine cx dx c) [Deliver (VoteM v), Main, Main, Go (length (nd_gos nd)), Go (length (nd_gos nd))] nd =
      Some (?nd', [EGo (vm_View v, vm_Proposer v, BVote v)])"
    using assms(1,2,3,5)
    by (simp add: idle_def recv_cap_def big_machine_def BigCore_handleVoteMsg_def verified_def BigCore_section_def
        BigSPB_vote_start_def BigSPB_vote_count_def Let_def nth_append twice)
  have "node_run (big_machine cx dx c) net nd [EGo (vm_View v, vm_Proposer v, BVote v)] ?nd'"
    by (rule exec_run[OF x]) (use assms(1,4) in \<open>simp_all add: idle_def\<close>)
  then show ?thesis using assms(1) by (intro exI[of _ ?nd']) (simp add: idle_def Let_def)
qed

lemma big_certify_own:
  assumes "idle nd" "nd_gos nd = gs @ [([], Some (vm_View v, vm_Proposer v, BVoteQc v))]" "vm_Height v = HEIGHT_1"
    and "bs_Proposer (bspb_at (nd_core nd) (vm_View v) (vm_Proposer v)) = bc_nodeID (nd_core nd)" "can_sign (bc_sigService (nd_core nd))"
  shows "\<exists>tr nd' p. node_run (big_machine cx dx c) net nd tr nd' \<and> spawned tr = {#} \<and> sent_proposals tr = [p] \<and>
    pm_View p = vm_View v \<and> pm_Height p = HEIGHT_2"
proof -
  let ?s = "bspb_at (nd_core nd) (vm_View v) (vm_Proposer v)"
  let ?core = "put_bspb (vm_View v) (vm_Proposer v) (BigSPB_vote_qc ?s v) (nd_core nd)"
  obtain core' effs where b: "BigCore_propose cx ?core (vm_View v) HEIGHT_2 (Some (BigSPB_qc (BigSPB_vote_qc ?s v) v)) = Some (core', effs)"
    using assms(5)
    by (cases "BigCore_propose cx ?core (vm_View v) HEIGHT_2 (Some (BigSPB_qc (BigSPB_vote_qc ?s v) v))")
       (auto simp: BigCore_propose_def BigCore_generatorBlock_def Option.bind_eq_None_conv split: prod.splits)
  have "bs_Proposer (BigSPB_vote_qc ?s v) = bc_nodeID ?core" using assms(4) by (simp add: BigSPB_vote_qc_def)
  then have sec: "BigCore_section cx ?core (vm_View v, vm_Proposer v, BVoteAct v) = Some (core', effs, None)"
    using b assms(3) by (simp add: BigCore_section_def Let_def)
  have x: "exec (big_machine cx dx c) [Go (length gs), Go (length gs)] nd =
      Some (nd\<lparr>nd_core := core', nd_gos := gs @ [(effs, None)]\<rparr>, effs)"
    using assms(2) sec by (simp add: big_machine_def BigCore_section_def[of cx "nd_core nd"] Let_def nth_append)
  have "node_run (big_machine cx dx c) net nd effs (nd\<lparr>nd_core := core', nd_gos := gs @ [(effs, None)]\<rparr>)"
    by (rule exec_run[OF x]) (use assms(1) in \<open>simp_all add: idle_def\<close>)
  moreover obtain p where "spawned effs = {#}" "sent_proposals effs = [p]" "pm_View p = vm_View v" "pm_Height p = HEIGHT_2"
    using BigCore_propose_outcome[OF b] by auto
  ultimately show ?thesis by blast
qed

text \<open>Node 0 handles its own first proposal and three votes for it, and proposes at height 2.\<close>

definition sample_hash :: digest where
  "sample_hash = Block_Hash sample_cx (sample_block 0 0 HEIGHT_1)"

abbreviation sample_own :: "int \<Rightarrow> VoteMsg" where
  "sample_own k \<equiv> sample_vote k 0 sample_hash 0 HEIGHT_1"

lemma sample_store: "\<exists>db'. storeBlock sample_cx (sample_dx [sample_block 0 0 HEIGHT_1]) db (sample_block 0 0 HEIGHT_1) = (None, db')"
  by (simp add: storeBlock_def sample_dx_def)

lemma sample_big_ready:
  "\<exists>nd. node_run sample_big (\<lambda>_. True)
     (boot_node (sample_bcore 0) [ESend 0 NONE (ProposeM (sample_proposal 0 0 HEIGHT_1)), EEnq (ProposeM (sample_proposal 0 0 HEIGHT_1))])
     [EGo (0, 0, BPropose (sample_proposal 0 0 HEIGHT_1))] nd \<and> idle nd \<and> bc_committee (nd_core nd) = sample_committee 4 \<and>
     bc_nodeID (nd_core nd) = 0 \<and> bc_sigService (nd_core nd) = sample_service \<and>
     bs_Proposer (bspb_at (nd_core nd) 0 0) = 0 \<and> bs_voteNums (bspb_at (nd_core nd) 0 0) HEIGHT_1 = 0 \<and>
     bs_blockHash (bspb_at (nd_core nd) 0 0) HEIGHT_1 = sample_hash"
proof -
  let ?b = "boot_node (sample_bcore 0) [ESend 0 NONE (ProposeM (sample_proposal 0 0 HEIGHT_1)), EEnq (ProposeM (sample_proposal 0 0 HEIGHT_1))]"
  obtain db where db: "storeBlock sample_cx (sample_dx [sample_block 0 0 HEIGHT_1]) Map.empty (sample_block 0 0 HEIGHT_1) = (None, db)"
    using sample_store by blast
  obtain nd where x: "exec sample_big [Main, Main, Main, Main, Go 0] ?b = Some (nd, [EGo (0, 0, BPropose (sample_proposal 0 0 HEIGHT_1))])"
      and nd: "idle nd" "bc_committee (nd_core nd) = sample_committee 4" "bc_nodeID (nd_core nd) = 0"
      "bc_sigService (nd_core nd) = sample_service" "bs_Proposer (bspb_at (nd_core nd) 0 0) = 0"
      "bs_voteNums (bspb_at (nd_core nd) 0 0) HEIGHT_1 = 0" "bs_blockHash (bspb_at (nd_core nd) 0 0) HEIGHT_1 = sample_hash"
    using db
    by (simp add: boot_node_def recv_cap_def send_cap_def sample_big_def big_machine_def BigCore_handleProposeMsg_def
        sample_bcore_def NewBigCore_def verified_def BigCore_section_def BigSPB_propose_start_def Let_def idle_def
        sample_hash_def) (simp add: NewBigSPB_def)
  have "node_run sample_big (\<lambda>_. True) ?b [EGo (0, 0, BPropose (sample_proposal 0 0 HEIGHT_1))] nd"
    by (rule exec_run[OF x]) (simp_all add: boot_node_def)
  with nd show ?thesis by (intro exI[of _ nd] conjI)
qed

lemma sample_big_vote:
  assumes "idle nd" "bc_committee (nd_core nd) = sample_committee 4" "k \<in> {0, 1, 2, 3}"
    and "bs_blockHash (bspb_at (nd_core nd) 0 0) HEIGHT_1 = sample_hash"
  shows "\<exists>nd'. node_run sample_big (\<lambda>_. True) nd [EGo (0, 0, BVote (sample_own k))] nd' \<and> idle nd' \<and>
    bc_committee (nd_core nd') = sample_committee 4 \<and> bc_nodeID (nd_core nd') = bc_nodeID (nd_core nd) \<and>
    bc_sigService (nd_core nd') = bc_sigService (nd_core nd) \<and>
    bs_Proposer (bspb_at (nd_core nd') 0 0) = bs_Proposer (bspb_at (nd_core nd) 0 0) \<and>
    bs_blockHash (bspb_at (nd_core nd') 0 0) HEIGHT_1 = sample_hash \<and>
    bs_voteNums (bspb_at (nd_core nd') 0 0) HEIGHT_1 = bs_voteNums (bspb_at (nd_core nd) 0 0) HEIGHT_1 + 1 \<and>
    (\<exists>gs. nd_gos nd' = gs @ [([], if bs_voteNums (bspb_at (nd_core nd) 0 0) HEIGHT_1 + 1 = 3
        then Some (0, 0, BVoteQc (sample_own k)) else None)])"
proof -
  from big_deliver_vote[of nd sample_cx "sample_own k" "\<lambda>_. True" "sample_dx [sample_block 0 0 HEIGHT_1]" "sample_committee 4"]
  obtain nd' where "node_run sample_big (\<lambda>_. True) nd [EGo (0, 0, BVote (sample_own k))] nd'" "idle nd'"
    and c: "nd_core nd' = put_bspb 0 0
         ((bspb_at (nd_core nd) 0 0)\<lparr>bs_voteNums := (bs_voteNums (bspb_at (nd_core nd) 0 0))
            (HEIGHT_1 := bs_voteNums (bspb_at (nd_core nd) 0 0) HEIGHT_1 + 1)\<rparr>) (BigCore_getSpbInstance 0 0 (nd_core nd))"
    and g: "nd_gos nd' = nd_gos nd @ [([], if bs_voteNums (bspb_at (nd_core nd) 0 0) HEIGHT_1 + 1 = 3
        then Some (0, 0, BVoteQc (sample_own k)) else None)]"
    using assms by (auto simp: in_heights_def Let_def sample_big_def)
  then show ?thesis using assms(2,4) by (intro exI[of _ nd'] conjI exI[of _ "nd_gos nd"]) (simp_all add: c)
qed

theorem big_one_height2_per_view_witness:
  "\<exists>nd tr p. node_run sample_big (\<lambda>_. True)
     (boot_node (sample_bcore 0) [ESend 0 NONE (ProposeM (sample_proposal 0 0 HEIGHT_1)), EEnq (ProposeM (sample_proposal 0 0 HEIGHT_1))]) tr nd \<and>
     height2_of 0 tr = [p] \<and> own_certificate 0 0 p"
proof -
  let ?effs = "[ESend 0 NONE (ProposeM (sample_proposal 0 0 HEIGHT_1)), EEnq (ProposeM (sample_proposal 0 0 HEIGHT_1))] :: big_go effect list"
  let ?run = "node_run sample_big (\<lambda>_. True)"
  obtain nd0 where 0: "?run (boot_node (sample_bcore 0) ?effs) [EGo (0, 0, BPropose (sample_proposal 0 0 HEIGHT_1))] nd0"
      "idle nd0" "bc_committee (nd_core nd0) = sample_committee 4" "bc_nodeID (nd_core nd0) = 0"
      "bc_sigService (nd_core nd0) = sample_service" "bs_Proposer (bspb_at (nd_core nd0) 0 0) = 0"
      "bs_voteNums (bspb_at (nd_core nd0) 0 0) HEIGHT_1 = 0" "bs_blockHash (bspb_at (nd_core nd0) 0 0) HEIGHT_1 = sample_hash"
    using sample_big_ready by blast
  from sample_big_vote[OF 0(2,3) _ 0(8), of 1] obtain nd1 where 1: "?run nd0 [EGo (0, 0, BVote (sample_own 1))] nd1"
      "idle nd1" "bc_committee (nd_core nd1) = sample_committee 4" "bc_nodeID (nd_core nd1) = 0"
      "bc_sigService (nd_core nd1) = sample_service" "bs_Proposer (bspb_at (nd_core nd1) 0 0) = 0"
      "bs_voteNums (bspb_at (nd_core nd1) 0 0) HEIGHT_1 = 1" "bs_blockHash (bspb_at (nd_core nd1) 0 0) HEIGHT_1 = sample_hash"
    using 0 by auto
  from sample_big_vote[OF 1(2,3) _ 1(8), of 2] obtain nd2 where 2: "?run nd1 [EGo (0, 0, BVote (sample_own 2))] nd2"
      "idle nd2" "bc_committee (nd_core nd2) = sample_committee 4" "bc_nodeID (nd_core nd2) = 0"
      "bc_sigService (nd_core nd2) = sample_service" "bs_Proposer (bspb_at (nd_core nd2) 0 0) = 0"
      "bs_voteNums (bspb_at (nd_core nd2) 0 0) HEIGHT_1 = 2" "bs_blockHash (bspb_at (nd_core nd2) 0 0) HEIGHT_1 = sample_hash"
    using 1 by auto
  from sample_big_vote[OF 2(2,3) _ 2(8), of 3] obtain nd3 gs where 3: "?run nd2 [EGo (0, 0, BVote (sample_own 3))] nd3"
      "idle nd3" "bc_nodeID (nd_core nd3) = 0" "bc_sigService (nd_core nd3) = sample_service"
      "bs_Proposer (bspb_at (nd_core nd3) 0 0) = 0" "nd_gos nd3 = gs @ [([], Some (0, 0, BVoteQc (sample_own 3)))]"
    using 2 by auto
  obtain tr4 nd4 p where 4: "?run nd3 tr4 nd4" "spawned tr4 = {#}" "sent_proposals tr4 = [p]" "pm_View p = 0" "pm_Height p = HEIGHT_2"
    using big_certify_own[of nd3 gs "sample_own 3" sample_cx "sample_dx [sample_block 0 0 HEIGHT_1]" "sample_committee 4" "\<lambda>_. True"] 3
    unfolding sample_big_def by auto
  note run = node_run_trans[OF 4(1) node_run_trans[OF 3(1) node_run_trans[OF 2(1) node_run_trans[OF 1(1) 0(1)]]]]
  let ?tr = "((([EGo (0, 0, BPropose (sample_proposal 0 0 HEIGHT_1))] @ [EGo (0, 0, BVote (sample_own 1))]) @
      [EGo (0, 0, BVote (sample_own 2))]) @ [EGo (0, 0, BVote (sample_own 3))]) @ tr4"
  have v: "votes_started 0 0 ?tr < 2 ^ 32" and h: "height2_of 0 ?tr = [p]"
    using 4 by (simp_all add: votes_started_def height2_of_def)
  have "own_certificate 0 0 p"
    using big_one_height2_per_view[OF sample_big_boot[unfolded sample_bcore_def] _ run[unfolded sample_big_def sample_bcore_def] v] 4
    by (simp add: height2_of_def)
  with run h show ?thesis by (intro exI conjI)
qed

text \<open>
  C37. The votes of the big protocol are not tied to a block. Suppose a node has counted all but
  one of the votes it needs in an instance, for whatever block. If the proposer then sends another
  height-1 block, a single vote for that block gives the node a certificate for it: the
  counter is kept while the digest is replaced.
\<close>

theorem big_certificate_mixes_votes:
  assumes "idle nd" "ProposeMsg_Verify cx (bc_committee (nd_core nd)) p = Some True" "pm_B p = Some b" "pm_Height p = HEIGHT_1"
    and "storeBlock cx dx (bc_store (nd_core nd)) b = (None, db)"
    and "VoteMsg_Verify cx (bc_committee (nd_core nd)) w = Some True" "vm_Height w = HEIGHT_1" "vm_BlockHash w = Block_Hash cx b"
    and "vm_View w = pm_View p" "vm_Proposer w = pm_Author p"
    and "bs_voteNums (bspb_at (nd_core nd) (pm_View p) (pm_Author p)) HEIGHT_1 + 1 = threshold32 (bc_committee (nd_core nd))"
  shows "\<exists>tr nd' qc. node_run (big_machine cx dx c) (\<lambda>m. m \<in> {ProposeM p, VoteM w}) nd tr nd' \<and>
    bs_blockQcs (bspb_at (nd_core nd') (pm_View p) (pm_Author p)) HEIGHT_1 = Some qc \<and> qc_ParentBlockHash qc = Block_Hash cx b"
proof -
  let ?net = "\<lambda>m. m \<in> {ProposeM p, VoteM w}" and ?g = "(pm_View p, pm_Author p, BVoteQc w)"
  obtain nd1 where 1: "node_run (big_machine cx dx c) ?net nd [EGo (pm_View p, pm_Author p, BPropose p)] nd1" "idle nd1"
      "bc_committee (nd_core nd1) = bc_committee (nd_core nd)"
      "bspb_at (nd_core nd1) (pm_View p) (pm_Author p) = (bspb_at (nd_core nd) (pm_View p) (pm_Author p))
        \<lparr>bs_preQc := b_Qc b, bs_blockHash := (bs_blockHash (bspb_at (nd_core nd) (pm_View p) (pm_Author p)))(HEIGHT_1 := Block_Hash cx b)\<rparr>"
    using big_deliver_proposal[OF assms(1-5), of ?net c] by auto
  obtain nd2 where 2: "node_run (big_machine cx dx c) ?net nd1 [EGo (vm_View w, vm_Proposer w, BVote w)] nd2" "idle nd2"
      "nd_gos nd2 = nd_gos nd1 @ [([], Some ?g)]"
    using big_deliver_vote[of nd1 cx w ?net dx c] 1 assms(6-11) by (auto simp: in_heights_def Let_def)
  let ?s = "bspb_at (nd_core nd2) (pm_View p) (pm_Author p)"
  let ?core = "put_bspb (pm_View p) (pm_Author p) (BigSPB_vote_qc ?s w) (nd_core nd2)"
  let ?nd3 = "nd2\<lparr>nd_core := ?core, nd_gos := (nd_gos nd2)[length (nd_gos nd1) := ([], Some (pm_View p, pm_Author p, BVoteAct w))]\<rparr>"
  have "mc_section (big_machine cx dx c) (nd_core nd2) ?g = Some (?core, [], Some (pm_View p, pm_Author p, BVoteAct w))"
    by (simp add: big_machine_def BigCore_section_def Let_def)
  then have "node_step (big_machine cx dx c) ?net nd2 [] ?nd3"
    by (rule node_step.go_section[rotated 3]) (use 2 in \<open>simp_all add: idle_def\<close>)
  from node_run.more[OF node_run_trans[OF 2(1) 1(1)] this]
  have "node_run (big_machine cx dx c) ?net nd [EGo (pm_View p, pm_Author p, BPropose p), EGo (vm_View w, vm_Proposer w, BVote w)] ?nd3"
    by simp
  moreover have "bs_blockQcs (bspb_at (nd_core ?nd3) (pm_View p) (pm_Author p)) HEIGHT_1 = Some (BigSPB_qc ?s w)"
      "qc_ParentBlockHash (BigSPB_qc ?s w) = Block_Hash cx b"
    using assms(7,8) by (simp_all add: BigSPB_vote_qc_def) (simp add: BigSPB_qc_def)
  ultimately show ?thesis by blast
qed

text \<open>Node 0 has counted two votes for a block with digest \<open>[9]\<close>.\<close>

theorem big_certificate_mixes_votes_witness:
  "\<exists>tr nd' qc. node_run sample_big (\<lambda>m. m \<in> {ProposeM (sample_proposal 0 0 HEIGHT_1), VoteM (sample_own 3)})
     (boot_node (put_bspb 0 0 ((NewBigSPB 0 0)\<lparr>bs_blockHash := (\<lambda>_. [9]), bs_voteNums := (\<lambda>_. 2)\<rparr>) (sample_bcore 0)) []) tr nd' \<and>
     bs_blockQcs (bspb_at (nd_core nd') 0 0) HEIGHT_1 = Some qc \<and> qc_ParentBlockHash qc = sample_hash"
proof -
  let ?core = "put_bspb 0 0 ((NewBigSPB 0 0)\<lparr>bs_blockHash := (\<lambda>_. [9]), bs_voteNums := (\<lambda>_. 2)\<rparr>) (sample_bcore 0)"
  let ?nd = "boot_node ?core [] :: (_, big_go) node"
  have nd: "nd_core ?nd = ?core" "idle ?nd" by (simp_all add: boot_node_def idle_def)
  obtain db where "storeBlock sample_cx (sample_dx [sample_block 0 0 HEIGHT_1]) (bc_store ?core) (sample_block 0 0 HEIGHT_1) = (None, db)"
    using sample_store by blast
  moreover have "bc_committee ?core = sample_committee 4" by (simp add: sample_bcore_def NewBigCore_def)
  ultimately show ?thesis
    using big_certificate_mixes_votes[of ?nd sample_cx "sample_proposal 0 0 HEIGHT_1" "sample_block 0 0 HEIGHT_1"
        "sample_dx [sample_block 0 0 HEIGHT_1]" db "sample_own 3" "sample_committee 4"] nd
    by (simp add: sample_hash_def sample_big_def)
qed

end
