(* ===== verification/Big_Panics.thy ===== *)
theory Big_Panics
  imports Big_Proposals
begin

text \<open>
  A node of the big protocol does not panic as long as the network delivers well-formed
  messages; one ill-formed proposal makes it panic on its own vote. And the speed votes of other
  nodes never count.
\<close>

section \<open>The invariant\<close>

definition big_ok :: "'k crypto_ext \<Rightarrow> Committee \<Rightarrow> node_id \<Rightarrow> 'k SigService \<Rightarrow> ('k, 'db) BigCore \<Rightarrow> bool" where
  "big_ok cx c i srvc core \<longleftrightarrow>
     setup_ok cx c i srvc \<and> bc_nodeID core = i \<and> bc_committee core = c \<and> bc_sigService core = srvc \<and>
     el_committee (bc_eletor core) = c \<and> (\<forall>v n. bspb_ok (propose_wf c) (bspb_at core v n))"

abbreviation big_go_ok :: "Committee \<Rightarrow> big_go \<Rightarrow> bool" where
  "big_go_ok c g \<equiv> big_task_ok (propose_wf c) (snd (snd g))"

abbreviation big_effects_ok :: "Committee \<Rightarrow> big_go effect list \<Rightarrow> bool" where
  "big_effects_ok c \<equiv> list_all (effect_ok (msg_wf c) (big_go_ok c) (\<lambda>_ _. True))"

lemma big_ok_same: "big_ok cx c i srvc core \<Longrightarrow> bc_same core core' \<Longrightarrow> big_ok cx c i srvc core'"
  by (simp add: big_ok_def bc_same_def)

lemma big_ok_upd [simp]:
  "big_ok cx c i srvc (core\<lparr>bc_txpool := x1\<rparr>) = big_ok cx c i srvc core"
  "big_ok cx c i srvc (core\<lparr>bc_view := x2\<rparr>) = big_ok cx c i srvc core"
  "big_ok cx c i srvc (core\<lparr>bc_reportNums := x3\<rparr>) = big_ok cx c i srvc core"
  "big_ok cx c i srvc (core\<lparr>bc_commitor := x4\<rparr>) = big_ok cx c i srvc core"
  "big_ok cx c i srvc (BigCore_getSpbInstance v n core) = big_ok cx c i srvc core"
  by (simp_all add: big_ok_def)

lemma BigCore_propose_ok:
  assumes "big_ok cx c i srvc core" "in_heights h" "h = HEIGHT_2 \<longrightarrow> qc \<noteq> None"
  shows "\<exists>core' effs. BigCore_propose cx core view h qc = Some (core', effs) \<and> bc_same core core' \<and> big_effects_ok c effs"
proof -
  have "can_sign (bc_sigService core)" "has_key c (bc_nodeID core)" using assms(1) by (simp_all add: big_ok_def setup_ok_def)
  then obtain core' effs where p: "BigCore_propose cx core view h qc = Some (core', effs)"
    by (cases "BigCore_propose cx core view h qc")
       (auto simp: BigCore_propose_def BigCore_generatorBlock_def Option.bind_eq_None_conv split: prod.splits)
  from BigCore_propose_outcome[OF p] show ?thesis
    using assms(2,3) \<open>has_key c (bc_nodeID core)\<close> p by (auto simp: propose_wf_def)
qed

lemma BigCore_processCoin_ok:
  assumes "big_ok cx c i srvc core"
  shows "\<exists>core' effs err. BigCore_processCoin cx dx core leader view = Some (core', effs, err) \<and> big_effects_ok c effs"
proof (cases "BigCore_coin_commit dx (BigCore_getSpbInstance view leader core) (bspb_at core view leader)")
  case (Inl e)
  then show ?thesis by (simp add: BigCore_processCoin_def Let_def)
next
  case (Inr r)
  obtain core2 ceffs where r: "r = (core2, ceffs)" by (cases r)
  have "can_sign (bc_sigService core2)"
    using BigCore_coin_commit_outcome[OF Inr[unfolded r]] assms by (auto simp: big_ok_def setup_ok_def)
  then obtain core' effs err where p: "BigCore_processCoin cx dx core leader view = Some (core', effs, err)"
    using Inr r by (cases "BigCore_processCoin cx dx core leader view")
      (auto simp: BigCore_processCoin_def Let_def Option.bind_eq_None_conv split: prod.splits)
  moreover have "big_effects_ok c effs"
    using BigCore_processCoin_outcome[OF p] assms by (auto simp: big_ok_def setup_ok_def)
  ultimately show ?thesis by blast
qed

lemma BigCore_handleElectMsg_ok:
  assumes "big_ok cx c i srvc core"
  shows "\<exists>core' effs err. BigCore_handleElectMsg cx dx core (Some e) = Some (core', effs, err) \<and> big_effects_ok c effs"
proof -
  have st: "setup_ok cx c i srvc" "el_committee (bc_eletor core) = c" using assms by (simp_all add: big_ok_def)
  obtain el res where add: "Elector_Add cx (bc_eletor core) e = Some (el, res)"
    using setup_Elector_Add[OF st, of e] by auto
  have "big_ok cx c i srvc (core\<lparr>bc_eletor := el\<rparr>)"
    using assms Elector_Add_committee[OF add] by (simp add: big_ok_def)
  from BigCore_processCoin_ok[OF this] add show ?thesis
    by (cases res) (auto simp: BigCore_handleElectMsg_def Let_def)
qed

lemma BigCore_handleReportMsg_ok:
  assumes "big_ok cx c i srvc core" "has_key c (rm_Author r)" "rm_Level r < 3"
  shows "\<exists>core' effs err. BigCore_handleReportMsg cx core r = Some (core', effs, err) \<and> big_effects_ok c effs"
proof -
  have st: "bc_committee core = c" using assms(1) by (simp add: big_ok_def)
  have adv: "\<exists>core' effs. BigCore_advanceView cx (core\<lparr>bc_reportNums := nums\<rparr>) view qc = Some (core', effs) \<and> big_effects_ok c effs"
    for nums view qc
    using BigCore_propose_ok[of cx c i srvc "core\<lparr>bc_reportNums := nums, bc_view := view\<rparr>" HEIGHT_1 qc view] assms(1)
    by (auto simp: BigCore_advanceView_def in_heights_def)
  let ?nums = "(bc_reportNums core)(rm_View r := (bc_reportNums core (rm_View r))(rm_Level r := bc_reportNums core (rm_View r) (rm_Level r) + 1))"
  obtain core' effs where "BigCore_advanceView cx (core\<lparr>bc_reportNums := ?nums\<rparr>) (wrap64 (rm_View r + 1)) (rm_BlockQc r) = Some (core', effs)"
      "big_effects_ok c effs" using adv by blast
  moreover obtain ok where "ReportMsg_Verify cx c r = Some ok" using verify_defined(5)[OF assms(2), of cx] by auto
  ultimately show ?thesis using assms(3) st
    by (auto simp: BigCore_handleReportMsg_def verified_Some Let_def)
qed

lemma BigCore_handle_ok:
  assumes "big_ok cx c i srvc core" "input_ok (msg_wf c) (\<lambda>_ _. True) inp"
  shows "\<exists>core' effs err. BigCore_handle cx dx core inp = Some (core', effs, err) \<and> big_effects_ok c effs"
proof (cases inp)
  case (InMsg m)
  with assms(2) have wf: "msg_wf c m" by simp
  have st: "bc_committee core = c" "bc_nodeID core = i" "bc_sigService core = srvc" "setup_ok cx c i srvc"
    using assms(1) by (simp_all add: big_ok_def)
  show ?thesis
  proof (cases m)
    case (ProposeM p)
    with wf have p: "propose_wf c p" by simp
    then obtain b where b: "pm_B p = Some b" by (auto simp: propose_wf_def split: option.splits)
    obtain ok where "ProposeMsg_Verify cx c p = Some ok" using propose_verify_defined[OF p, of cx] by auto
    then show ?thesis using ProposeM InMsg st p b
      by (cases "storeBlock cx dx (bc_store core) b")
         (auto simp: BigCore_handleProposeMsg_def verified_Some split: option.split)
  next
    case (VoteM v)
    obtain ok where "VoteMsg_Verify cx c v = Some ok" using verify_defined(1)[of c v cx] wf VoteM by auto
    then show ?thesis using VoteM InMsg st wf by (auto simp: BigCore_handleVoteMsg_def verified_Some)
  next
    case (SpeedVoteM sv)
    obtain ok where ok: "SpeedVoteMsg_Verify cx c sv = Some ok" using verify_defined(3)[of c sv cx] wf SpeedVoteM by auto
    obtain m where "elect_effects cx srvc i (sv_View sv) = Some [ESend i NONE (ElectM (Some m)), EEnq (ElectM (Some m)) :: big_go effect]"
      using setup_elect_effects[of cx c i srvc "sv_View sv"] st(4) by auto
    then show ?thesis using SpeedVoteM InMsg st ok by (auto simp: BigCore_handleSpeedVoteMsg_def verified_Some Let_def)
  next
    case (ElectM oe)
    with wf obtain e where "oe = Some e" by auto
    then show ?thesis using ElectM InMsg BigCore_handleElectMsg_ok[OF assms(1), of dx e] by simp
  next
    case (ReportM r)
    then show ?thesis using InMsg wf BigCore_handleReportMsg_ok[OF assms(1), of r] by simp
  qed (use InMsg in simp_all)
qed simp

lemma BigCore_section_ok:
  assumes "big_ok cx c i srvc core" "big_go_ok c g"
  shows "\<exists>core' effs g'. BigCore_section cx core g = Some (core', effs, g') \<and>
    big_ok cx c i srvc core' \<and> big_effects_ok c effs \<and> pred_option (big_go_ok c) g'"
proof -
  obtain view node t where g: "g = (view, node, t)" by (cases g) auto
  let ?s = "bspb_at core view node"
  have st: "bc_committee core = c" "bc_nodeID core = i" "bc_sigService core = srvc" "can_sign srvc" "has_key c i"
    and s: "bspb_ok (propose_wf c) ?s" using assms(1) by (simp_all add: big_ok_def setup_ok_def)
  show ?thesis
  proof (cases "\<exists>v. t = BVoteAct v \<and> vm_Height v = HEIGHT_1 \<and> bs_Proposer ?s = bc_nodeID core")
    case True
    then obtain v where v: "t = BVoteAct v" "vm_Height v = HEIGHT_1" "bs_Proposer ?s = bc_nodeID core" by blast
    from BigCore_propose_ok[OF assms(1), of HEIGHT_2 "Some (BigSPB_qc ?s v)" "vm_View v"]
    obtain core' effs where "BigCore_propose cx core (vm_View v) HEIGHT_2 (Some (BigSPB_qc ?s v)) = Some (core', effs)"
        "bc_same core core'" "big_effects_ok c effs" by (auto simp: in_heights_def)
    then show ?thesis using v g big_ok_same[OF assms(1)] by (simp add: BigCore_section_def Let_def)
  next
    case False
    have "\<exists>s' effs nx. BigSPB_section cx c i srvc ?s t = Some (s', effs, nx) \<and> bspb_ok (propose_wf c) s' \<and>
        inst_effects_ok (propose_wf c) c effs \<and> pred_option (big_task_ok (propose_wf c)) nx"
    proof (cases "\<exists>p. t = BPropose p")
      case True
      then obtain p where p: "t = BPropose p" "propose_wf c p" using assms(2) g by auto
      from BigSPB_propose_ok[OF s p(2), of cx] obtain s' nx where "BigSPB_propose_start cx ?s p = Some (s', nx)"
          "bspb_ok (propose_wf c) s'" "pred_option (big_task_ok (propose_wf c)) nx" by blast
      then show ?thesis using p(1) by simp
    next
      case False
      then show ?thesis
        using assms(2) g by (intro BigSPB_section_ok[OF s _ st(4,5)]) (auto simp: propose_wf_votable)
    qed
    then obtain s' effs nx where x: "BigSPB_section cx c i srvc ?s t = Some (s', effs, nx)" "bspb_ok (propose_wf c) s'"
        "inst_effects_ok (propose_wf c) c effs" "pred_option (big_task_ok (propose_wf c)) nx" by blast
    have "BigCore_section cx core g = Some (put_bspb view node s' core, map (map_effect (\<lambda>t. (view, node, t))) effs,
        map_option (\<lambda>t. (view, node, t)) nx)"
      using False x(1) st g by (cases t) (auto simp: BigCore_section_def Let_def simp del: BigSPB_section.simps)
    moreover have "big_ok cx c i srvc (put_bspb view node s' core)" using assms(1) x(2) by (simp add: big_ok_def)
    moreover have "(\<lambda>t. big_task_ok (propose_wf c) (snd (snd (view, node, t)))) = big_task_ok (propose_wf c)" by simp
    ultimately show ?thesis using x(3,4) by (simp add: list.pred_map comp_def option.pred_map)
  qed
qed

interpretation big_safe: node_safe "big_machine cx dx c" "msg_wf c" "\<lambda>core tr. big_ok cx c i srvc core"
    "msg_wf c" "big_go_ok c" "\<lambda>_ _. True"
  for cx :: "'k crypto_ext" and dx :: "'db store_ext" and c i srvc
proof
  fix core :: "('k, 'db) BigCore" and inp core' effs err
  assume ok: "big_ok cx c i srvc core" "input_ok (msg_wf c) (\<lambda>_ _. True) inp"
    and h: "mc_handle (big_machine cx dx c) core inp = Some (core', effs, err)"
  from h have "bc_same core core'"
    using BigCore_handle_step[of cx dx core inp core' effs err] by (simp add: big_machine_def big_step_def)
  then show "big_ok cx c i srvc core' \<and> big_effects_ok c effs"
    using big_ok_same[OF ok(1)] BigCore_handle_ok[OF ok, of dx] h by (simp add: big_machine_def)
next
  fix core :: "('k, 'db) BigCore" and g core' effs g'
  assume "big_ok cx c i srvc core" "big_go_ok c g"
    and "mc_section (big_machine cx dx c) core g = Some (core', effs, g')"
  then show "big_ok cx c i srvc core' \<and> big_effects_ok c effs \<and> pred_option (big_go_ok c) g'"
    using BigCore_section_ok[of cx c i srvc core g] by (auto simp: big_machine_def)
next
  fix core :: "('k, 'db) BigCore" and inp
  assume "big_ok cx c i srvc core" "input_ok (msg_wf c) (\<lambda>_ _. True) inp"
  then show "mc_handle (big_machine cx dx c) core inp \<noteq> None"
    using BigCore_handle_ok[of cx c i srvc core inp dx] by (auto simp: big_machine_def)
next
  fix core :: "('k, 'db) BigCore" and g
  assume "big_ok cx c i srvc core" "big_go_ok c g"
  then show "mc_section (big_machine cx dx c) core g \<noteq> None"
    using BigCore_section_ok[of cx c i srvc core g] by (auto simp: big_machine_def)
qed (auto simp: big_machine_def BigCore_background_def msg_wf_consensus)

lemma BigCore_new_ok: "setup_ok cx c i srvc \<Longrightarrow> big_ok cx c i srvc (NewBigCore i c pr pool db srvc)"
  by (simp add: big_ok_def NewBigCore_def NewElector_def)

lemma BigCore_boot_ok:
  assumes "setup_ok cx c i srvc" "BigCore_boot cx (NewBigCore i c pr pool db srvc) = Some (core, effs)"
  shows "big_ok cx c i srvc core \<and> big_effects_ok c effs"
  using BigCore_propose_ok[of cx c i srvc "NewBigCore i c pr pool db srvc" HEIGHT_1 None 0] assms(2)
    BigCore_new_ok[OF assms(1), of pr pool db] big_ok_same[OF BigCore_new_ok[OF assms(1)]]
  by (auto simp: BigCore_boot_def in_heights_def NewBigCore_def split: if_splits)

text \<open>
  A node of the big protocol whose own keys are in order never panics, however the goroutines
  interleave, as long as the network delivers well-formed messages only.
\<close>

theorem big_never_panics:
  assumes "setup_ok cx c i srvc" "BigCore_boot cx (NewBigCore i c pr pool db srvc) = Some (core, effs)"
    and "node_run (big_machine cx dx c) (msg_wf c) (boot_node core effs) tr nd"
  shows "nd_alive nd"
  using big_safe.run_alive[OF assms(3), of i srvc] BigCore_boot_ok[OF assms(1,2)] by simp

theorem big_never_panics_witness:
  "\<exists>tr nd. node_run sample_big (msg_wf (sample_committee 4))
     (boot_node (sample_bcore 0) [ESend 0 NONE (ProposeM (sample_proposal 0 0 HEIGHT_1)), EEnq (ProposeM (sample_proposal 0 0 HEIGHT_1))]) tr nd \<and>
     height1_views tr = [1] \<and> nd_alive nd"
proof -
  let ?effs = "[ESend 0 NONE (ProposeM (sample_proposal 0 0 HEIGHT_1)), EEnq (ProposeM (sample_proposal 0 0 HEIGHT_1))] :: big_go effect list"
  let ?tr = "[ESend 0 NONE (ProposeM (sample_proposal 0 1 HEIGHT_1)), EEnq (ProposeM (sample_proposal 0 1 HEIGHT_1))] :: big_go effect list"
  obtain nd where x: "exec sample_big [Deliver (ReportM (sample_report 2 0 LEVEL_2)), Main, Main, Main]
      (boot_node (sample_bcore 0) ?effs) = Some (nd, ?tr)"
    using sample_big_report by blast
  have run: "node_run sample_big (msg_wf (sample_committee 4)) (boot_node (sample_bcore 0) ?effs) ?tr nd"
    by (rule exec_run[OF x]) (simp_all add: boot_node_def)
  have "nd_alive nd"
    using big_never_panics[OF sample_setup sample_big_boot[unfolded sample_bcore_def] run[unfolded sample_big_def sample_bcore_def]]
    by simp
  with run show ?thesis by (intro exI[of _ ?tr] exI[of _ nd]) (simp add: height1_views_def)
qed

section \<open>A proposal that kills\<close>

text \<open>
  One proposal of any committee member stops a node of the big protocol: if the proposal's
  height is neither 1 nor 2, the node votes for it, and panics when it handles its own vote.
\<close>

theorem big_proposal_kills_node:
  assumes "idle nd" "length (nd_msgCh nd) < send_cap" "key_pair cx (Committee_Name (bc_committee (nd_core nd)) (bc_nodeID (nd_core nd))) (ss_PriKey (bc_sigService (nd_core nd)))"
    and "can_sign (bc_sigService (nd_core nd))"
    and "ProposeMsg_Verify cx (bc_committee (nd_core nd)) p = Some True" "pm_B p = Some b" "\<not> in_heights (b_Height b)" "pm_Height p = b_Height b"
    and "storeBlock cx dx (bc_store (nd_core nd)) b = (None, db)"
  shows "\<exists>tr nd'. node_run (big_machine cx dx c) (\<lambda>m. m = ProposeM p) nd tr nd' \<and> \<not> nd_alive nd'"
proof -
  let ?core = "nd_core nd" and ?k = "length (nd_gos nd)"
  have h: "pm_Height p \<noteq> HEIGHT_1" "pm_Height p \<noteq> HEIGHT_2" using assms(7,8) by (auto simp: in_heights_def)
  obtain v where v: "NewVoteMsg cx (bc_sigService ?core) (bc_nodeID ?core) b = Some v"
    using assms(4) by (cases "NewVoteMsg cx (bc_sigService ?core) (bc_nodeID ?core) b") auto
  have ver: "VoteMsg_Verify cx (bc_committee ?core) v = Some True"
    using assms(3) NewVoteMsg_fields[OF v] New_msg_signed(2)[OF v] by (auto intro: vote_msg.own_signature_verifies)
  have vh: "\<not> in_heights (vm_Height v)" using NewVoteMsg_fields[OF v] assms(7) by simp
  let ?moves = "[Deliver (ProposeM p), Main, Main, Go ?k, Go ?k, Go ?k, Go ?k, Main, Main]"
  obtain nd1 tr where x: "exec (big_machine cx dx c) ?moves nd = Some (nd1, tr)"
      and nd1: "nd_gos nd1 ! Suc ?k = ([], Some (vm_View v, vm_Proposer v, BVote v))" "length (nd_gos nd1) = Suc (Suc ?k)" "nd_alive nd1"
    using assms(1,2,5,6,9) h v ver
    by (simp add: idle_def recv_cap_def big_machine_def BigCore_handleProposeMsg_def BigCore_handleVoteMsg_def verified_def
        BigCore_section_def BigSPB_propose_start_def BigSPB_propose_vote_def Let_def nth_append)
  have run: "node_run (big_machine cx dx c) (\<lambda>m. m = ProposeM p) nd tr nd1"
    by (rule exec_run[OF x]) (use assms(1) in \<open>simp_all add: idle_def\<close>)
  have "mc_section (big_machine cx dx c) (nd_core nd1) (vm_View v, vm_Proposer v, BVote v) = None"
    using vh by (simp add: big_machine_def BigCore_section_def BigSPB_vote_start_def Let_def)
  then have "node_step (big_machine cx dx c) (\<lambda>m. m = ProposeM p) nd1 [] (nd1\<lparr>nd_alive := False\<rparr>)"
    using nd1 by (intro node_step.go_panic) auto
  from node_run.more[OF run this] have "node_run (big_machine cx dx c) (\<lambda>m. m = ProposeM p) nd (tr @ []) (nd1\<lparr>nd_alive := False\<rparr>)" .
  moreover have "\<not> nd_alive (nd1\<lparr>nd_alive := False\<rparr>)" by simp
  ultimately show ?thesis by blast
qed

theorem big_proposal_kills_node_witness:
  "\<exists>tr nd'. node_run (big_machine sample_cx (sample_dx [sample_block 2 0 5]) (sample_committee 4)) (\<lambda>m. m = ProposeM (sample_proposal 2 0 5))
     (boot_node (sample_bcore 0) []) tr nd' \<and> \<not> nd_alive nd'"
proof -
  let ?nd = "boot_node (sample_bcore 0) [] :: (_, big_go) node"
  have nd: "nd_core ?nd = sample_bcore 0" "idle ?nd" "length (nd_msgCh ?nd) < send_cap"
    by (simp_all add: boot_node_def idle_def send_cap_def)
  have core: "bc_committee (sample_bcore 0) = sample_committee 4" "bc_nodeID (sample_bcore 0) = 0"
      "bc_sigService (sample_bcore 0) = sample_service"
    by (simp_all add: sample_bcore_def NewBigCore_def)
  obtain db where "storeBlock sample_cx (sample_dx [sample_block 2 0 5]) (bc_store (sample_bcore 0)) (sample_block 2 0 5) = (None, db)"
    by (simp add: storeBlock_def sample_dx_def)
  moreover have "\<not> in_heights (b_Height (sample_block 2 0 5))" "b_Height (sample_block 2 0 5) = 5"
    by (simp_all add: in_heights_def sample_block_def)
  ultimately show ?thesis
    using big_proposal_kills_node[of ?nd sample_cx "sample_proposal 2 0 5" "sample_block 2 0 5" "sample_dx [sample_block 2 0 5]" db
        "sample_committee 4"] nd sample_member_key[of 0]
    unfolding nd core by simp
qed

section \<open>Speed votes\<close>

text \<open>
  The speed votes for the block of \<open>n\<close> are handed to the instance of their author, which ignores
  those whose proposer is somebody else. So only the votes of \<open>n\<close> itself are counted for \<open>n\<close>.
\<close>

fun self_speed_vote :: "int \<Rightarrow> node_id \<Rightarrow> msg \<Rightarrow> bool" where
  "self_speed_vote v n (SpeedVoteM sv) \<longleftrightarrow> sv_View sv = v \<and> sv_Author sv = n \<and> sv_Proposer sv = n"
| "self_speed_vote v n _ \<longleftrightarrow> False"

fun no_speed_task :: "int \<Rightarrow> node_id \<Rightarrow> big_task \<Rightarrow> bool" where
  "no_speed_task v n (BSpeedVote sv) \<longleftrightarrow> sv_Proposer sv \<noteq> n \<or> sv_View sv \<noteq> v"
| "no_speed_task v n BSpeedCount \<longleftrightarrow> False"
| "no_speed_task v n BSpeedStore \<longleftrightarrow> False"
| "no_speed_task v n _ \<longleftrightarrow> True"

definition no_speed_inst :: "int \<Rightarrow> node_id \<Rightarrow> BigSPB \<Rightarrow> bool" where
  "no_speed_inst v n s \<longleftrightarrow> bs_Proposer s = n \<and> bs_View s = v \<and> bs_unHandleSpeedVote s = [] \<and> \<not> bs_isSpeedCert s"

definition no_speed :: "int \<Rightarrow> node_id \<Rightarrow> node_id \<Rightarrow> ('k, 'db) BigCore \<Rightarrow> bool" where
  "no_speed v n i core \<longleftrightarrow> bc_nodeID core = i \<and> no_speed_inst v n (bspb_at core v n)"

abbreviation no_speed_go :: "int \<Rightarrow> node_id \<Rightarrow> big_go \<Rightarrow> bool" where
  "no_speed_go v n g \<equiv> fst g = v \<and> fst (snd g) = n \<longrightarrow> no_speed_task v n (snd (snd g))"

abbreviation speed_effects_ok :: "int \<Rightarrow> node_id \<Rightarrow> big_go effect list \<Rightarrow> bool" where
  "speed_effects_ok v n \<equiv> list_all (effect_ok (\<lambda>m. \<not> self_speed_vote v n m) (no_speed_go v n) (\<lambda>_ _. True))"

text \<open>At the instance: its sections keep it without speed certificate, and its own speed vote is by \<open>i\<close>.\<close>

lemma BigSPB_section_no_speed:
  assumes "BigSPB_section cx c i srvc s t = Some (s', effs, nx)" "no_speed_inst v n s" "no_speed_task v n t"
  shows "no_speed_inst v n s' \<and> (\<forall>u \<in># go_pending (effs, nx). no_speed_task v n u)"
  using assms
  by (cases t)
     (auto simp: BigSPB_propose_start_def BigSPB_propose_wake_def BigSPB_propose_vote_def BigSPB_vote_start_def
      BigSPB_vote_count_def BigSPB_vote_qc_def BigSPB_speed_send_def BigSPB_speed_wake_def BigSPB_speed_start_def
      Option.bind_eq_Some_conv Let_def no_speed_inst_def go_pending_def split: if_splits prod.splits)

lemma BigSPB_section_enq:
  assumes "BigSPB_section cx c i srvc s t = Some (s', effs, nx)" "EEnq m \<in> set effs \<or> ESend j k m \<in> set effs" "i \<noteq> n"
  shows "\<not> self_speed_vote v n m"
  using assms
  by (cases t)
     (auto simp: BigSPB_propose_vote_def BigSPB_speed_send_def Option.bind_eq_Some_conv
      dest!: NewSpeedVoteMsg_fields split: if_splits prod.splits)

lemma no_speed_same: "bc_same core core' \<Longrightarrow> no_speed v n i core' = no_speed v n i core"
  by (simp add: no_speed_def bc_same_def)

lemma no_speed_handle:
  assumes "no_speed v n i core" "input_ok (\<lambda>m. \<not> self_speed_vote v n m) (\<lambda>_ _. True) inp" "big_step core inp effs core'"
  shows "no_speed v n i core' \<and> speed_effects_ok v n effs"
proof -
  have "\<forall>g \<in> set (big_spawn inp). no_speed_go v n g" using assms(2) by (cases inp rule: big_spawn.cases) auto
  then have "\<forall>g \<in># spawned effs. no_speed_go v n g" using assms(3) by (auto simp: big_step_def)
  moreover have "\<forall>m. EEnq m \<in> set effs \<longrightarrow> \<not> self_speed_vote v n m"
  proof (intro allI impI)
    fix m assume "EEnq m \<in> set effs"
    then show "\<not> self_speed_vote v n m" using assms(3) by (cases m) (simp_all add: big_step_def)
  qed
  moreover have "no_speed v n i core'" using assms(1,3) no_speed_same[of core core' v n i] by (simp add: big_step_def)
  moreover have "sends_enqueued effs" using assms(3) by (simp add: big_step_def)
  ultimately show ?thesis by (simp add: effects_ok_enqueued)
qed

lemma no_speed_section:
  assumes "no_speed v n i core" "i \<noteq> n" "no_speed_go v n (view, node, t)"
    and "BigCore_section cx core (view, node, t) = Some (core', effs, g')"
  shows "no_speed v n i core' \<and> speed_effects_ok v n effs \<and> pred_option (no_speed_go v n) g'"
  using assms(4)
proof (cases rule: BigCore_sectionE)
  case (inst s' ieffs nx)
  have enq: "(\<forall>m. EEnq m \<in> set effs \<longrightarrow> \<not> self_speed_vote v n m) \<and> (\<forall>j k m. ESend j k m \<in> set effs \<longrightarrow> \<not> self_speed_vote v n m)"
    using inst(3) BigSPB_section_enq[OF inst(1), of _ _ _ n v] assms(1,2) by (auto simp: no_speed_def)
  have sp: "spawned effs = image_mset (\<lambda>t. (view, node, t)) (spawned ieffs)" using inst(3) by simp
  show ?thesis
  proof (cases "view = v \<and> node = n")
    case True
    then have pre: "no_speed_inst v n (bspb_at core view node)" "no_speed_task v n t" using assms(1,3) by (auto simp: no_speed_def)
    have at: "no_speed_inst v n s'" "\<forall>u \<in># go_pending (ieffs, nx). no_speed_task v n u"
      using BigSPB_section_no_speed[OF inst(1) pre] by blast+
    from at(2) have "\<forall>g \<in># spawned effs. no_speed_go v n g" unfolding sp by (auto simp: go_pending_def)
    moreover from at(2) have "pred_option (no_speed_go v n) g'" unfolding inst(4) by (cases nx) (auto simp: go_pending_def)
    moreover have "no_speed v n i core'" using at(1) True assms(1) inst(2) by (simp add: no_speed_def)
    ultimately show ?thesis using enq by (simp add: effects_ok_parts)
  next
    case False
    then have "\<forall>g \<in># spawned effs. no_speed_go v n g" unfolding sp by auto
    moreover from False have "pred_option (no_speed_go v n) g'" unfolding inst(4) by (cases nx) auto
    moreover have "no_speed v n i core'" using False assms(1) inst(2) by (auto simp: no_speed_def)
    ultimately show ?thesis using enq by (simp add: effects_ok_parts)
  qed
next
  case (propose w)
  then show ?thesis using assms(1) BigCore_propose_outcome[OF propose(4)] by (auto simp: no_speed_def)
qed

interpretation big_speed: node_invariant "big_machine cx dx c" "\<lambda>m. \<not> self_speed_vote v n m"
    "\<lambda>core tr. i \<noteq> n \<and> no_speed v n i core" "\<lambda>m. \<not> self_speed_vote v n m" "no_speed_go v n" "\<lambda>_ _. True"
  for cx :: "'k crypto_ext" and dx :: "'db store_ext" and c i v n
proof
  fix core :: "('k, 'db) BigCore" and inp core' effs err
  assume "i \<noteq> n \<and> no_speed v n i core" "input_ok (\<lambda>m. \<not> self_speed_vote v n m) (\<lambda>_ _. True) inp"
    and "mc_handle (big_machine cx dx c) core inp = Some (core', effs, err)"
  then show "(i \<noteq> n \<and> no_speed v n i core') \<and> speed_effects_ok v n effs"
    using BigCore_handle_step[of cx dx core inp core' effs err] no_speed_handle[of v n i core inp effs core']
    by (simp add: big_machine_def)
next
  fix core :: "('k, 'db) BigCore" and g core' effs g'
  assume "i \<noteq> n \<and> no_speed v n i core" "no_speed_go v n g"
    and "mc_section (big_machine cx dx c) core g = Some (core', effs, g')"
  then show "(i \<noteq> n \<and> no_speed v n i core') \<and> speed_effects_ok v n effs \<and> pred_option (no_speed_go v n) g'"
    using no_speed_section[of v n i core "fst g" "fst (snd g)" "snd (snd g)" cx core' effs g'] by (simp add: big_machine_def)
qed (auto simp: big_machine_def BigCore_background_def no_speed_def)

text \<open>
  C38. In the big protocol the speed votes of other nodes never count: unless \<open>n\<close> itself sends a
  speed vote for its own block of view \<open>v\<close>, no node other than \<open>n\<close> ever has a speed certificate
  for that block, whatever speed votes all the others send. The height-2 block of \<open>n\<close> can then
  not be committed by the speed rule.
\<close>

theorem big_speed_certificate_needs_proposer:
  assumes "BigCore_boot cx (NewBigCore i c pr pool db srvc) = Some (core, effs)" "Faults pr \<le> i" "i \<noteq> n"
    and "node_run (big_machine cx dx c) (\<lambda>m. \<not> self_speed_vote v n m) (boot_node core effs) tr nd"
  shows "\<not> BigSPB_SpeedCert (bspb_at (nd_core nd) v n)"
proof -
  from BigCore_boot_outcome[OF assms(1,2)] obtain pool' p where
    "core = (NewBigCore i c pr pool db srvc)\<lparr>bc_txpool := pool'\<rparr>" "effs = [ESend i NONE (ProposeM p), EEnq (ProposeM p)]" by blast
  then have "no_speed v n i core" "speed_effects_ok v n effs"
    by (simp_all add: no_speed_def NewBigCore_def) (simp add: no_speed_inst_def NewBigSPB_def)
  with big_speed.run_invariant[OF _ _ assms(4), of i] assms(3) have "no_speed v n i (nd_core nd)" by blast
  then show ?thesis by (simp add: no_speed_def no_speed_inst_def BigSPB_SpeedCert_def)
qed

text \<open>Speed votes for node 2 from nodes 1 and 3, at node 0.\<close>

theorem big_speed_certificate_needs_proposer_witness:
  "\<exists>tr nd. node_run sample_big (\<lambda>m. \<not> self_speed_vote 0 2 m)
     (boot_node (sample_bcore 0) [ESend 0 NONE (ProposeM (sample_proposal 0 0 HEIGHT_1)), EEnq (ProposeM (sample_proposal 0 0 HEIGHT_1))]) tr nd \<and>
     spawned tr = {#(0, 1, BSpeedVote (sample_speedvote 1 2 [] 0)), (0, 3, BSpeedVote (sample_speedvote 3 2 [] 0))#} \<and>
     \<not> BigSPB_SpeedCert (bspb_at (nd_core nd) 0 2)"
proof -
  let ?effs = "[ESend 0 NONE (ProposeM (sample_proposal 0 0 HEIGHT_1)), EEnq (ProposeM (sample_proposal 0 0 HEIGHT_1))] :: big_go effect list"
  obtain nd tr where x: "exec sample_big [Deliver (SpeedVoteM (sample_speedvote 1 2 [] 0)), Deliver (SpeedVoteM (sample_speedvote 3 2 [] 0)),
        Main, Main, Main, Main, Go 0, Main, Main, Go 1] (boot_node (sample_bcore 0) ?effs) = Some (nd, tr)"
      and tr: "spawned tr = {#(0, 1, BSpeedVote (sample_speedvote 1 2 [] 0)), (0, 3, BSpeedVote (sample_speedvote 3 2 [] 0))#}"
    by (simp add: boot_node_def recv_cap_def send_cap_def sample_big_def big_machine_def BigCore_handleSpeedVoteMsg_def
        sample_bcore_def NewBigCore_def verified_def BigCore_section_def BigSPB_speed_start_def Let_def NewBigSPB_def)
  have run: "node_run sample_big (\<lambda>m. \<not> self_speed_vote 0 2 m) (boot_node (sample_bcore 0) ?effs) tr nd"
    by (rule exec_run[OF x]) (auto simp: boot_node_def)
  have "\<not> BigSPB_SpeedCert (bspb_at (nd_core nd) 0 2)"
    using big_speed_certificate_needs_proposer[OF sample_big_boot[unfolded sample_bcore_def] _ _ run[unfolded sample_big_def sample_bcore_def]]
    by simp
  with run tr show ?thesis by (intro exI conjI)
qed

end
