(* ===== verification/DAG_Commitor.thy ===== *)
theory DAG_Commitor
  imports Commitor
begin

text \<open>
  src/core/dag_commitor.go: the committer of the DAG variant. A block taken from
  \<open>blocksChan\<close> is committed together with everything it refers to, breadth first; a reference
  whose block cannot be read is skipped. As in Commitor.thy, \<open>dbs t\<close> is the database state that
  the goroutine's \<open>t\<close>-th read sees, and \<open>None\<close> is a loop that does not end.
\<close>

section \<open>Submitting blocks\<close>

record DAGCommitor =
  dc_lastView :: int
  dc_lastHeight :: "8 word"
  dc_committed :: "digest set"

definition NewDAGCommitor :: DAGCommitor where
  "NewDAGCommitor = \<lparr>dc_lastView = 0, dc_lastHeight = HEIGHT_1, dc_committed = {}\<rparr>"

definition DAGCommitor_Commit :: "DAGCommitor \<Rightarrow> Block \<Rightarrow> DAGCommitor \<times> Block option" where
  "DAGCommitor_Commit c b =
     (if b_View b < dc_lastView c \<or> (b_View b = dc_lastView c \<and> b_Height b < dc_lastHeight c)
      then (c, None)
      else (c\<lparr>dc_lastView := b_View b, dc_lastHeight := b_Height b\<rparr>, Some b))"

interpretation dag_cmt: commitor_interface DAGCommitor_Commit "\<lambda>c. (dc_lastView c, uint (dc_lastHeight c))"
  by unfold_locales
     (auto simp: DAGCommitor_Commit_def pos_le_def block_pos_def uint_less_iff)

section \<open>The goroutine\<close>

text \<open>The loop over the references of a block: the blocks that could be read.\<close>

fun DAGCommitor_refs ::
    "'db store_ext \<Rightarrow> (nat \<Rightarrow> 'db) \<Rightarrow> nat \<Rightarrow> BlockQC list \<Rightarrow> Block list \<times> nat" where
  "DAGCommitor_refs dx dbs t [] = ([], t)"
| "DAGCommitor_refs dx dbs t (qc # qcs) =
     (case DAGCommitor_refs dx dbs (Suc t) qcs of
        (bs, t') \<Rightarrow> (case getBlock dx (dbs t) (qc_ParentBlockHash qc) of Inr b \<Rightarrow> (b # bs, t') | Inl e \<Rightarrow> (bs, t')))"

text \<open>The loop over the queue; \<open>out\<close> collects the commits.\<close>

partial_function (option) DAGCommitor_loop ::
    "'k crypto_ext \<Rightarrow> 'db store_ext \<Rightarrow> (nat \<Rightarrow> 'db) \<Rightarrow> nat \<Rightarrow> digest set \<Rightarrow> Block list \<Rightarrow> Block list \<Rightarrow>
     (digest set \<times> Block list \<times> nat) option" where
  "DAGCommitor_loop cx dx dbs t committed out queue =
     (case queue of
        [] \<Rightarrow> Some (committed, out, t)
      | block # rest \<Rightarrow>
          if Block_Hash cx block \<notin> committed then
            (case DAGCommitor_refs dx dbs t (b_References block) of
               (bs, t') \<Rightarrow> DAGCommitor_loop cx dx dbs t' (insert (Block_Hash cx block) committed)
                             (out @ [block]) (rest @ bs))
          else DAGCommitor_loop cx dx dbs t committed out rest)"

fun DAGCommitor_run ::
    "'k crypto_ext \<Rightarrow> 'db store_ext \<Rightarrow> (nat \<Rightarrow> 'db) \<Rightarrow> nat \<Rightarrow> DAGCommitor \<Rightarrow> Block list \<Rightarrow>
     (DAGCommitor \<times> Block list \<times> nat) option" where
  "DAGCommitor_run cx dx dbs t c [] = Some (c, [], t)"
| "DAGCommitor_run cx dx dbs t c (b # bs) =
     do { (committed, out1, t1) \<leftarrow> DAGCommitor_loop cx dx dbs t (dc_committed c) [] [b];
          (c2, out2, t2) \<leftarrow> DAGCommitor_run cx dx dbs t1 (c\<lparr>dc_committed := committed\<rparr>) bs;
          Some (c2, out1 @ out2, t2) }"

section \<open>The loop ends\<close>

lemma DAGCommitor_loop_Nil [simp]: "DAGCommitor_loop cx dx dbs t committed out [] = Some (committed, out, t)"
  by (subst DAGCommitor_loop.simps) simp

lemma DAGCommitor_loop_Cons:
  "DAGCommitor_loop cx dx dbs t committed out (b # rest) =
     (if Block_Hash cx b \<in> committed then DAGCommitor_loop cx dx dbs t committed out rest
      else DAGCommitor_loop cx dx dbs (snd (DAGCommitor_refs dx dbs t (b_References b)))
             (insert (Block_Hash cx b) committed) (out @ [b]) (rest @ fst (DAGCommitor_refs dx dbs t (b_References b))))"
  by (subst DAGCommitor_loop.simps) (simp split: prod.split)

lemma DAGCommitor_refs_read: "x \<in> set (fst (DAGCommitor_refs dx dbs t qcs)) \<Longrightarrow> \<exists>qc \<in> set qcs. may_read dx dbs (qc_ParentBlockHash qc) x"
proof (induction qcs arbitrary: t)
  case (Cons qc qcs)
  then have "x \<in> set (fst (DAGCommitor_refs dx dbs (Suc t) qcs)) \<or> getBlock dx (dbs t) (qc_ParentBlockHash qc) = Inr x"
    by (auto split: prod.splits sum.splits)
  with Cons.IH[of "Suc t"] show ?case by (auto simp: may_read_def)
qed simp

text \<open>
  The potential: uncommitted digests among the readable ones, then the length of the queue.
\<close>

lemma DAGCommitor_loop_ends:
  assumes "finite D" "\<And>d x. may_read dx dbs d x \<Longrightarrow> Block_Hash cx x \<in> D"
    and "Block_Hash cx ` set queue \<subseteq> D"
  shows "\<exists>r. DAGCommitor_loop cx dx dbs t committed out queue = Some r"
  using assms(3)
proof (induction "card (D - committed)" arbitrary: t committed out queue rule: less_induct)
  case less
  note outer = less.hyps
  from less.prems show ?case
  proof (induction queue arbitrary: t out)
    case (Cons b rest)
    show ?case
    proof (cases "Block_Hash cx b \<in> committed")
      case True
      then show ?thesis using Cons by (simp add: DAGCommitor_loop_Cons)
    next
      case False
      let ?refs = "DAGCommitor_refs dx dbs t (b_References b)"
      have "card (D - insert (Block_Hash cx b) committed) < card (D - committed)"
        using assms(1) False Cons.prems by (intro psubset_card_mono) auto
      moreover have "Block_Hash cx ` set (rest @ fst ?refs) \<subseteq> D"
        using Cons.prems DAGCommitor_refs_read[of _ dx dbs t "b_References b"] assms(2) by auto
      ultimately have "\<exists>r. DAGCommitor_loop cx dx dbs (snd ?refs) (insert (Block_Hash cx b) committed) (out @ [b])
          (rest @ fst ?refs) = Some r"
        by (rule outer)
      then show ?thesis using False by (simp only: DAGCommitor_loop_Cons if_False)
    qed
  qed simp
qed

section \<open>What the loop commits\<close>

text \<open>The new commits of a loop, whatever happens to the store meanwhile.\<close>

lemma DAGCommitor_loop_new:
  "DAGCommitor_loop cx dx dbs t committed out queue = Some r \<Longrightarrow>
     \<exists>new. fst (snd r) = out @ new \<and> fst r = committed \<union> Block_Hash cx ` set new \<and>
       distinct (map (Block_Hash cx) new) \<and> Block_Hash cx ` set new \<inter> committed = {}"
proof (induct cx dx dbs t committed out queue r rule: DAGCommitor_loop.raw_induct[rotated, consumes 1, case_names step])
  case (step W cx dx dbs t committed out queue r)
  show ?case
  proof (cases queue)
    case Nil
    then show ?thesis using step(2) by (intro exI[of _ "[]"]) auto
  next
    case (Cons b rest)
    show ?thesis
    proof (cases "Block_Hash cx b \<in> committed")
      case True
      then show ?thesis using step(1)[of cx dx dbs t committed out rest r] step(2) Cons by simp
    next
      case False
      let ?refs = "DAGCommitor_refs dx dbs t (b_References b)"
      have "W cx dx dbs (snd ?refs) (insert (Block_Hash cx b) committed) (out @ [b]) (rest @ fst ?refs) = Some r"
        using step(2) Cons False by (simp split: prod.splits)
      from step(1)[OF this] obtain new where new: "fst (snd r) = (out @ [b]) @ new"
          "fst r = insert (Block_Hash cx b) committed \<union> Block_Hash cx ` set new"
          "distinct (map (Block_Hash cx) new)" "Block_Hash cx ` set new \<inter> insert (Block_Hash cx b) committed = {}"
        by blast
      then show ?thesis using False by (intro exI[of _ "b # new"]) auto
    qed
  qed
qed

text \<open>
  The blocks reachable along references that the store \<open>db\<close> can resolve, not passing through
  committed blocks.
\<close>

inductive reach :: "(Block \<Rightarrow> digest) \<Rightarrow> (digest \<Rightarrow> Block \<Rightarrow> bool) \<Rightarrow> digest set \<Rightarrow> Block set \<Rightarrow> Block \<Rightarrow> bool"
  for H R committed roots where
  start: "b \<in> roots \<Longrightarrow> reach H R committed roots b"
| follow: "reach H R committed roots b \<Longrightarrow> H b \<notin> committed \<Longrightarrow> qc \<in> set (b_References b) \<Longrightarrow>
           R (qc_ParentBlockHash qc) x \<Longrightarrow> reach H R committed roots x"

lemma reach_roots_mono: "reach H R committed roots b \<Longrightarrow> roots \<subseteq> roots' \<Longrightarrow> reach H R committed roots' b"
  by (induction rule: reach.induct) (auto intro: reach.intros)

lemma reach_blocks: "reach H R committed roots b \<Longrightarrow> b \<in> roots \<or> (\<exists>d. R d b)"
  by (induction rule: reach.induct) auto

definition kids :: "(digest \<Rightarrow> Block \<Rightarrow> bool) \<Rightarrow> Block \<Rightarrow> Block set" where
  "kids R b = {x. \<exists>qc \<in> set (b_References b). R (qc_ParentBlockHash qc) x}"

lemma reach_unfold:
  assumes new: "H b \<notin> committed" and inj: "inj_on H (insert b Q \<union> {x. \<exists>d. R d x})"
  shows "committed \<union> H ` Collect (reach H R committed (insert b Q)) =
     insert (H b) committed \<union> H ` Collect (reach H R (insert (H b) committed) (Q \<union> kids R b))" (is "?L = ?R")
proof
  have "x = b \<or> reach H R (insert (H b) committed) (Q \<union> kids R b) x"
    if "reach H R committed (insert b Q) x" for x
    using that
  proof (induction rule: reach.induct)
    case (start x)
    then show ?case by (auto intro: reach.start)
  next
    case (follow x qc y)
    show ?case
    proof (cases "H x = H b")
      case True
      then have "x = b" using inj reach_blocks[OF follow(1)] unfolding inj_on_def by blast
      then have "y \<in> kids R b" using follow by (auto simp: kids_def)
      then show ?thesis by (auto intro: reach.start)
    next
      case False
      then have "reach H R (insert (H b) committed) (Q \<union> kids R b) x" using follow by auto
      then have "reach H R (insert (H b) committed) (Q \<union> kids R b) y"
        by (rule reach.follow) (use False follow in auto)
      then show ?thesis ..
    qed
  qed
  then show "?L \<subseteq> ?R" by blast
next
  have "reach H R committed (insert b Q) x" if "reach H R (insert (H b) committed) (Q \<union> kids R b) x" for x
    using that
  proof (induction rule: reach.induct)
    case (start x)
    have "reach H R committed (insert b Q) b" by (simp add: reach.start)
    with start new show ?case by (auto simp: kids_def intro: reach.intros)
  next
    case (follow x qc y)
    then show ?case by (auto intro: reach.follow)
  qed
  moreover have "reach H R committed (insert b Q) b" by (simp add: reach.start)
  ultimately show "?R \<subseteq> ?L" by blast
qed

lemma reach_skip:
  assumes "H b \<in> committed" "inj_on H (insert b Q \<union> {x. \<exists>d. R d x})"
  shows "committed \<union> H ` Collect (reach H R committed (insert b Q)) = committed \<union> H ` Collect (reach H R committed Q)"
    (is "?L = ?R")
proof
  have "H x \<in> committed \<or> reach H R committed Q x" if "reach H R committed (insert b Q) x" for x
    using that assms(1) by (induction rule: reach.induct) (auto intro: reach.intros)
  then show "?L \<subseteq> ?R" by blast
qed (auto intro: reach_roots_mono)

lemma DAGCommitor_refs_fst:
  "fst (DAGCommitor_refs dx dbs t (qc # qcs)) =
     (case getBlock dx (dbs t) (qc_ParentBlockHash qc) of Inr b \<Rightarrow> [b] | Inl e \<Rightarrow> []) @
     fst (DAGCommitor_refs dx dbs (Suc t) qcs)"
  by (simp split: prod.split sum.split)

lemma DAGCommitor_refs_static:
  "set (fst (DAGCommitor_refs dx (\<lambda>_. db) t (b_References b))) = kids (\<lambda>d x. getBlock dx db d = Inr x) b"
proof -
  have "set (fst (DAGCommitor_refs dx (\<lambda>_. db) t qcs)) = {x. \<exists>qc \<in> set qcs. getBlock dx db (qc_ParentBlockHash qc) = Inr x}"
    for qcs
  proof (induction qcs arbitrary: t)
    case (Cons qc qcs)
    show ?case using Cons.IH[of "Suc t"] unfolding DAGCommitor_refs_fst by (auto split: sum.split)
  qed simp
  then show ?thesis by (simp add: kids_def)
qed

lemma DAGCommitor_loop_reach:
  "DAGCommitor_loop cx dx dbs t committed out queue = Some r \<Longrightarrow> dbs = (\<lambda>_. db) \<Longrightarrow>
     inj_on (Block_Hash cx) (set queue \<union> {x. \<exists>d. getBlock dx db d = Inr x}) \<Longrightarrow>
     fst r = committed \<union> Block_Hash cx ` Collect (reach (Block_Hash cx) (\<lambda>d x. getBlock dx db d = Inr x) committed (set queue))"
proof (induct cx dx dbs t committed out queue r rule: DAGCommitor_loop.raw_induct[rotated, consumes 1, case_names step])
  case (step W cx dx dbs t committed out queue r)
  show ?case
  proof (cases queue)
    case Nil
    have "\<not> reach (Block_Hash cx) (\<lambda>d x. getBlock dx db d = Inr x) committed {} x" for x
      by (rule notI, induction x rule: reach.induct) auto
    then show ?thesis using step(2) Nil by auto
  next
    case (Cons b rest)
    have inj: "inj_on (Block_Hash cx) (insert b (set rest) \<union> {x. \<exists>d. getBlock dx db d = Inr x})"
      using step(4) Cons by simp
    show ?thesis
    proof (cases "Block_Hash cx b \<in> committed")
      case True
      then have "W cx dx dbs t committed out rest = Some r" using step(2) Cons by simp
      moreover have "inj_on (Block_Hash cx) (set rest \<union> {x. \<exists>d. getBlock dx db d = Inr x})"
        by (rule inj_on_subset[OF inj]) auto
      ultimately show ?thesis using step(1,3) reach_skip[OF True inj] Cons by simp
    next
      case False
      let ?refs = "DAGCommitor_refs dx dbs t (b_References b)"
      have k: "set (rest @ fst ?refs) = set rest \<union> kids (\<lambda>d x. getBlock dx db d = Inr x) b"
        using step(3) DAGCommitor_refs_static[of dx db t b] by simp
      have "W cx dx dbs (snd ?refs) (insert (Block_Hash cx b) committed) (out @ [b]) (rest @ fst ?refs) = Some r"
        using step(2) Cons False by (simp split: prod.splits)
      moreover have "inj_on (Block_Hash cx) (set (rest @ fst ?refs) \<union> {x. \<exists>d. getBlock dx db d = Inr x})"
        unfolding k by (rule inj_on_subset[OF inj]) (auto simp: kids_def)
      ultimately have "fst r = insert (Block_Hash cx b) committed \<union> Block_Hash cx ` Collect
          (reach (Block_Hash cx) (\<lambda>d x. getBlock dx db d = Inr x) (insert (Block_Hash cx b) committed) (set (rest @ fst ?refs)))"
        by (intro step(1)[OF _ step(3)])
      then show ?thesis unfolding k using reach_unfold[OF False inj] Cons by simp
    qed
  qed
qed

section \<open>Properties\<close>

text \<open>
  C4. The DAG committer commits exactly the causal history. While the store holds still, with
  finitely many readable blocks identified by their digests, committing a block ends, and it
  commits, each once, the blocks reachable from it along resolvable references without passing
  through blocks committed before.
\<close>

theorem DAG_commits_history:
  assumes "finite {x. \<exists>d. getBlock dx db d = Inr x}"
    and "inj_on (Block_Hash cx) ({b} \<union> {x. \<exists>d. getBlock dx db d = Inr x})"
  shows "\<exists>committed' out t'. DAGCommitor_loop cx dx (\<lambda>_. db) t committed [] [b] = Some (committed', out, t') \<and>
     distinct (map (Block_Hash cx) out) \<and>
     Block_Hash cx ` set out = Block_Hash cx `
       Collect (reach (Block_Hash cx) (\<lambda>d x. getBlock dx db d = Inr x) committed {b}) - committed \<and>
     committed' = committed \<union> Block_Hash cx ` set out"
proof -
  have fin: "finite (Block_Hash cx ` ({b} \<union> {x. \<exists>d. getBlock dx db d = Inr x}))" using assms(1) by simp
  obtain r where r: "DAGCommitor_loop cx dx (\<lambda>_. db) t committed [] [b] = Some r"
  proof -
    have "\<exists>r. DAGCommitor_loop cx dx (\<lambda>_. db) t committed [] [b] = Some r"
      by (rule DAGCommitor_loop_ends[OF fin]) (auto simp: may_read_def)
    with that show ?thesis by blast
  qed
  obtain new where new: "fst (snd r) = new" "fst r = committed \<union> Block_Hash cx ` set new"
      "distinct (map (Block_Hash cx) new)" "Block_Hash cx ` set new \<inter> committed = {}"
    using DAGCommitor_loop_new[OF r] by auto
  have "fst r = committed \<union> Block_Hash cx ` Collect (reach (Block_Hash cx) (\<lambda>d x. getBlock dx db d = Inr x) committed {b})"
    using DAGCommitor_loop_reach[OF r refl] assms(2) by simp
  with new have "Block_Hash cx ` set new = Block_Hash cx `
       Collect (reach (Block_Hash cx) (\<lambda>d x. getBlock dx db d = Inr x) committed {b}) - committed" by blast
  moreover obtain com out t' where "r = (com, out, t')" by (cases r) auto
  ultimately show ?thesis using r new by auto
qed

text \<open>
  C15. No run of the DAG committer commits a digest twice, however the store changes meanwhile,
  and the committed digests are exactly those of the commits made.
\<close>

theorem DAG_commits_at_most_once:
  assumes "DAGCommitor_run cx dx dbs t NewDAGCommitor bs = Some (c, out, t')"
  shows "distinct (map (Block_Hash cx) out) \<and> dc_committed c = Block_Hash cx ` set out"
proof -
  have "distinct (map (Block_Hash cx) out) \<and> Block_Hash cx ` set out \<inter> dc_committed c0 = {} \<and>
      dc_committed c = dc_committed c0 \<union> Block_Hash cx ` set out"
    if "DAGCommitor_run cx dx dbs t c0 bs = Some (c, out, t')" for t c0 out
    using that
  proof (induction bs arbitrary: t c0 out)
    case (Cons b bs)
    then obtain com o1 t1 o2 where 1: "DAGCommitor_loop cx dx dbs t (dc_committed c0) [] [b] = Some (com, o1, t1)"
        and 2: "DAGCommitor_run cx dx dbs t1 (c0\<lparr>dc_committed := com\<rparr>) bs = Some (c, o2, t')" and o: "out = o1 @ o2"
      by (auto simp: Option.bind_eq_Some_conv)
    from DAGCommitor_loop_new[OF 1] Cons.IH[OF 2] show ?case
      by (auto simp: o image_Un)
  qed simp
  from this[OF assms] show ?thesis by (simp add: NewDAGCommitor_def)
qed

text \<open>
  When references are read. \<open>unread dx dbs t t' d\<close>: none of the goroutine's reads from the \<open>t\<close>-th
  up to the \<open>t'\<close>-th finds a block under \<open>d\<close>; \<open>readable\<close>: all would.
\<close>

definition unread :: "'db store_ext \<Rightarrow> (nat \<Rightarrow> 'db) \<Rightarrow> nat \<Rightarrow> nat \<Rightarrow> digest \<Rightarrow> bool" where
  "unread dx dbs t t' d \<longleftrightarrow> (\<forall>s x. t \<le> s \<and> s < t' \<longrightarrow> getBlock dx (dbs s) d \<noteq> Inr x)"

definition readable :: "'db store_ext \<Rightarrow> (nat \<Rightarrow> 'db) \<Rightarrow> nat \<Rightarrow> nat \<Rightarrow> digest \<Rightarrow> bool" where
  "readable dx dbs t t' d \<longleftrightarrow> (\<forall>s. t \<le> s \<and> s < t' \<longrightarrow> (\<exists>x. getBlock dx (dbs s) d = Inr x))"

definition refers :: "Block \<Rightarrow> digest \<Rightarrow> bool" where
  "refers b d \<longleftrightarrow> d \<in> qc_ParentBlockHash ` set (b_References b)"

lemma unread_mono: "unread dx dbs t t' d \<Longrightarrow> t \<le> u \<Longrightarrow> u' \<le> t' \<Longrightarrow> unread dx dbs u u' d"
  and readable_mono: "readable dx dbs t t' d \<Longrightarrow> t \<le> u \<Longrightarrow> u' \<le> t' \<Longrightarrow> readable dx dbs u u' d"
  by (auto simp: unread_def readable_def)

lemma DAGCommitor_refs_snd: "snd (DAGCommitor_refs dx dbs t qcs) = t + length qcs"
  by (induction qcs arbitrary: t) (auto split: prod.split sum.split simp: prod_eq_iff)

lemma DAGCommitor_refs_unread:
  assumes "keyed_by_hash cx dx dbs" "unread dx dbs t (t + length qcs) d"
  shows "d \<notin> Block_Hash cx ` set (fst (DAGCommitor_refs dx dbs t qcs))"
  using assms(2)
proof (induction qcs arbitrary: t)
  case (Cons qc qcs)
  have "d \<notin> Block_Hash cx ` set (fst (DAGCommitor_refs dx dbs (Suc t) qcs))"
    using Cons.prems by (intro Cons.IH) (auto elim: unread_mono)
  moreover have "Block_Hash cx x \<noteq> d" if "getBlock dx (dbs t) (qc_ParentBlockHash qc) = Inr x" for x
    using assms(1) that Cons.prems by (auto simp: keyed_by_hash_def unread_def)
  ultimately show ?case unfolding DAGCommitor_refs_fst
    by (cases "getBlock dx (dbs t) (qc_ParentBlockHash qc)") auto
qed simp

lemma DAGCommitor_refs_unnamed:
  assumes "keyed_by_hash cx dx dbs" "d \<notin> qc_ParentBlockHash ` set qcs"
  shows "d \<notin> Block_Hash cx ` set (fst (DAGCommitor_refs dx dbs t qcs))"
  using assms DAGCommitor_refs_read[of _ dx dbs t qcs] by (fastforce simp: keyed_by_hash_def may_read_def)

lemma DAGCommitor_refs_readable:
  assumes "keyed_by_hash cx dx dbs" "readable dx dbs t (t + length qcs) d" "d \<in> qc_ParentBlockHash ` set qcs"
  shows "d \<in> Block_Hash cx ` set (fst (DAGCommitor_refs dx dbs t qcs))"
  using assms(2,3)
proof (induction qcs arbitrary: t)
  case (Cons qc qcs)
  show ?case
  proof (cases "d = qc_ParentBlockHash qc")
    case True
    obtain x where "getBlock dx (dbs t) d = Inr x" using Cons.prems(1) by (auto simp: readable_def)
    then show ?thesis using assms(1) True unfolding DAGCommitor_refs_fst by (auto simp: keyed_by_hash_def)
  next
    case False
    then have "d \<in> Block_Hash cx ` set (fst (DAGCommitor_refs dx dbs (Suc t) qcs))"
      using Cons.prems by (intro Cons.IH) (auto elim: readable_mono)
    then show ?thesis unfolding DAGCommitor_refs_fst by auto
  qed
qed simp

text \<open>The same for the references of a block, in terms of a span that covers their reads.\<close>

lemma DAGCommitor_refs_avoid:
  assumes "keyed_by_hash cx dx dbs" "refers b d \<longrightarrow> unread dx dbs t t' d" "t + length (b_References b) \<le> t'"
  shows "d \<notin> Block_Hash cx ` set (fst (DAGCommitor_refs dx dbs t (b_References b)))"
proof (cases "refers b d")
  case True
  then have "unread dx dbs t (t + length (b_References b)) d" using assms(2,3) by (auto elim: unread_mono)
  then show ?thesis by (rule DAGCommitor_refs_unread[OF assms(1)])
qed (use DAGCommitor_refs_unnamed[OF assms(1)] in \<open>auto simp: refers_def\<close>)

lemma DAGCommitor_refs_follow:
  assumes "keyed_by_hash cx dx dbs" "refers b d" "readable dx dbs t t' d" "t + length (b_References b) \<le> t'"
  shows "d \<in> Block_Hash cx ` set (fst (DAGCommitor_refs dx dbs t (b_References b)))"
  using assms(2-4) by (intro DAGCommitor_refs_readable[OF assms(1)]) (auto simp: refers_def elim: readable_mono)

text \<open>
  A digest that no queued block has is not committed by a loop if every block that the loop
  commits and that refers to it finds it unreadable; one that is readable is committed with the
  block that refers to it.
\<close>

lemma DAGCommitor_loop_references:
  "DAGCommitor_loop cx dx dbs t committed out queue = Some r \<Longrightarrow> keyed_by_hash cx dx dbs \<Longrightarrow>
     \<exists>new t'. r = (committed \<union> Block_Hash cx ` set new, out @ new, t') \<and> t \<le> t' \<and>
       Block_Hash cx ` set queue \<subseteq> fst r \<and>
       (d \<notin> Block_Hash cx ` set queue \<and> (\<forall>x \<in> set new. refers x d \<longrightarrow> unread dx dbs t t' d) \<longrightarrow>
          d \<notin> Block_Hash cx ` set new) \<and>
       (readable dx dbs t t' d \<and> (\<exists>x \<in> set new. refers x d) \<longrightarrow> d \<in> fst r)"
proof (induct cx dx dbs t committed out queue r rule: DAGCommitor_loop.raw_induct[rotated, consumes 1, case_names step])
  case (step W cx dx dbs t committed out queue r)
  show ?case
  proof (cases queue)
    case Nil
    then show ?thesis using step(2) by (intro exI[of _ "[]"] exI[of _ t]) auto
  next
    case (Cons b rest)
    show ?thesis
    proof (cases "Block_Hash cx b \<in> committed")
      case True
      then have "W cx dx dbs t committed out rest = Some r" using step(2) Cons by simp
      from step(1)[OF this step(3)] True Cons show ?thesis by (elim exE conjE) (intro exI conjI, assumption, auto)
    next
      case False
      let ?refs = "DAGCommitor_refs dx dbs t (b_References b)" and ?u = "t + length (b_References b)"
      have "W cx dx dbs ?u (insert (Block_Hash cx b) committed) (out @ [b]) (rest @ fst ?refs) = Some r"
        using step(2) Cons False DAGCommitor_refs_snd[of dx dbs t "b_References b"] by (auto split: prod.splits)
      from step(1)[OF this step(3)] obtain new t' where
        r: "r = (insert (Block_Hash cx b) committed \<union> Block_Hash cx ` set new, (out @ [b]) @ new, t')" "?u \<le> t'"
        and all: "Block_Hash cx ` set (rest @ fst ?refs) \<subseteq> fst r"
        and no: "d \<notin> Block_Hash cx ` set (rest @ fst ?refs) \<Longrightarrow> \<forall>x \<in> set new. refers x d \<longrightarrow> unread dx dbs ?u t' d \<Longrightarrow>
            d \<notin> Block_Hash cx ` set new"
        and yes: "readable dx dbs ?u t' d \<Longrightarrow> \<exists>x \<in> set new. refers x d \<Longrightarrow> d \<in> fst r"
        by blast
      have "d \<notin> Block_Hash cx ` set (b # new)"
        if q: "d \<notin> Block_Hash cx ` set queue" and u: "\<forall>x \<in> set (b # new). refers x d \<longrightarrow> unread dx dbs t t' d"
      proof -
        have "d \<notin> Block_Hash cx ` set (fst ?refs)" using u by (intro DAGCommitor_refs_avoid[OF step(3) _ r(2)]) simp
        then have "d \<notin> Block_Hash cx ` set new" using q u Cons by (intro no) (auto elim!: unread_mono)
        then show ?thesis using q Cons by auto
      qed
      moreover have "d \<in> fst r" if "readable dx dbs t t' d" "\<exists>x \<in> set (b # new). refers x d"
      proof (cases "refers b d")
        case True
        with DAGCommitor_refs_follow[OF step(3) _ that(1) r(2)] all show ?thesis by auto
      qed (use that in \<open>auto intro!: yes elim: readable_mono\<close>)
      moreover have "r = (committed \<union> Block_Hash cx ` set (b # new), out @ b # new, t')" "t \<le> t'"
          "Block_Hash cx ` set queue \<subseteq> fst r"
        using r all Cons by auto
      ultimately show ?thesis by blast
    qed
  qed
qed

lemma DAGCommitor_run_references:
  assumes "keyed_by_hash cx dx dbs" "DAGCommitor_run cx dx dbs t c bs = Some (c', out, t')"
  shows "t \<le> t' \<and> dc_committed c' = dc_committed c \<union> Block_Hash cx ` set out \<and>
    (d \<notin> Block_Hash cx ` set bs \<and> (\<forall>x \<in> set out. refers x d \<longrightarrow> unread dx dbs t t' d) \<longrightarrow>
       d \<notin> Block_Hash cx ` set out) \<and>
    (readable dx dbs t t' d \<and> (\<exists>x \<in> set out. refers x d) \<longrightarrow> d \<in> dc_committed c')"
  using assms(2)
proof (induction bs arbitrary: t c out)
  case (Cons b bs)
  then obtain com o1 t1 o2 where 1: "DAGCommitor_loop cx dx dbs t (dc_committed c) [] [b] = Some (com, o1, t1)"
      and 2: "DAGCommitor_run cx dx dbs t1 (c\<lparr>dc_committed := com\<rparr>) bs = Some (c', o2, t')" and o: "out = o1 @ o2"
    by (auto simp: Option.bind_eq_Some_conv)
  from DAGCommitor_loop_references[OF 1 assms(1), of d] have l: "t \<le> t1" "com = dc_committed c \<union> Block_Hash cx ` set o1"
      "d \<notin> Block_Hash cx ` {b} \<Longrightarrow> \<forall>x \<in> set o1. refers x d \<longrightarrow> unread dx dbs t t1 d \<Longrightarrow> d \<notin> Block_Hash cx ` set o1"
      "readable dx dbs t t1 d \<Longrightarrow> \<exists>x \<in> set o1. refers x d \<Longrightarrow> d \<in> com"
    by auto
  have le: "t1 \<le> t'" using Cons.IH[OF 2] by simp
  have "d \<notin> Block_Hash cx ` set out"
    if "d \<notin> Block_Hash cx ` set (b # bs)" "\<forall>x \<in> set out. refers x d \<longrightarrow> unread dx dbs t t' d"
    using that Cons.IH[OF 2] l(1,3) le unread_mono[of dx dbs t t' d] by (auto simp: o)
  moreover have "d \<in> dc_committed c'" if "readable dx dbs t t' d" "\<exists>x \<in> set out. refers x d"
    using that Cons.IH[OF 2] l(1,2,4) le readable_mono[of dx dbs t t' d] by (auto simp: o)
  ultimately show ?case using Cons.IH[OF 2] l(1,2) by (auto simp: o)
qed simp

text \<open>
  C16. A reference whose block cannot be read while a block is committed is lost through that block,
  whatever becomes of the block's other references. Suppose that \<open>b\<close> is committed in the course of
  the submissions \<open>bs1\<close>, during which no read finds a block under the digest \<open>d\<close> that \<open>b\<close> refers to,
  and that \<open>d\<close> is not submitted itself. Then the references of \<open>b\<close> that are readable are committed and \<open>d\<close> is
  not; and even if its block is in the store from then on, \<open>d\<close> stays uncommitted through all later
  submissions, of \<open>b\<close> itself or of others, unless \<open>d\<close> is submitted or
  another block that refers to \<open>d\<close> is committed.
\<close>

theorem DAG_missing_reference_lost:
  assumes "keyed_by_hash cx dx dbs"
    and "DAGCommitor_run cx dx dbs t c bs1 = Some (c1, out1, t1)"
    and "b \<in> set out1" "refers b d" "unread dx dbs t t1 d" "d \<notin> dc_committed c"
    and "DAGCommitor_run cx dx dbs t1 c1 bs2 = Some (c2, out2, t2)"
    and "d \<notin> Block_Hash cx ` set (bs1 @ bs2)" "\<forall>x \<in> set out2. \<not> refers x d"
  shows "d \<notin> dc_committed c2 \<and>
    (\<forall>e. refers b e \<and> readable dx dbs t t1 e \<longrightarrow> e \<in> dc_committed c1 \<and> e \<in> dc_committed c2)"
proof -
  note r1 = DAGCommitor_run_references[OF assms(1,2)] and r2 = DAGCommitor_run_references[OF assms(1,7)]
  have "d \<notin> dc_committed c1" using r1[of d] assms(5,6,8) by auto
  then have "d \<notin> dc_committed c2" using r2[of d] assms(8,9) by auto
  moreover have "dc_committed c1 \<subseteq> dc_committed c2" using r2[of d] by blast
  moreover have "e \<in> dc_committed c1" if "refers b e" "readable dx dbs t t1 e" for e
    using r1[of e] assms(3) that by blast
  ultimately show ?thesis by blast
qed

text \<open>A diamond: two blocks of view 0 and a block of view 1 that refers to both.\<close>

definition sample_dag :: "Block list" where
  "sample_dag =
     (let g0 = sample_block 0 0 0; g1 = sample_block 1 0 0 in
      [g0, g1, (sample_block 0 1 0)\<lparr>b_References := [sample_qc g0, sample_qc g1, sample_qc g0]\<rparr>])"

definition sample_dag_db :: "nat \<Rightarrow> (string \<times> bytes \<Rightarrow> bytes option)" where
  "sample_dag_db n = storeBlocks sample_cx (sample_dx sample_dag) Map.empty (take n sample_dag)"

lemma sample_dag_hashes:
  "map (Block_Hash sample_cx) sample_dag = [[48,48,48,45,49], [49,48,48,45,49], [48,49,48,45,49]]"
  by (simp add: Let_def sample_dag_def sample_block_def empty_batch_def Block_Hash_def Block_parts_def
      hash_parts_concat sample_cx_def AppendInt2_def bin_digits.simps)

lemma sample_dag_read:
  "getBlock (sample_dx sample_dag) (sample_dag_db n) d =
     (case map_of (map (\<lambda>b. (Block_Hash sample_cx b, b)) (take n sample_dag)) d of
        Some b \<Rightarrow> Inr b | None \<Rightarrow> Inl (ErrStore ''key not found''))"
proof -
  have "set (take n sample_dag) \<subseteq> set sample_dag" "length sample_dag < 256"
    by (auto dest: in_set_takeD) (simp add: sample_dag_def Let_def)
  then have "getBlock (sample_dx sample_dag) (sample_dag_db n) d =
      foldl (\<lambda>r b. if d = Block_Hash sample_cx b then Inr b else r) (Inl (ErrStore ''key not found'')) (take n sample_dag)"
    by (simp add: sample_dag_db_def sample_store_read)
  also have "distinct (map (Block_Hash sample_cx) (take n sample_dag))"
    unfolding take_map[symmetric] sample_dag_hashes by (rule distinct_take) simp
  ultimately show ?thesis by (simp add: last_stored)
qed

lemma sample_dag_readable: "getBlock (sample_dx sample_dag) (sample_dag_db n) d = Inr x \<Longrightarrow> x \<in> set sample_dag"
  unfolding sample_dag_read by (auto dest!: map_of_SomeD in_set_takeD split: option.splits)

theorem DAG_commits_history_witness:
  "\<exists>committed' out t'. DAGCommitor_loop sample_cx (sample_dx sample_dag) (\<lambda>_. sample_dag_db 3) 0 {} [] [sample_dag ! 2] =
      Some (committed', out, t') \<and> distinct (map (Block_Hash sample_cx) out) \<and>
      Block_Hash sample_cx (sample_dag ! 0) \<in> Block_Hash sample_cx ` set out"
proof -
  let ?R = "\<lambda>d x. getBlock (sample_dx sample_dag) (sample_dag_db 3) d = Inr x"
  have sub: "{x. \<exists>d. ?R d x} \<subseteq> set sample_dag" using sample_dag_readable by auto
  then have fin: "finite {x. \<exists>d. ?R d x}" by (rule finite_subset) simp
  have "inj_on (Block_Hash sample_cx) (set sample_dag)"
    using distinct_map[of "Block_Hash sample_cx" sample_dag] sample_dag_hashes by simp
  moreover have "sample_dag ! 2 \<in> set sample_dag" by (simp add: sample_dag_def Let_def)
  ultimately have inj: "inj_on (Block_Hash sample_cx) ({sample_dag ! 2} \<union> {x. \<exists>d. ?R d x})"
    using sub by - (rule inj_on_subset[of "Block_Hash sample_cx" "set sample_dag"], auto)
  have g0: "Block_Hash sample_cx (sample_dag ! 0) = [48,48,48,45,49]" "length sample_dag = 3"
    using sample_dag_hashes by (simp_all add: sample_dag_def Let_def)
  have "qc_ParentBlockHash (sample_qc (sample_dag ! 0)) = Block_Hash sample_cx (sample_dag ! 0)"
    by (simp add: sample_qc_def)
  moreover have "?R (Block_Hash sample_cx (sample_dag ! 0)) (sample_dag ! 0)"
    unfolding sample_dag_read by (simp add: g0(2)) (simp add: sample_dag_def Let_def)
  moreover have "sample_qc (sample_dag ! 0) \<in> set (b_References (sample_dag ! 2))"
    by (simp add: sample_dag_def Let_def)
  ultimately have "reach (Block_Hash sample_cx) ?R {} {sample_dag ! 2} (sample_dag ! 0)"
    using reach.follow[OF reach.start, of "sample_dag ! 2" "{sample_dag ! 2}" "Block_Hash sample_cx" "{}"
        "sample_qc (sample_dag ! 0)" ?R "sample_dag ! 0"] by simp
  with DAG_commits_history[OF fin inj, of 0 "{}"] show ?thesis by auto
qed

theorem DAG_commits_at_most_once_witness:
  "\<exists>c out t'. DAGCommitor_run sample_cx (sample_dx sample_dag) sample_dag_db 3 NewDAGCommitor [sample_dag ! 2, sample_dag ! 0] =
     Some (c, out, t') \<and> length out = 3 \<and> distinct (map (Block_Hash sample_cx) out)"
proof -
  obtain g0 g1 b where dag: "sample_dag = [g0, g1, b]" by (simp add: sample_dag_def Let_def)
  have refs: "b_References g0 = []" "b_References g1 = []" "b_References b = [sample_qc g0, sample_qc g1, sample_qc g0]"
    using dag by (auto simp: sample_dag_def Let_def sample_block_def)
  have h: "Block_Hash sample_cx g0 = [48,48,48,45,49]" "Block_Hash sample_cx g1 = [49,48,48,45,49]"
      "Block_Hash sample_cx b = [48,49,48,45,49]"
    using sample_dag_hashes[unfolded dag] by auto
  obtain c t' where run:
    "DAGCommitor_run sample_cx (sample_dx sample_dag) sample_dag_db 3 NewDAGCommitor [sample_dag ! 2, sample_dag ! 0] =
     Some (c, [b, g0, g1], t')"
    using h refs by (simp add: DAGCommitor_loop_Cons NewDAGCommitor_def sample_dag_read[unfolded dag] dag sample_qc_def)
  show ?thesis
    by (intro exI conjI, rule run, simp) (rule conjunct1[OF DAG_commits_at_most_once[OF run]])
qed

text \<open>
  The diamond with its second block missing while the first run reads: the block and its first
  reference are committed. The second block arrives, and submitting the top block again commits
  nothing.
\<close>

theorem DAG_missing_reference_lost_witness:
  "let dbs = (\<lambda>s. sample_dag_db (if s < 3 then 1 else 3)); b = sample_dag ! 2; d = Block_Hash sample_cx (sample_dag ! 1)
   in \<exists>c1 c2. DAGCommitor_run sample_cx (sample_dx sample_dag) dbs 0 NewDAGCommitor [b] = Some (c1, [b, sample_dag ! 0], 3) \<and>
      getBlock (sample_dx sample_dag) (dbs 3) d = Inr (sample_dag ! 1) \<and>
      DAGCommitor_run sample_cx (sample_dx sample_dag) dbs 3 c1 [b] = Some (c2, [], 3) \<and>
      refers b d \<and> d \<notin> dc_committed c2 \<and> Block_Hash sample_cx (sample_dag ! 0) \<in> dc_committed c2"
proof -
  let ?dbs = "\<lambda>s :: nat. sample_dag_db (if s < 3 then 1 else 3)"
  obtain g0 g1 b where dag: "sample_dag = [g0, g1, b]" by (simp add: sample_dag_def Let_def)
  have refs: "b_References b = [sample_qc g0, sample_qc g1, sample_qc g0]" "b_References g0 = []"
    using dag by (auto simp: sample_dag_def Let_def sample_block_def)
  have h: "Block_Hash sample_cx g0 = [48,48,48,45,49]" "Block_Hash sample_cx g1 = [49,48,48,45,49]"
      "Block_Hash sample_cx b = [48,49,48,45,49]"
    using sample_dag_hashes[unfolded dag] by auto
  note read = sample_dag_read[unfolded dag]
  have keyed: "keyed_by_hash sample_cx (sample_dx [g0, g1, b]) ?dbs"
    by (auto simp: keyed_by_hash_def read dest!: map_of_SomeD in_set_takeD split: option.splits)
  let ?c1 = "NewDAGCommitor\<lparr>dc_committed := {Block_Hash sample_cx g0, Block_Hash sample_cx b}\<rparr>"
  have run: "DAGCommitor_run sample_cx (sample_dx [g0, g1, b]) ?dbs 0 NewDAGCommitor [b] = Some (?c1, [b, g0], 3)"
      "DAGCommitor_run sample_cx (sample_dx [g0, g1, b]) ?dbs 3 ?c1 [b] = Some (?c1, [], 3)"
    using h refs by (simp_all add: DAGCommitor_loop_Cons NewDAGCommitor_def read sample_qc_def)
  have r: "refers b (Block_Hash sample_cx g1)" "refers b (Block_Hash sample_cx g0)"
    by (simp_all add: refers_def refs sample_qc_def)
  have "unread (sample_dx [g0, g1, b]) ?dbs 0 3 (Block_Hash sample_cx g1)"
      "readable (sample_dx [g0, g1, b]) ?dbs 0 3 (Block_Hash sample_cx g0)"
    by (auto simp: unread_def readable_def read h)
  with DAG_missing_reference_lost[OF keyed run(1) _ r(1) _ _ run(2)] r(2)
  have "Block_Hash sample_cx g1 \<notin> dc_committed ?c1" "Block_Hash sample_cx g0 \<in> dc_committed ?c1"
    by (auto simp: NewDAGCommitor_def h)
  moreover have "getBlock (sample_dx [g0, g1, b]) (?dbs 3) (Block_Hash sample_cx g1) = Inr g1" by (simp add: read h)
  ultimately show ?thesis unfolding Let_def dag using run r(1)
    by (intro exI[of _ ?c1]) simp
qed

end
