(* ===== verification/DAG_Core.thy ===== *)
theory DAG_Core
  imports Big_SPB DAG_Commitor
begin

text \<open>
  The DAG protocol: src/core/dag_bitspb.go and src/core/dag_bigcore.go. Proposals carry references
  to the certificates of the previous height; a height-1 certificate of any instance is
  announced to the main loop over a channel. The instances differ from those of Big_SPB.thy in
  two places: a height-2 proposal is accepted without looking at its certificate, and a
  height-1 certificate leads to a callback.
\<close>

section \<open>The instance\<close>

type_synonym DAGBigSPB = BigSPB

definition NewDAGBigSPB :: "node_id \<Rightarrow> int \<Rightarrow> DAGBigSPB" where
  "NewDAGBigSPB proposer view =
     \<lparr>bs_Proposer = proposer, bs_View = view, bs_preQc = None, bs_blockHash = (\<lambda>_. zero_Digest),
      bs_blockQcs = (\<lambda>_. None), bs_unHandlePropose = [], bs_unHandleVote = (\<lambda>_. []), bs_unHandleSpeedVote = [],
      bs_voteNums = (\<lambda>_. 0), bs_speedVoteNums = 0, bs_isSpeedCert = False\<rparr>"

definition DAGBigSPB_SpeedCert :: "DAGBigSPB \<Rightarrow> bool" where
  "DAGBigSPB_SpeedCert s = bs_isSpeedCert s"

definition DAGBigSPB_BlockHash :: "DAGBigSPB \<Rightarrow> 8 word \<Rightarrow> digest" where
  "DAGBigSPB_BlockHash s height = (if height > HEIGHT_2 then zero_Digest else bs_blockHash s height)"

definition DAGBigSPB_DecCert :: "DAGBigSPB \<Rightarrow> bool" where
  "DAGBigSPB_DecCert s \<longleftrightarrow> bs_blockQcs s HEIGHT_1 \<noteq> None \<and> bs_blockQcs s HEIGHT_2 \<noteq> None"

definition DAGBigSPB_QCLEvel :: "DAGBigSPB \<Rightarrow> 8 word \<times> BlockQC option" where
  "DAGBigSPB_QCLEvel s =
     (if bs_blockQcs s HEIGHT_1 \<noteq> None \<and> bs_blockQcs s HEIGHT_2 \<noteq> None then (LEVEL_2, bs_blockQcs s HEIGHT_2)
      else if bs_blockQcs s HEIGHT_1 \<noteq> None then (LEVEL_1, bs_blockQcs s HEIGHT_1)
      else (LEVEL_0, bs_preQc s))"

definition DAGBigSPB_GetBlockQC :: "DAGBigSPB \<Rightarrow> 8 word \<Rightarrow> BlockQC option" where
  "DAGBigSPB_GetBlockQC s height = (if height > HEIGHT_2 then None else bs_blockQcs s height)"

definition DAGBigSPB_propose_start ::
    "'k crypto_ext \<Rightarrow> DAGBigSPB \<Rightarrow> ProposeMsg \<Rightarrow> (DAGBigSPB \<times> big_task option) option" where
  "DAGBigSPB_propose_start cx s p =
     (if pm_Height p = HEIGHT_1 then
        do { b \<leftarrow> pm_B p;
             Some (s\<lparr>bs_preQc := b_Qc b, bs_blockHash := (bs_blockHash s)(HEIGHT_1 := Block_Hash cx b)\<rparr>,
                   Some (BProposeWake p)) }
      else if pm_Height p = HEIGHT_2 then
        do { b \<leftarrow> pm_B p;
             Some (s\<lparr>bs_blockHash := (bs_blockHash s)(HEIGHT_2 := Block_Hash cx b)\<rparr>, Some (BProposeWake p)) }
      else Some (s, Some (BProposeVote p)))"

text \<open>The other sections are, word for word, those of bigspb.go.\<close>

fun DAGBigSPB_section ::
    "'k crypto_ext \<Rightarrow> Committee \<Rightarrow> node_id \<Rightarrow> 'k SigService \<Rightarrow> DAGBigSPB \<Rightarrow> big_task \<Rightarrow>
     (DAGBigSPB \<times> big_task effect list \<times> big_task option) option" where
  "DAGBigSPB_section cx c i srvc s (BPropose p) =
     do { (s', nx) \<leftarrow> DAGBigSPB_propose_start cx s p; Some (s', [], nx) }"
| "DAGBigSPB_section cx c i srvc s (BVoteAct v) =
     (if vm_Height v = HEIGHT_1 then Some (s, [ECall (bs_View s) (bs_Proposer s)], None)
      else if vm_Height v = HEIGHT_2
      then do { effs \<leftarrow> BigSPB_speed_send cx srvc i (BigSPB_qc s v); Some (s, effs, Some BSpeedWake) }
      else Some (s, [], None))"
| "DAGBigSPB_section cx c i srvc s t = BigSPB_section cx c i srvc s t"

section \<open>The core\<close>

record ('k, 'db) DAGBigCore =
  da_nodeID :: node_id
  da_view :: int
  da_height :: "8 word"
  da_committee :: Committee
  da_parameters :: Parameters
  da_txpool :: Pool
  da_sigService :: "'k SigService"
  da_store :: 'db
  da_eletor :: "'k Elector"
  da_commitor :: DAGCommitor
  da_weakVotes :: "int \<Rightarrow> node_id \<Rightarrow> int"
  da_spbInstances :: "DAGBigSPB instances"
  da_speedVoteNums :: "int \<Rightarrow> node_id \<Rightarrow> int"
  da_reportNums :: "int \<Rightarrow> 8 word \<Rightarrow> int"

definition NewDAGBigCore ::
    "node_id \<Rightarrow> Committee \<Rightarrow> Parameters \<Rightarrow> Pool \<Rightarrow> 'db \<Rightarrow> 'k SigService \<Rightarrow> ('k, 'db) DAGBigCore" where
  "NewDAGBigCore nodeID c parameters txpool db sigService =
     \<lparr>da_nodeID = nodeID, da_view = 0, da_height = HEIGHT_1, da_committee = c, da_parameters = parameters,
      da_txpool = txpool, da_sigService = sigService, da_store = db,
      da_eletor = NewElector sigService c, da_commitor = NewDAGCommitor, da_weakVotes = (\<lambda>_ _. 0),
      da_spbInstances = Map.empty, da_speedVoteNums = (\<lambda>_ _. 0), da_reportNums = (\<lambda>_ _. 0)\<rparr>"

abbreviation dspb_at :: "('k, 'db) DAGBigCore \<Rightarrow> int \<Rightarrow> node_id \<Rightarrow> DAGBigSPB" where
  "dspb_at core \<equiv> inst_at NewDAGBigSPB (da_spbInstances core)"

definition put_dspb :: "int \<Rightarrow> node_id \<Rightarrow> DAGBigSPB \<Rightarrow> ('k, 'db) DAGBigCore \<Rightarrow> ('k, 'db) DAGBigCore" where
  "put_dspb view node s core = core\<lparr>da_spbInstances := inst_put view node s (da_spbInstances core)\<rparr>"

definition DAGBigCore_getSpbInstance :: "int \<Rightarrow> node_id \<Rightarrow> ('k, 'db) DAGBigCore \<Rightarrow> ('k, 'db) DAGBigCore" where
  "DAGBigCore_getSpbInstance view node core = put_dspb view node (dspb_at core view node) core"

text \<open>The loop of \<open>getReference\<close> over the committee; it creates the instances it looks at.\<close>

fun reference_loop ::
    "int \<Rightarrow> 8 word \<Rightarrow> node_id list \<Rightarrow> ('k, 'db) DAGBigCore \<Rightarrow> BlockQC list \<times> ('k, 'db) DAGBigCore" where
  "reference_loop view height [] core = ([], core)"
| "reference_loop view height (i # is) core =
     (let core1 = DAGBigCore_getSpbInstance view i core;
          (references, core2) = reference_loop view height is core1 in
      (case DAGBigSPB_GetBlockQC (dspb_at core1 view i) height of
         None \<Rightarrow> (references, core2)
       | Some qc \<Rightarrow> (qc # references, core2)))"

definition getReference ::
    "int \<Rightarrow> 8 word \<Rightarrow> ('k, 'db) DAGBigCore \<Rightarrow> BlockQC list \<times> ('k, 'db) DAGBigCore" where
  "getReference view height core =
     reference_loop view height (map int [0..<nat (Committee_Size (da_committee core))]) core"

definition addWeakVotes :: "int \<Rightarrow> node_id \<Rightarrow> ('k, 'db) DAGBigCore \<Rightarrow> ('k, 'db) DAGBigCore" where
  "addWeakVotes view node core =
     core\<lparr>da_weakVotes := (da_weakVotes core)(view := (da_weakVotes core view)(node := da_weakVotes core view node + 1))\<rparr>"

definition getWeakVotes :: "('k, 'db) DAGBigCore \<Rightarrow> int \<Rightarrow> node_id \<Rightarrow> int" where
  "getWeakVotes core view node = da_weakVotes core view node"

definition DAGBigCore_generatorBlock ::
    "('k, 'db) DAGBigCore \<Rightarrow> int \<Rightarrow> 8 word \<Rightarrow> BlockQC list \<Rightarrow> Block \<times> ('k, 'db) DAGBigCore" where
  "DAGBigCore_generatorBlock core view height references =
     (case GetBatch (da_txpool core) of
        (batch, pool) \<Rightarrow>
          (\<lparr>b_Author = da_nodeID core, b_View = view, b_Height = height, b_Batch = batch, b_Qc = None,
            b_References = references\<rparr>,
           core\<lparr>da_txpool := pool\<rparr>))"

definition DAGBigCore_propose ::
    "'k crypto_ext \<Rightarrow> ('k, 'db) DAGBigCore \<Rightarrow> Block \<Rightarrow> big_go effect list option" where
  "DAGBigCore_propose cx core block =
     do { p \<leftarrow> NewProposeMsg cx (da_sigService core) block;
          Some [ESend (da_nodeID core) NONE (ProposeM p), EEnq (ProposeM p)] }"

definition DAGBigCore_section ::
    "'k crypto_ext \<Rightarrow> ('k, 'db) DAGBigCore \<Rightarrow> big_go \<Rightarrow>
     (('k, 'db) DAGBigCore \<times> big_go effect list \<times> big_go option) option" where
  "DAGBigCore_section cx core g =
     (case g of (view, node, t) \<Rightarrow>
        do { (s', effs, nx) \<leftarrow> DAGBigSPB_section cx (da_committee core) (da_nodeID core) (da_sigService core)
                                 (dspb_at core view node) t;
             Some (put_dspb view node s' core, map (map_effect (\<lambda>t. (view, node, t))) effs,
                   map_option (\<lambda>t. (view, node, t)) nx) })"

section \<open>The handlers\<close>

text \<open>
  The view only moves to the next one and the height only to the next within a view, and only if
  enough certificates of the previous height are there. (\<open>corer.view\<close> counts the node's own
  views from 0, so its increment is exact.)
\<close>

definition DAGBigCore_advanceView ::
    "'k crypto_ext \<Rightarrow> ('k, 'db) DAGBigCore \<Rightarrow> int \<Rightarrow> 8 word \<Rightarrow>
     (('k, 'db) DAGBigCore \<times> big_go effect list) option" where
  "DAGBigCore_advanceView cx core view height =
     (if \<not> (view = da_view core + 1 \<and> height = HEIGHT_1 \<or> view = da_view core \<and> height = da_height core + 1)
      then Some (core, [])
      else
        let (references, core1) =
              (if height = HEIGHT_1 then getReference (view - 1) HEIGHT_2 core
               else if height = HEIGHT_2 then getReference view HEIGHT_1 core else ([], core)) in
        if (height = HEIGHT_1 \<or> height = HEIGHT_2) \<and> int (length references) \<ge> HightThreshold (da_committee core) then
          (case DAGBigCore_generatorBlock core1 view height references of
             (block, core2) \<Rightarrow>
               let core3 = core2\<lparr>da_view := view, da_height := height\<rparr> in
               do { effs \<leftarrow> DAGBigCore_propose cx core3 block; Some (core3, effs) })
        else Some (core1, []))"

definition DAGBigCore_handleProposeMsg ::
    "'k crypto_ext \<Rightarrow> 'db store_ext \<Rightarrow> ('k, 'db) DAGBigCore \<Rightarrow> ProposeMsg \<Rightarrow>
     (('k, 'db) DAGBigCore \<times> big_go effect list \<times> error option) option" where
  "DAGBigCore_handleProposeMsg cx dx core p =
     verified (ProposeMsg_Verify cx (da_committee core) p) (ErrSignature ProposeType (pm_View p) (pm_Author p)) core
       (verified (case pm_DocG p of None \<Rightarrow> Some True | Some d \<Rightarrow> DocGQCMsg_Verify cx (da_committee core) d) ErrDocG core
          (do { b \<leftarrow> pm_B p;
                case storeBlock cx dx (da_store core) b of
                  (Some err, db) \<Rightarrow> Some (core\<lparr>da_store := db\<rparr>, [], Some err)
                | (None, db) \<Rightarrow>
                    (let core1 = core\<lparr>da_store := db\<rparr>;
                         core2 = (if pm_Height p = HEIGHT_2
                                  then fold (\<lambda>qc. addWeakVotes (qc_View qc) (qc_Proposer qc)) (b_References b) core1
                                  else core1) in
                     Some (DAGBigCore_getSpbInstance (pm_View p) (pm_Author p) core2,
                           [EGo (pm_View p, pm_Author p, BPropose p)], None)) }))"

definition DAGBigCore_handleVoteMsg ::
    "'k crypto_ext \<Rightarrow> ('k, 'db) DAGBigCore \<Rightarrow> VoteMsg \<Rightarrow>
     (('k, 'db) DAGBigCore \<times> big_go effect list \<times> error option) option" where
  "DAGBigCore_handleVoteMsg cx core v =
     verified (VoteMsg_Verify cx (da_committee core) v) (ErrSignature VoteType (vm_View v) (vm_Author v)) core
       (Some (DAGBigCore_getSpbInstance (vm_View v) (vm_Proposer v) core, [EGo (vm_View v, vm_Proposer v, BVote v)], None))"

definition DAGBigCore_handleSpeedVoteMsg ::
    "'k crypto_ext \<Rightarrow> ('k, 'db) DAGBigCore \<Rightarrow> SpeedVoteMsg \<Rightarrow>
     (('k, 'db) DAGBigCore \<times> big_go effect list \<times> error option) option" where
  "DAGBigCore_handleSpeedVoteMsg cx core sv =
     verified (SpeedVoteMsg_Verify cx (da_committee core) sv) (ErrSignature SpeedVoteType (sv_View sv) (sv_Author sv)) core
       (let nodes = (da_speedVoteNums core (sv_View sv))(sv_Author sv := da_speedVoteNums core (sv_View sv) (sv_Author sv) + 1);
            core1 = core\<lparr>da_speedVoteNums := (da_speedVoteNums core)(sv_View sv := nodes)\<rparr> in
        do { effs \<leftarrow> (if nodes (da_nodeID core) = HightThreshold (da_committee core)
                       then elect_effects cx (da_sigService core) (da_nodeID core) (sv_View sv) else Some []);
             Some (DAGBigCore_getSpbInstance (sv_View sv) (sv_Proposer sv) core1,
                   effs @ [EGo (sv_View sv, sv_Proposer sv, BSpeedVote sv)], None) })"

definition DAGBigCore_commit_block ::
    "'db store_ext \<Rightarrow> ('k, 'db) DAGBigCore \<Rightarrow> digest \<Rightarrow> error + ('k, 'db) DAGBigCore \<times> big_go effect list" where
  "DAGBigCore_commit_block dx core blockHash =
     (case getBlock dx (da_store core) blockHash of
        Inl err \<Rightarrow> Inl err
      | Inr block \<Rightarrow>
          (case DAGCommitor_Commit (da_commitor core) block of
             (cm, out) \<Rightarrow> Inr (core\<lparr>da_commitor := cm\<rparr>, (case out of None \<Rightarrow> [] | Some b \<Rightarrow> [ECommit b]))))"

definition DAGBigCore_coin_commit ::
    "'db store_ext \<Rightarrow> ('k, 'db) DAGBigCore \<Rightarrow> DAGBigSPB \<Rightarrow> node_id \<Rightarrow> int \<Rightarrow>
     error + ('k, 'db) DAGBigCore \<times> big_go effect list" where
  "DAGBigCore_coin_commit dx core s leader view =
     (if DAGBigSPB_SpeedCert s then DAGBigCore_commit_block dx core (DAGBigSPB_BlockHash s HEIGHT_2)
      else if getWeakVotes core view leader \<ge> LowThreshold (da_committee core)
      then DAGBigCore_commit_block dx core (DAGBigSPB_BlockHash s HEIGHT_1)
      else Inr (core, []))"

definition DAGBigCore_processCoin ::
    "'k crypto_ext \<Rightarrow> 'db store_ext \<Rightarrow> ('k, 'db) DAGBigCore \<Rightarrow> node_id \<Rightarrow> int \<Rightarrow>
     (('k, 'db) DAGBigCore \<times> big_go effect list \<times> error option) option" where
  "DAGBigCore_processCoin cx dx core leader view =
     (let core1 = DAGBigCore_getSpbInstance view leader core; s = dspb_at core1 view leader in
      case DAGBigCore_coin_commit dx core1 s leader view of
        Inl err \<Rightarrow> Some (core1, [], Some err)
      | Inr (core2, effs) \<Rightarrow>
          do { (core3, effs') \<leftarrow> DAGBigCore_advanceView cx core2 (wrap64 (view + 1)) HEIGHT_1;
               Some (core3, effs @ effs', None) })"

definition DAGBigCore_handleElectMsg ::
    "'k crypto_ext \<Rightarrow> 'db store_ext \<Rightarrow> ('k, 'db) DAGBigCore \<Rightarrow> ElectMsg option \<Rightarrow>
     (('k, 'db) DAGBigCore \<times> big_go effect list \<times> error option) option" where
  "DAGBigCore_handleElectMsg cx dx core oe =
     do { e \<leftarrow> oe;
          if \<not> ElectMsg_Verify cx e then Some (core, [], Some (ErrSignature ElectType (em_View e) (em_Author e)))
          else do { (el, res) \<leftarrow> Elector_Add cx (da_eletor core) e;
                    let core1 = core\<lparr>da_eletor := el\<rparr>;
                    case res of
                      Inl err \<Rightarrow> Some (core1, [], Some err)
                    | Inr leader \<Rightarrow>
                        if leader \<noteq> NONE then DAGBigCore_processCoin cx dx core1 leader (em_View e)
                        else Some (core1, [], None) } }"

definition DAGBigCore_handleReportMsg ::
    "'k crypto_ext \<Rightarrow> ('k, 'db) DAGBigCore \<Rightarrow> ReportMsg \<Rightarrow>
     (('k, 'db) DAGBigCore \<times> big_go effect list \<times> error option) option" where
  "DAGBigCore_handleReportMsg cx core r =
     verified (ReportMsg_Verify cx (da_committee core) r) (ErrSignature ReportType (rm_View r) (rm_Author r)) core
       (if \<not> rm_Level r < 3 then None
        else let nums = (da_reportNums core (rm_View r))(rm_Level r := da_reportNums core (rm_View r) (rm_Level r) + 1);
                 core1 = core\<lparr>da_reportNums := (da_reportNums core)(rm_View r := nums)\<rparr>;
                 thr = HightThreshold (da_committee core) in
          if nums LEVEL_2 = 1 \<or> nums LEVEL_1 = thr \<or> nums LEVEL_0 = thr then
            do { (core2, effs) \<leftarrow> DAGBigCore_advanceView cx core1 (wrap64 (rm_View r + 1)) HEIGHT_1;
                 Some (core2, effs, None) }
          else Some (core1, [], None))"

section \<open>The main loop\<close>

definition DAGBigCore_boot ::
    "'k crypto_ext \<Rightarrow> ('k, 'db) DAGBigCore \<Rightarrow> (('k, 'db) DAGBigCore \<times> big_go effect list) option" where
  "DAGBigCore_boot cx core =
     (if da_nodeID core \<ge> Faults (da_parameters core) then
        (case DAGBigCore_generatorBlock core (da_view core) (da_height core) [] of
           (block, core') \<Rightarrow> do { effs \<leftarrow> DAGBigCore_propose cx core' block; Some (core', effs) })
      else Some (core, [EReturn]))"

text \<open>The select over the two channels: a message, or an instance that has a height-1 certificate.\<close>

fun DAGBigCore_handle ::
    "'k crypto_ext \<Rightarrow> 'db store_ext \<Rightarrow> ('k, 'db) DAGBigCore \<Rightarrow> input \<Rightarrow>
     (('k, 'db) DAGBigCore \<times> big_go effect list \<times> error option) option" where
  "DAGBigCore_handle cx dx core (InMsg (ProposeM p)) = DAGBigCore_handleProposeMsg cx dx core p"
| "DAGBigCore_handle cx dx core (InMsg (VoteM v)) = DAGBigCore_handleVoteMsg cx core v"
| "DAGBigCore_handle cx dx core (InMsg (SpeedVoteM sv)) = DAGBigCore_handleSpeedVoteMsg cx core sv"
| "DAGBigCore_handle cx dx core (InMsg (ElectM e)) = DAGBigCore_handleElectMsg cx dx core e"
| "DAGBigCore_handle cx dx core (InMsg (ReportM r)) = DAGBigCore_handleReportMsg cx core r"
| "DAGBigCore_handle cx dx core (InCall view node) =
     do { (core', effs) \<leftarrow> DAGBigCore_advanceView cx core view HEIGHT_2; Some (core', effs, None) }"
| "DAGBigCore_handle cx dx core _ = Some (core, [], None)"

definition DAGBigCore_background :: "('k, 'db) DAGBigCore \<Rightarrow> ('k, 'db) DAGBigCore \<Rightarrow> bool" where
  "DAGBigCore_background core core' \<longleftrightarrow>
     (\<exists>e pool. pool_step (da_txpool core) e pool \<and> (\<forall>b. e \<noteq> BatchTaken b) \<and> core' = core\<lparr>da_txpool := pool\<rparr>)"

definition dag_machine :: "'k crypto_ext \<Rightarrow> 'db store_ext \<Rightarrow> Committee \<Rightarrow> (('k, 'db) DAGBigCore, big_go) machine" where
  "dag_machine cx dx c =
     \<lparr>mc_committee = c, mc_handle = DAGBigCore_handle cx dx, mc_section = DAGBigCore_section cx,
      mc_background = DAGBigCore_background\<rparr>"

end
