(* ===== verification/DAG_Safety.thy ===== *)
theory DAG_Safety
  imports DAG_Core
begin

text \<open>
  What a node of the DAG protocol does in every run: the outcomes of its handlers, the positions of
  its proposals and what they refer to.
\<close>

section \<open>Frame\<close>

lemma put_dspb_sel [simp]:
  "da_nodeID (put_dspb v n s core) = da_nodeID core" "da_view (put_dspb v n s core) = da_view core"
  "da_height (put_dspb v n s core) = da_height core" "da_committee (put_dspb v n s core) = da_committee core"
  "da_sigService (put_dspb v n s core) = da_sigService core" "da_eletor (put_dspb v n s core) = da_eletor core"
  "da_store (put_dspb v n s core) = da_store core" "da_txpool (put_dspb v n s core) = da_txpool core"
  "dspb_at (put_dspb v n s core) v' n' = (if v' = v \<and> n' = n then s else dspb_at core v' n')"
  by (simp_all add: put_dspb_def)

lemma DAGBigCore_getSpbInstance_sel [simp]:
  "da_nodeID (DAGBigCore_getSpbInstance v n core) = da_nodeID core" "da_view (DAGBigCore_getSpbInstance v n core) = da_view core"
  "da_height (DAGBigCore_getSpbInstance v n core) = da_height core"
  "da_committee (DAGBigCore_getSpbInstance v n core) = da_committee core"
  "da_sigService (DAGBigCore_getSpbInstance v n core) = da_sigService core"
  "da_eletor (DAGBigCore_getSpbInstance v n core) = da_eletor core"
  "dspb_at (DAGBigCore_getSpbInstance v n core) v' n' = dspb_at core v' n'"
  by (auto simp: DAGBigCore_getSpbInstance_def)

text \<open>The parts of the state that the handlers leave alone, apart from the elector.\<close>

definition da_same :: "('k, 'db) DAGBigCore \<Rightarrow> ('k, 'db) DAGBigCore \<Rightarrow> bool" where
  "da_same core core' \<longleftrightarrow>
     da_nodeID core' = da_nodeID core \<and> da_committee core' = da_committee core \<and> da_sigService core' = da_sigService core \<and>
     el_committee (da_eletor core') = el_committee (da_eletor core) \<and> (\<forall>v n. dspb_at core' v n = dspb_at core v n)"

lemma da_same_refl [simp]: "da_same core core"
  by (simp add: da_same_def)

lemma da_same_trans: "da_same a b \<Longrightarrow> da_same b c \<Longrightarrow> da_same a c"
  by (simp add: da_same_def)

lemma da_same_upd [simp]:
  "da_same core (core'\<lparr>da_store := x1\<rparr>) = da_same core core'" "da_same core (core'\<lparr>da_view := x2\<rparr>) = da_same core core'"
  "da_same core (core'\<lparr>da_height := x3\<rparr>) = da_same core core'" "da_same core (core'\<lparr>da_txpool := x4\<rparr>) = da_same core core'"
  "da_same core (core'\<lparr>da_commitor := x5\<rparr>) = da_same core core'" "da_same core (core'\<lparr>da_weakVotes := x6\<rparr>) = da_same core core'"
  "da_same core (core'\<lparr>da_speedVoteNums := x7\<rparr>) = da_same core core'"
  "da_same core (core'\<lparr>da_reportNums := x8\<rparr>) = da_same core core'"
  "da_same core (DAGBigCore_getSpbInstance v n core') = da_same core core'"
  by (simp_all add: da_same_def)

lemma weakVotes_fold:
  "\<exists>w. fold (\<lambda>qc. addWeakVotes (qc_View qc) (qc_Proposer qc)) qcs core = core\<lparr>da_weakVotes := w\<rparr>"
proof (induction qcs arbitrary: core)
  case Nil
  have "core = core\<lparr>da_weakVotes := da_weakVotes core\<rparr>" by simp
  then show ?case by (simp only: fold_simps id_apply) blast
next
  case (Cons qc qcs)
  show ?case using Cons.IH[of "addWeakVotes (qc_View qc) (qc_Proposer qc) core"]
    by (auto simp: addWeakVotes_def)
qed

section \<open>References\<close>

text \<open>\<open>getReference\<close> collects the certificates of a view and height, in the order of the committee.\<close>

lemma reference_loop_eq:
  assumes "reference_loop view h is core = (references, core')"
  shows "references = List.map_filter (\<lambda>i. DAGBigSPB_GetBlockQC (dspb_at core view i) h) is \<and> da_same core core' \<and>
    da_view core' = da_view core \<and> da_height core' = da_height core \<and> da_txpool core' = da_txpool core \<and> da_eletor core' = da_eletor core"
  using assms
proof (induction "is" arbitrary: core references core')
  case Nil
  then show ?case by (simp add: List.map_filter_simps)
next
  case (Cons i "is")
  let ?core1 = "DAGBigCore_getSpbInstance view i core"
  obtain refs core2 where l: "reference_loop view h is ?core1 = (refs, core2)" by (cases "reference_loop view h is ?core1")
  have same: "da_same core ?core1" by simp
  have tx: "da_txpool ?core1 = da_txpool core" by (simp add: DAGBigCore_getSpbInstance_def)
  from Cons.IH[OF l] Cons.prems l same tx show ?case
    by (auto simp: List.map_filter_simps Let_def da_same_def split: option.splits)
qed

text \<open>The certificates a proposal at the core's next position refers to.\<close>

definition references_for :: "('k, 'db) DAGBigCore \<Rightarrow> int \<Rightarrow> 8 word \<Rightarrow> BlockQC list" where
  "references_for core view h =
     List.map_filter (\<lambda>i. DAGBigSPB_GetBlockQC (dspb_at core (if h = HEIGHT_1 then view - 1 else view) i) (if h = HEIGHT_1 then HEIGHT_2 else HEIGHT_1))
       (map int [0..<nat (Committee_Size (da_committee core))])"

text \<open>Advancing to the next position with a proposal for it.\<close>

definition dag_advance :: "('k, 'db) DAGBigCore \<Rightarrow> big_go effect list \<Rightarrow> ('k, 'db) DAGBigCore \<Rightarrow> bool" where
  "dag_advance core effs core' \<longleftrightarrow>
     (da_view core' = da_view core + 1 \<and> da_height core' = HEIGHT_1 \<or>
      da_view core' = da_view core \<and> da_height core' = da_height core + 1 \<and> da_height core' \<in> {HEIGHT_1, HEIGHT_2}) \<and>
     (\<exists>p b. effs = [ESend (da_nodeID core) NONE (ProposeM p), EEnq (ProposeM p)] \<and>
        pm_Author p = da_nodeID core \<and> pm_View p = da_view core' \<and> pm_Height p = da_height core' \<and> pm_B p = Some b \<and>
        pm_DocG p = None \<and> b_View b = da_view core' \<and> b_Height b = da_height core' \<and> b_References b = references_for core (da_view core') (da_height core') \<and>
        HightThreshold (da_committee core) \<le> int (length (b_References b)))"

lemma DAGBigCore_advanceView_outcome:
  assumes "DAGBigCore_advanceView cx core view h = Some (core', effs)"
  shows "da_same core core' \<and> da_eletor core' = da_eletor core \<and>
    (da_view core' = da_view core \<and> da_height core' = da_height core \<and> effs = [] \<or>
     da_view core' = view \<and> da_height core' = h \<and> dag_advance core effs core')"
proof (cases "view = da_view core + 1 \<and> h = HEIGHT_1 \<or> view = da_view core \<and> h = da_height core + 1")
  case False
  then show ?thesis using assms by (auto simp: DAGBigCore_advanceView_def)
next
  case True
  obtain refs core1 where r: "(if h = HEIGHT_1 then getReference (view - 1) HEIGHT_2 core
      else if h = HEIGHT_2 then getReference view HEIGHT_1 core else ([], core)) = (refs, core1)"
    by (cases "if h = HEIGHT_1 then getReference (view - 1) HEIGHT_2 core
      else if h = HEIGHT_2 then getReference view HEIGHT_1 core else ([], core)")
  have same: "da_same core core1" "da_view core1 = da_view core" "da_height core1 = da_height core" "da_eletor core1 = da_eletor core"
    and refs: "h \<in> {HEIGHT_1, HEIGHT_2} \<Longrightarrow> refs = references_for core view h"
    using r by (auto simp: getReference_def references_for_def dest!: reference_loop_eq split: if_splits)
  show ?thesis
  proof (cases "h \<in> {HEIGHT_1, HEIGHT_2} \<and> HightThreshold (da_committee core) \<le> int (length refs)")
    case False
    then have "core' = core1" "effs = []" using assms True r by (auto simp: DAGBigCore_advanceView_def)
    with same show ?thesis by simp
  next
    case adv: True
    let ?core2 = "\<lambda>pool. core1\<lparr>da_txpool := pool, da_view := view, da_height := h\<rparr>"
    obtain batch pool where gb: "GetBatch (da_txpool core1) = (batch, pool)" by (cases "GetBatch (da_txpool core1)")
    let ?b = "\<lparr>b_Author = da_nodeID core1, b_View = view, b_Height = h, b_Batch = batch, b_Qc = None, b_References = refs\<rparr>"
    from assms True r adv gb obtain p where core': "core' = ?core2 pool" and p: "NewProposeMsg cx (da_sigService core1) ?b = Some p"
        and effs: "effs = [ESend (da_nodeID core1) NONE (ProposeM p), EEnq (ProposeM p)]"
      by (auto simp: DAGBigCore_advanceView_def DAGBigCore_generatorBlock_def DAGBigCore_propose_def Let_def Option.bind_eq_Some_conv)
    have "da_nodeID core1 = da_nodeID core" using same(1) by (simp add: da_same_def)
    moreover have "references_for core view h = refs" using refs adv by simp
    ultimately have "dag_advance core effs core'"
      unfolding dag_advance_def using True adv NewProposeMsg_fields[OF p] by (auto simp: core' effs)
    moreover have "da_same core core'" "da_eletor core' = da_eletor core" using same by (simp_all add: core')
    ultimately show ?thesis by (simp add: core')
  qed
qed

lemma DAGBigCore_coin_commit_outcome:
  assumes "DAGBigCore_coin_commit dx core s leader view = Inr (core', effs)"
  shows "(\<exists>cm. core' = core\<lparr>da_commitor := cm\<rparr>) \<and> (effs = [] \<or> (\<exists>b. effs = [ECommit b]))"
proof (cases "\<exists>h. DAGBigCore_commit_block dx core h = Inr (core', effs)")
  case True
  then obtain h where h: "DAGBigCore_commit_block dx core h = Inr (core', effs)" by blast
  then obtain b cm out where "getBlock dx (da_store core) h = Inr b" "DAGCommitor_Commit (da_commitor core) b = (cm, out)"
    by (cases "getBlock dx (da_store core) h"; cases "DAGCommitor_Commit (da_commitor core) (projr (getBlock dx (da_store core) h))")
       (auto simp: DAGBigCore_commit_block_def)
  with h show ?thesis by (cases out) (auto simp: DAGBigCore_commit_block_def)
next
  case False
  then have "core' = core\<lparr>da_commitor := da_commitor core\<rparr>" "effs = []"
    using assms by (auto simp: DAGBigCore_coin_commit_def split: if_splits)
  then show ?thesis by blast
qed

section \<open>The outcomes of the handlers\<close>

text \<open>
  What a handler may start, and its outcome as a whole: either the position stays and only
  election messages are enqueued, or the node advances, possibly after a commit.
\<close>

fun dag_spawn :: "input \<Rightarrow> big_go list" where
  "dag_spawn (InMsg (ProposeM p)) = [(pm_View p, pm_Author p, BPropose p)]"
| "dag_spawn (InMsg (VoteM v)) = [(vm_View v, vm_Proposer v, BVote v)]"
| "dag_spawn (InMsg (SpeedVoteM sv)) = [(sv_View sv, sv_Proposer sv, BSpeedVote sv)]"
| "dag_spawn _ = []"

definition dag_quiet :: "'k crypto_ext \<Rightarrow> ('k, 'db) DAGBigCore \<Rightarrow> input \<Rightarrow> big_go effect list \<Rightarrow> ('k, 'db) DAGBigCore \<Rightarrow> bool" where
  "dag_quiet cx core inp effs core' \<longleftrightarrow>
     da_view core' = da_view core \<and> da_height core' = da_height core \<and> sent_proposals effs = [] \<and> sends_enqueued effs \<and>
     (spawned effs = {#} \<or> spawned effs = mset (dag_spawn inp)) \<and> (\<forall>m. EEnq m \<in> set effs \<longrightarrow>
       (\<exists>sv r. inp = InMsg (SpeedVoteM sv) \<and> NewElectMsg cx (da_sigService core) (da_nodeID core) (sv_View sv) = Some r \<and>
          m = elect_msg r))"

definition dag_step :: "'k crypto_ext \<Rightarrow> ('k, 'db) DAGBigCore \<Rightarrow> input \<Rightarrow> big_go effect list \<Rightarrow> ('k, 'db) DAGBigCore \<Rightarrow> bool" where
  "dag_step cx core inp effs core' \<longleftrightarrow> da_same core core' \<and>
     (dag_quiet cx core inp effs core' \<or>
      (\<exists>pre post. effs = pre @ post \<and> (pre = [] \<or> (\<exists>b. pre = [ECommit b])) \<and> dag_advance core post core'))"

lemma dag_advance_same:
  assumes "dag_advance core1 effs core'" "da_same core core1" "da_view core1 = da_view core" "da_height core1 = da_height core"
  shows "dag_advance core effs core'"
proof -
  have "references_for core1 v h = references_for core v h" "da_committee core1 = da_committee core" "da_nodeID core1 = da_nodeID core" for v h
    using assms(2) by (simp_all add: references_for_def da_same_def)
  with assms(1,3,4) show ?thesis by (simp add: dag_advance_def)
qed

lemma DAGBigCore_advanceView_step:
  assumes "DAGBigCore_advanceView cx core1 view h = Some (core', effs)"
    and "da_same core core1" "da_view core1 = da_view core" "da_height core1 = da_height core" "pre = [] \<or> (\<exists>b. pre = [ECommit b])"
  shows "dag_step cx core inp (pre @ effs) core'"
proof -
  from DAGBigCore_advanceView_outcome[OF assms(1)] have s: "da_same core1 core'"
    and o: "da_view core' = da_view core1 \<and> da_height core' = da_height core1 \<and> effs = [] \<or> dag_advance core1 effs core'" by auto
  have "da_same core core'" by (rule da_same_trans[OF assms(2) s])
  with o show ?thesis
  proof (elim disjE)
    assume "da_view core' = da_view core1 \<and> da_height core' = da_height core1 \<and> effs = []"
    then have "dag_quiet cx core inp (pre @ effs) core'" using assms(3-5) by (auto simp: dag_quiet_def sends_enqueued_def)
    with \<open>da_same core core'\<close> show ?thesis by (simp add: dag_step_def)
  next
    assume "dag_advance core1 effs core'"
    from dag_advance_same[OF this assms(2-4)] \<open>da_same core core'\<close> assms(5) show ?thesis by (auto simp: dag_step_def)
  qed
qed

lemma DAGBigCore_processCoin_step:
  assumes "DAGBigCore_processCoin cx dx core1 leader view = Some (core', effs, err)"
    and "da_same core core1" "da_view core1 = da_view core" "da_height core1 = da_height core"
  shows "dag_step cx core inp effs core'"
proof (cases "DAGBigCore_coin_commit dx (DAGBigCore_getSpbInstance view leader core1) (dspb_at core1 view leader) leader view")
  case (Inl e)
  then have "core' = DAGBigCore_getSpbInstance view leader core1" "effs = []"
    using assms(1) by (auto simp: DAGBigCore_processCoin_def Let_def)
  then show ?thesis using assms(2-4) by (simp add: dag_step_def dag_quiet_def sends_enqueued_def)
next
  case (Inr r)
  obtain core2 ceffs where r: "r = (core2, ceffs)" by (cases r)
  from DAGBigCore_coin_commit_outcome[OF Inr[unfolded r]] obtain cm where
    c2: "core2 = (DAGBigCore_getSpbInstance view leader core1)\<lparr>da_commitor := cm\<rparr>" and ceffs: "ceffs = [] \<or> (\<exists>b. ceffs = [ECommit b])" by blast
  obtain effs' where adv: "DAGBigCore_advanceView cx core2 (wrap64 (view + 1)) HEIGHT_1 = Some (core', effs')" and effs: "effs = ceffs @ effs'"
    using assms(1) Inr r by (auto simp: DAGBigCore_processCoin_def Let_def Option.bind_eq_Some_conv)
  show ?thesis unfolding effs
    by (rule DAGBigCore_advanceView_step[OF adv]) (use assms(2-4) ceffs in \<open>simp_all add: c2\<close>)
qed

lemma DAGBigCore_handleElectMsg_step:
  assumes "DAGBigCore_handleElectMsg cx dx core oe = Some (core', effs, err)"
  shows "dag_step cx core (InMsg (ElectM oe)) effs core'"
proof -
  obtain e where e: "oe = Some e" using assms by (cases oe) (auto simp: DAGBigCore_handleElectMsg_def)
  show ?thesis
  proof (cases "ElectMsg_Verify cx e")
    case False
    then show ?thesis using assms e by (auto simp: DAGBigCore_handleElectMsg_def dag_step_def dag_quiet_def sends_enqueued_def)
  next
    case True
    obtain el res where add: "Elector_Add cx (da_eletor core) e = Some (el, res)"
      using assms e True by (cases "Elector_Add cx (da_eletor core) e") (auto simp: DAGBigCore_handleElectMsg_def)
    let ?core1 = "core\<lparr>da_eletor := el\<rparr>"
    have same: "da_same core ?core1" using Elector_Add_committee[OF add] by (simp add: da_same_def)
    show ?thesis
    proof (cases "\<exists>leader. res = Inr leader \<and> leader \<noteq> NONE")
      case True
      then obtain leader where "DAGBigCore_processCoin cx dx ?core1 leader (em_View e) = Some (core', effs, err)"
        using assms e \<open>ElectMsg_Verify cx e\<close> add by (auto simp: DAGBigCore_handleElectMsg_def Let_def)
      from DAGBigCore_processCoin_step[OF this same] show ?thesis by simp
    next
      case False
      then have "core' = ?core1" "effs = []"
        using assms e \<open>ElectMsg_Verify cx e\<close> add by (auto simp: DAGBigCore_handleElectMsg_def Let_def split: sum.splits if_splits)
      with same show ?thesis by (simp add: dag_step_def dag_quiet_def sends_enqueued_def)
    qed
  qed
qed

lemma DAGBigCore_handleProposeMsg_step:
  assumes "DAGBigCore_handleProposeMsg cx dx core p = Some (core', effs, err)"
  shows "dag_step cx core (InMsg (ProposeM p)) effs core' \<and> da_eletor core' = da_eletor core"
proof (cases "pm_B p")
  case None
  then have "core' = core" "effs = []"
    using assms by (auto simp: DAGBigCore_handleProposeMsg_def elim!: verifiedE)
  then show ?thesis by (simp add: dag_step_def dag_quiet_def sends_enqueued_def)
next
  case (Some b)
  obtain e db where db: "storeBlock cx dx (da_store core) b = (e, db)" by (cases "storeBlock cx dx (da_store core) b")
  obtain w where w: "(if pm_Height p = HEIGHT_2 then fold (\<lambda>qc. addWeakVotes (qc_View qc) (qc_Proposer qc)) (b_References b) (core\<lparr>da_store := db\<rparr>)
      else core\<lparr>da_store := db\<rparr>) = core\<lparr>da_store := db, da_weakVotes := w\<rparr>"
  proof (cases "pm_Height p = HEIGHT_2")
    case True
    then show ?thesis using weakVotes_fold[of "b_References b" "core\<lparr>da_store := db\<rparr>"] that by auto
  next
    case False
    then show ?thesis using that[of "da_weakVotes core"] by simp
  qed
  show ?thesis
    using assms Some db w unfolding DAGBigCore_handleProposeMsg_def
    by (elim verifiedE) (auto simp: dag_step_def dag_quiet_def sends_enqueued_def Let_def split: option.splits)
qed

lemma DAGBigCore_handle_step:
  assumes "DAGBigCore_handle cx dx core inp = Some (core', effs, err)"
  shows "dag_step cx core inp effs core'"
proof (cases inp)
  case (InCall v n)
  with assms obtain "DAGBigCore_advanceView cx core v HEIGHT_2 = Some (core', effs)" by (auto simp: Option.bind_eq_Some_conv)
  from DAGBigCore_advanceView_step[OF this, of core "[]"] show ?thesis by simp
next
  case (InMsg m)
  show ?thesis
  proof (cases m)
    case (ProposeM p)
    then show ?thesis using assms InMsg DAGBigCore_handleProposeMsg_step[of cx dx core p core' effs err] by simp
  next
    case (VoteM v)
    then show ?thesis using assms InMsg
      by (auto simp: DAGBigCore_handleVoteMsg_def dag_step_def dag_quiet_def sends_enqueued_def elim!: verifiedE)
  next
    case (SpeedVoteM sv)
    have "da_same core core' \<and> dag_quiet cx core inp effs core'" using assms InMsg SpeedVoteM
      by (auto simp: DAGBigCore_handleSpeedVoteMsg_def dag_quiet_def sends_enqueued_def Let_def Option.bind_eq_Some_conv
          elim!: verifiedE dest!: elect_effects_outcome split: if_splits)
    then show ?thesis by (simp add: dag_step_def)
  next
    case (ElectM e)
    then show ?thesis using assms InMsg by (simp add: DAGBigCore_handleElectMsg_step)
  next
    case (ReportM r)
    show ?thesis
    proof (cases "\<exists>nums. DAGBigCore_advanceView cx (core\<lparr>da_reportNums := nums\<rparr>) (wrap64 (rm_View r + 1)) HEIGHT_1 = Some (core', effs)")
      case True
      then obtain nums where "DAGBigCore_advanceView cx (core\<lparr>da_reportNums := nums\<rparr>) (wrap64 (rm_View r + 1)) HEIGHT_1 = Some (core', effs)" ..
      from DAGBigCore_advanceView_step[OF this, of core "[]"] show ?thesis by simp
    next
      case False
      then show ?thesis using assms InMsg ReportM
        by (auto simp: DAGBigCore_handleReportMsg_def dag_step_def dag_quiet_def sends_enqueued_def Let_def Option.bind_eq_Some_conv
            elim!: verifiedE split: if_splits)
    qed
  qed (use assms InMsg in \<open>simp_all add: dag_step_def dag_quiet_def sends_enqueued_def\<close>)
qed

section \<open>Sections\<close>

lemma DAGBigSPB_section_big:
  assumes "DAGBigSPB_section cx c i srvc s t = Some (s', effs, nx)"
  obtains (propose) p where "t = BPropose p" "DAGBigSPB_propose_start cx s p = Some (s', nx)" "effs = []"
    | (callback) v where "t = BVoteAct v" "vm_Height v = HEIGHT_1" "s' = s" "effs = [ECall (bs_View s) (bs_Proposer s)]" "nx = None"
    | (same) "\<And>p. t \<noteq> BPropose p" "BigSPB_section cx c i srvc s t = Some (s', effs, nx)"
proof (cases t)
  case (BPropose p)
  then show ?thesis using assms propose by (auto simp: Option.bind_eq_Some_conv)
next
  case (BVoteAct v)
  then show ?thesis using assms callback same by (cases "vm_Height v = HEIGHT_1") auto
qed (use assms same in auto)

text \<open>Certificates of an instance are for its view and proposer and for the height they are stored at.\<close>

definition placed_qcs :: "BigSPB \<Rightarrow> bool" where
  "placed_qcs s \<longleftrightarrow> (\<forall>h qc. bs_blockQcs s h = Some qc \<longrightarrow> qc_View qc = bs_View s \<and> qc_Proposer qc = bs_Proposer s \<and> qc_Height qc = h)"

lemma placed_new_dag [simp]: "placed_inst v n (NewDAGBigSPB n v)" "placed_qcs (NewDAGBigSPB n v)"
  by (simp_all add: placed_inst_def placed_qcs_def NewDAGBigSPB_def)

lemma BigSPB_section_qcs:
  assumes "BigSPB_section cx c i srvc s t = Some (s', effs, nx)" "placed_inst v n s" "placed_qcs s" "placed_task v n t"
  shows "placed_qcs s'"
  using assms
  by (cases t)
     (auto simp: BigSPB_propose_start_def BigSPB_vote_start_def BigSPB_vote_count_def BigSPB_vote_qc_def BigSPB_qc_def
      BigSPB_speed_start_def BigSPB_speed_count_def BigSPB_speed_store_def Option.bind_eq_Some_conv Let_def
      placed_inst_def placed_qcs_def split: if_splits prod.splits)

lemma DAGBigSPB_section_placed:
  assumes "DAGBigSPB_section cx c i srvc s t = Some (s', effs, nx)" "placed_inst v n s" "placed_qcs s" "placed_task v n t"
  shows "placed_inst v n s' \<and> placed_qcs s' \<and> (\<forall>u \<in># go_pending (effs, nx). placed_task v n u) \<and> sent_proposals effs = []"
  using assms(1)
proof (cases rule: DAGBigSPB_section_big)
  case (propose p)
  then show ?thesis using assms(2,3)
    by (auto simp: DAGBigSPB_propose_start_def Option.bind_eq_Some_conv placed_inst_def placed_qcs_def go_pending_def
        split: if_splits)
next
  case (callback m)
  then show ?thesis using assms(2,3) by (simp add: go_pending_def)
next
  case same
  then show ?thesis using BigSPB_section_placed[OF same(2) assms(2,4)] BigSPB_section_qcs[OF same(2) assms(2-4)]
      BigSPB_section_quiet[OF same(2)] by simp
qed

lemma DAGBigCore_sectionE:
  assumes "DAGBigCore_section cx core (view, node, t) = Some (core', effs, g')"
  obtains s' ieffs nx where
    "DAGBigSPB_section cx (da_committee core) (da_nodeID core) (da_sigService core) (dspb_at core view node) t = Some (s', ieffs, nx)"
    "core' = put_dspb view node s' core" "effs = map (map_effect (\<lambda>t. (view, node, t))) ieffs"
    "g' = map_option (\<lambda>t. (view, node, t)) nx"
  using assms by (auto simp: DAGBigCore_section_def Option.bind_eq_Some_conv)

section \<open>Proposals\<close>

text \<open>The position of a proposal, and of the core.\<close>

definition pos :: "int \<Rightarrow> 8 word \<Rightarrow> int" where
  "pos v h = 2 * v + uint h"

definition proposal_positions :: "'g effect list \<Rightarrow> int list" where
  "proposal_positions es = map (\<lambda>p. pos (pm_View p) (pm_Height p)) (sent_proposals es)"

lemma dag_advance_pos:
  assumes "dag_advance core effs core'" "da_height core \<in> {HEIGHT_1, HEIGHT_2}"
  shows "pos (da_view core) (da_height core) < pos (da_view core') (da_height core') \<and> da_height core' \<in> {HEIGHT_1, HEIGHT_2} \<and>
    proposal_positions effs = [pos (da_view core') (da_height core')]"
  using assms by (auto simp: dag_advance_def pos_def proposal_positions_def)

interpretation dag_prop: advancing_proposer "dag_machine cx dx c" "\<lambda>core. da_height core \<in> {HEIGHT_1, HEIGHT_2}"
    "\<lambda>core. pos (da_view core) (da_height core)" proposal_positions for cx dx c
proof
  fix core i core' effs err
  assume J: "da_height core \<in> {HEIGHT_1, HEIGHT_2}" and "mc_handle (dag_machine cx dx c) core i = Some (core', effs, err)"
  then have "dag_step cx core i effs core'" using DAGBigCore_handle_step[of cx dx core i core' effs err] by (simp add: dag_machine_def)
  then show "da_height core' \<in> {HEIGHT_1, HEIGHT_2} \<and>
      advances (\<lambda>core. pos (da_view core) (da_height core)) proposal_positions core effs core'"
    unfolding dag_step_def
  proof (elim conjE disjE exE)
    assume "dag_quiet cx core i effs core'"
    then show ?thesis using J by (simp add: dag_quiet_def sends_enqueued_def advances_def proposal_positions_def)
  next
    fix pre post
    assume "effs = pre @ post" "dag_advance core post core'" "pre = []"
    then show ?thesis using dag_advance_pos[of core post core'] J by (simp add: advances_def)
  next
    fix pre post b
    assume "effs = pre @ post" "dag_advance core post core'" "pre = [ECommit b]"
    then show ?thesis using dag_advance_pos[of core post core'] J by (simp add: advances_def proposal_positions_def)
  qed
next
  fix core g core' effs g'
  assume J: "da_height core \<in> {HEIGHT_1, HEIGHT_2}" and "mc_section (dag_machine cx dx c) core g = Some (core', effs, g')"
  then have "DAGBigCore_section cx core (fst g, fst (snd g), snd (snd g)) = Some (core', effs, g')" by (simp add: dag_machine_def)
  then show "da_height core' \<in> {HEIGHT_1, HEIGHT_2} \<and>
      advances (\<lambda>core. pos (da_view core) (da_height core)) proposal_positions core effs core'"
  proof (cases rule: DAGBigCore_sectionE)
    case (1 s' ieffs nx)
    have "sent_proposals ieffs = []"
      using 1(1) BigSPB_section_quiet by (cases rule: DAGBigSPB_section_big) fastforce+
    with 1 J show ?thesis by (simp add: advances_def proposal_positions_def)
  qed
qed (auto simp: proposal_positions_def dag_machine_def DAGBigCore_background_def)

text \<open>A proposal refers to enough certificates of distinct members, all of the previous height.\<close>

definition well_referenced :: "Committee \<Rightarrow> ProposeMsg \<Rightarrow> bool" where
  "well_referenced c p \<longleftrightarrow>
     (\<exists>b. pm_B p = Some b \<and> HightThreshold c \<le> int (length (b_References b)) \<and> distinct (map qc_Proposer (b_References b)) \<and>
        (\<forall>qc \<in> set (b_References b). 0 \<le> qc_Proposer qc \<and> qc_Proposer qc < Committee_Size c \<and>
           (if pm_Height p = HEIGHT_1 then qc_View qc = pm_View p - 1 \<and> qc_Height qc = HEIGHT_2
            else qc_View qc = pm_View p \<and> qc_Height qc = HEIGHT_1)))"

definition all_placed :: "('k, 'db) DAGBigCore \<Rightarrow> bool" where
  "all_placed core \<longleftrightarrow> (\<forall>v n. placed_inst v n (dspb_at core v n) \<and> placed_qcs (dspb_at core v n))"

lemma map_filter_key: "(\<And>x y. f x = Some y \<Longrightarrow> key y = x) \<Longrightarrow> map key (List.map_filter f xs) = filter (\<lambda>x. f x \<noteq> None) xs"
  by (induction xs) (auto simp: List.map_filter_simps split: option.splits)

lemma references_for_placed:
  assumes "all_placed core"
  shows "distinct (map qc_Proposer (references_for core view h)) \<and>
    (\<forall>qc \<in> set (references_for core view h). 0 \<le> qc_Proposer qc \<and> qc_Proposer qc < Committee_Size (da_committee core) \<and>
       (if h = HEIGHT_1 then qc_View qc = view - 1 \<and> qc_Height qc = HEIGHT_2 else qc_View qc = view \<and> qc_Height qc = HEIGHT_1))"
proof -
  let ?v = "if h = HEIGHT_1 then view - 1 else view" and ?h = "if h = HEIGHT_1 then HEIGHT_2 else HEIGHT_1"
  let ?f = "\<lambda>i. DAGBigSPB_GetBlockQC (dspb_at core ?v i) ?h" and ?ids = "map int [0..<nat (Committee_Size (da_committee core))]"
  have f: "?f i = Some qc \<Longrightarrow> qc_Proposer qc = i \<and> qc_View qc = ?v \<and> qc_Height qc = ?h" for i qc
  proof -
    assume "?f i = Some qc"
    then have "bs_blockQcs (dspb_at core ?v i) ?h = Some qc" by (simp add: DAGBigSPB_GetBlockQC_def split: if_splits)
    then show ?thesis using assms by (auto simp: all_placed_def placed_qcs_def placed_inst_def)
  qed
  have keys: "map qc_Proposer (references_for core view h) = filter (\<lambda>i. ?f i \<noteq> None) ?ids"
    unfolding references_for_def by (rule map_filter_key) (use f in auto)
  have "distinct ?ids" by (simp add: distinct_map inj_on_def)
  then have "distinct (map qc_Proposer (references_for core view h))" unfolding keys by simp
  moreover have "0 \<le> qc_Proposer qc \<and> qc_Proposer qc < Committee_Size (da_committee core)" if "qc \<in> set (references_for core view h)" for qc
  proof -
    have "qc_Proposer qc \<in> set (map qc_Proposer (references_for core view h))" using that by simp
    then show ?thesis unfolding keys by auto
  qed
  moreover have "qc_View qc = ?v \<and> qc_Height qc = ?h" if "qc \<in> set (references_for core view h)" for qc
    using that f unfolding references_for_def by (auto simp: List.map_filter_def)
  ultimately show ?thesis by simp
qed

abbreviation placed_go :: "big_go \<Rightarrow> bool" where
  "placed_go g \<equiv> placed_task (fst g) (fst (snd g)) (snd (snd g))"

definition dag_refs_ok :: "Committee \<Rightarrow> ('k, 'db) DAGBigCore \<Rightarrow> big_go effect list \<Rightarrow> bool" where
  "dag_refs_ok c core tr \<longleftrightarrow> da_committee core = c \<and> all_placed core \<and> (\<forall>p \<in> set (sent_proposals tr). well_referenced c p)"

lemma all_placed_same: "da_same core core' \<Longrightarrow> all_placed core' = all_placed core"
  by (simp add: all_placed_def da_same_def)

lemma dag_refs_handle:
  assumes "dag_refs_ok c core tr" "dag_step cx core inp effs core'"
  shows "dag_refs_ok c core' (tr @ effs) \<and> (\<forall>g \<in># spawned effs. placed_go g)"
proof -
  have same: "da_same core core'" using assms(2) by (simp add: dag_step_def)
  then have core': "da_committee core' = c" "all_placed core'"
    using assms(1) all_placed_same[OF same] by (auto simp: dag_refs_ok_def da_same_def)
  from assms(2) have "(\<forall>p \<in> set (sent_proposals effs). well_referenced c p) \<and> (\<forall>g \<in># spawned effs. placed_go g)"
    unfolding dag_step_def
  proof (elim conjE disjE exE)
    assume "dag_quiet cx core inp effs core'"
    moreover have "\<forall>g \<in> set (dag_spawn inp). placed_go g" by (cases inp rule: dag_spawn.cases) auto
    ultimately show ?thesis by (auto simp: dag_quiet_def sends_enqueued_def)
  next
    fix pre post
    assume e: "effs = pre @ post" "pre = []" "dag_advance core post core'"
    then show ?thesis using references_for_placed[of core "da_view core'" "da_height core'"] assms(1)
      by (auto simp: dag_advance_def well_referenced_def dag_refs_ok_def)
  next
    fix pre post b
    assume e: "effs = pre @ post" "pre = [ECommit b]" "dag_advance core post core'"
    then show ?thesis using references_for_placed[of core "da_view core'" "da_height core'"] assms(1)
      by (auto simp: dag_advance_def well_referenced_def dag_refs_ok_def)
  qed
  with core' assms(1) show ?thesis by (auto simp: dag_refs_ok_def)
qed

lemma dag_refs_section:
  assumes "dag_refs_ok c core tr" "placed_go (view, node, t)" "DAGBigCore_section cx core (view, node, t) = Some (core', effs, g')"
  shows "dag_refs_ok c core' (tr @ effs) \<and> (\<forall>g \<in># spawned effs. placed_go g) \<and> pred_option placed_go g'"
  using assms(3)
proof (cases rule: DAGBigCore_sectionE)
  case (1 s' ieffs nx)
  have s: "placed_inst view node (dspb_at core view node)" "placed_qcs (dspb_at core view node)"
    using assms(1) by (simp_all add: dag_refs_ok_def all_placed_def)
  have "placed_task view node t" using assms(2) by simp
  from DAGBigSPB_section_placed[OF 1(1) s this]
  have p: "placed_inst view node s'" "placed_qcs s'" "\<forall>u \<in># go_pending (ieffs, nx). placed_task view node u" "sent_proposals ieffs = []"
    by simp_all
  have "all_placed core'" using p(1,2) assms(1) 1(2) by (simp add: dag_refs_ok_def all_placed_def)
  then have "dag_refs_ok c core' (tr @ effs)" using assms(1) 1(2,3) p(4) by (simp add: dag_refs_ok_def)
  moreover have "\<forall>g \<in># spawned effs. placed_go g" using p(3) 1(3) by (auto simp: go_pending_def)
  moreover have "pred_option placed_go g'" using p(3) unfolding 1(4) by (cases nx) (auto simp: go_pending_def)
  ultimately show ?thesis by blast
qed

interpretation dag_refs: node_invariant "dag_machine cx dx c" "\<lambda>_. True" "dag_refs_ok c" "\<lambda>_. True" placed_go "\<lambda>_ _. True"
  for cx :: "'k crypto_ext" and dx :: "'db store_ext" and c
proof
  fix core :: "('k, 'db) DAGBigCore" and tr inp core' effs err
  assume "dag_refs_ok c core tr" "mc_handle (dag_machine cx dx c) core inp = Some (core', effs, err)"
  then show "dag_refs_ok c core' (tr @ effs) \<and> list_all (effect_ok (\<lambda>_. True) placed_go (\<lambda>_ _. True)) effs"
    using DAGBigCore_handle_step[of cx dx core inp core' effs err] dag_refs_handle[of c core tr cx inp effs core']
    by (simp add: dag_machine_def effects_ok_parts)
next
  fix core :: "('k, 'db) DAGBigCore" and tr g core' effs g'
  assume "dag_refs_ok c core tr" "placed_go g" "mc_section (dag_machine cx dx c) core g = Some (core', effs, g')"
  then show "dag_refs_ok c core' (tr @ effs) \<and> list_all (effect_ok (\<lambda>_. True) placed_go (\<lambda>_ _. True)) effs \<and> pred_option placed_go g'"
    using dag_refs_section[of c core tr "fst g" "fst (snd g)" "snd (snd g)" cx core' effs g']
    by (simp add: dag_machine_def effects_ok_parts)
qed (auto simp: dag_machine_def DAGBigCore_background_def dag_refs_ok_def all_placed_def)

lemma DAGBigCore_boot_outcome:
  assumes "DAGBigCore_boot cx (NewDAGBigCore i c pr pool db srvc) = Some (core, effs)" "Faults pr \<le> i"
  shows "\<exists>pool' b p. core = (NewDAGBigCore i c pr pool db srvc)\<lparr>da_txpool := pool'\<rparr> \<and>
    effs = [ESend i NONE (ProposeM p), EEnq (ProposeM p)] \<and> pm_Author p = i \<and> pm_View p = 0 \<and> pm_Height p = HEIGHT_1 \<and>
    pm_B p = Some b \<and> pm_DocG p = None \<and> b_Height b = HEIGHT_1 \<and> b_View b = 0"
  using assms NewProposeMsg_fields
  by (fastforce simp: DAGBigCore_boot_def NewDAGBigCore_def DAGBigCore_generatorBlock_def DAGBigCore_propose_def
      Option.bind_eq_Some_conv split: prod.splits)

text \<open>
  C39. The proposals of a DAG node. In every run, whatever the network delivers, the positions
  (view and height) of the node's proposals strictly increase, so it never proposes twice for a
  view and height, and the last is its current position. Every proposal but the first refers to at
  least \<open>HightThreshold\<close> certificates of distinct committee members: those of height 2 of the
  previous view for a height-1 proposal, and those of height 1 of the same view for a
  height-2 proposal.
\<close>

theorem dag_proposals_ordered_and_referenced:
  assumes "DAGBigCore_boot cx (NewDAGBigCore i c pr pool db srvc) = Some (core, effs)" "Faults pr \<le> i"
    and "node_run (dag_machine cx dx c) (\<lambda>_. True) (boot_node core effs) tr nd"
  shows "sorted_wrt (<) (proposal_positions (effs @ tr)) \<and>
    last (proposal_positions (effs @ tr)) = pos (da_view (nd_core nd)) (da_height (nd_core nd)) \<and>
    (\<forall>p \<in> set (sent_proposals tr). well_referenced c p)"
proof -
  from DAGBigCore_boot_outcome[OF assms(1,2)] obtain pool' p where
    core: "core = (NewDAGBigCore i c pr pool db srvc)\<lparr>da_txpool := pool'\<rparr>" and
    effs: "effs = [ESend i NONE (ProposeM p), EEnq (ProposeM p)]" and p: "pm_View p = 0" "pm_Height p = HEIGHT_1" by blast
  have "dag_prop.in_order core effs"
    unfolding dag_prop.in_order_def by (simp add: core NewDAGBigCore_def effs proposal_positions_def p)
  from dag_prop.run_invariant[OF this _ assms(3)] have "dag_prop.in_order (nd_core nd) (effs @ tr)" by simp
  moreover have "dag_refs.node_ok c [] (boot_node core effs)"
    by (simp add: dag_refs.node_ok_def boot_node_def effs dag_refs_ok_def all_placed_def core NewDAGBigCore_def)
  from dag_refs.run_ok[OF assms(3) this] have "\<forall>p \<in> set (sent_proposals tr). well_referenced c p"
    by (simp add: dag_refs.node_ok_def dag_refs_ok_def)
  ultimately show ?thesis unfolding dag_prop.in_order_def by blast
qed

text \<open>
  A committee of one: node 0 votes for its own first block, the certificate is announced, and it
  proposes at height 2.
\<close>

definition sample_solo :: Committee where
  "sample_solo = sample_committee 1"

definition sample_dcore :: "node_id \<Rightarrow> Committee \<Rightarrow> (unit, string \<times> bytes \<Rightarrow> bytes option) DAGBigCore" where
  "sample_dcore i c = NewDAGBigCore i c DefaultParameters sample_pool Map.empty sample_service"

definition sample_dagm :: "Committee \<Rightarrow> ((unit, string \<times> bytes \<Rightarrow> bytes option) DAGBigCore, big_go) machine" where
  "sample_dagm c = dag_machine sample_cx (sample_dx [sample_block 0 0 HEIGHT_1]) c"

abbreviation sample_dag_effs :: "big_go effect list" where
  "sample_dag_effs \<equiv> [ESend 0 NONE (ProposeM (sample_proposal 0 0 HEIGHT_1)), EEnq (ProposeM (sample_proposal 0 0 HEIGHT_1))]"

lemma sample_dag_boot: "DAGBigCore_boot sample_cx (sample_dcore 0 c) = Some (sample_dcore 0 c, sample_dag_effs)"
  using sample_proposal_eq[of 0 0 HEIGHT_1]
  by (simp add: DAGBigCore_boot_def sample_dcore_def NewDAGBigCore_def DAGBigCore_propose_def DAGBigCore_generatorBlock_def sample_block_def)

lemma sample_one [simp]: "HightThreshold sample_solo = 1" "threshold32 sample_solo = 1" "Committee_Size sample_solo = 1"
  by (simp_all add: sample_solo_def HightThreshold_sample threshold32_def)

definition sample_self :: VoteMsg where
  "sample_self = sample_vote 0 0 (Block_Hash sample_cx (sample_block 0 0 HEIGHT_1)) 0 HEIGHT_1"

lemma sample_self_sel [simp]:
  "vm_Author sample_self = 0" "vm_Proposer sample_self = 0" "vm_View sample_self = 0" "vm_Height sample_self = HEIGHT_1"
  "vm_BlockHash sample_self = Block_Hash sample_cx (sample_block 0 0 HEIGHT_1)"
  by (simp_all add: sample_self_def)

lemma sample_one_verify:
  "ProposeMsg_Verify sample_cx sample_solo (sample_proposal 0 0 HEIGHT_1) = Some True"
  "VoteMsg_Verify sample_cx sample_solo sample_self = Some True"
  using sample_committee_key[of 0 1, folded sample_solo_def] New_msg_signed(1)[OF sample_proposal_eq[of 0 0 HEIGHT_1]]
  by (auto intro!: propose_msg.own_signature_verifies vote_msg.own_signature_verifies)
     (simp_all add: sample_self_def sample_vote_def Let_def msg_hash_defs)

text \<open>The first moves: the own proposal is handled and its digest stored.\<close>

lemma sample_dag_ready:
  "\<exists>nd. node_run (sample_dagm sample_solo) (\<lambda>_. True) (boot_node (sample_dcore 0 sample_solo) sample_dag_effs)
     [EGo (0, 0, BPropose (sample_proposal 0 0 HEIGHT_1))] nd \<and> idle nd \<and> nd_callBack nd = [] \<and>
     nd_gos nd = [([], Some (0, 0, BProposeWake (sample_proposal 0 0 HEIGHT_1)))] \<and>
     (\<exists>db. nd_core nd = put_dspb 0 0 ((NewDAGBigSPB 0 0)\<lparr>bs_blockHash := (\<lambda>_. zero_Digest)
          (HEIGHT_1 := Block_Hash sample_cx (sample_block 0 0 HEIGHT_1))\<rparr>)
        (DAGBigCore_getSpbInstance 0 0 ((sample_dcore 0 sample_solo)\<lparr>da_store := db\<rparr>)))"
proof -
  obtain db where db: "storeBlock sample_cx (sample_dx [sample_block 0 0 HEIGHT_1]) Map.empty (sample_block 0 0 HEIGHT_1) = (None, db)"
    by (simp add: storeBlock_def sample_dx_def)
  obtain nd where x: "exec (sample_dagm sample_solo) [Main, Main, Main, Main, Go 0] (boot_node (sample_dcore 0 sample_solo) sample_dag_effs) =
        Some (nd, [EGo (0, 0, BPropose (sample_proposal 0 0 HEIGHT_1))])"
      and nd: "idle nd" "nd_callBack nd = []" "nd_gos nd = [([], Some (0, 0, BProposeWake (sample_proposal 0 0 HEIGHT_1)))]"
        "nd_core nd = put_dspb 0 0 ((NewDAGBigSPB 0 0)\<lparr>bs_blockHash := (\<lambda>_. zero_Digest)
          (HEIGHT_1 := Block_Hash sample_cx (sample_block 0 0 HEIGHT_1))\<rparr>)
        (DAGBigCore_getSpbInstance 0 0 ((sample_dcore 0 sample_solo)\<lparr>da_store := db\<rparr>))"
    using db sample_one_verify(1)
    by (simp add: boot_node_def recv_cap_def send_cap_def sample_dagm_def dag_machine_def DAGBigCore_handleProposeMsg_def
        sample_dcore_def NewDAGBigCore_def verified_def DAGBigCore_section_def DAGBigSPB_propose_start_def Let_def idle_def)
       (simp add: NewDAGBigSPB_def sample_block_def)
  have "node_run (sample_dagm sample_solo) (\<lambda>_. True) (boot_node (sample_dcore 0 sample_solo) sample_dag_effs)
      [EGo (0, 0, BPropose (sample_proposal 0 0 HEIGHT_1))] nd"
    by (rule exec_run[OF x]) (simp_all add: boot_node_def)
  with nd show ?thesis by blast
qed

lemma sample_dag_certified:
  "\<exists>nd tr. node_run (sample_dagm sample_solo) (\<lambda>_. True) (boot_node (sample_dcore 0 sample_solo) sample_dag_effs) tr nd \<and> idle nd \<and>
     nd_callBack nd = [(0, 0)] \<and> sent_proposals tr = [] \<and> da_view (nd_core nd) = 0 \<and> da_height (nd_core nd) = HEIGHT_1 \<and>
     da_committee (nd_core nd) = sample_solo \<and> can_sign (da_sigService (nd_core nd)) \<and>
     bs_blockQcs (dspb_at (nd_core nd) 0 0) HEIGHT_1 \<noteq> None"
proof -
  from sample_dag_ready obtain nd0 db where run: "node_run (sample_dagm sample_solo) (\<lambda>_. True) (boot_node (sample_dcore 0 sample_solo) sample_dag_effs)
     [EGo (0, 0, BPropose (sample_proposal 0 0 HEIGHT_1))] nd0" and idle: "idle nd0" and cb: "nd_callBack nd0 = []"
     and gos: "nd_gos nd0 = [([], Some (0, 0, BProposeWake (sample_proposal 0 0 HEIGHT_1)))]"
     and core: "nd_core nd0 = put_dspb 0 0 ((NewDAGBigSPB 0 0)\<lparr>bs_blockHash := (\<lambda>_. zero_Digest)
          (HEIGHT_1 := Block_Hash sample_cx (sample_block 0 0 HEIGHT_1))\<rparr>)
        (DAGBigCore_getSpbInstance 0 0 ((sample_dcore 0 sample_solo)\<lparr>da_store := db\<rparr>))"
    by blast
  have c: "da_committee (sample_dcore 0 sample_solo) = sample_solo" "da_view (sample_dcore 0 sample_solo) = 0" "da_height (sample_dcore 0 sample_solo) = HEIGHT_1"
      "da_sigService (sample_dcore 0 sample_solo) = sample_service"
    by (simp_all add: sample_dcore_def NewDAGBigCore_def)
  obtain nd where x: "exec (sample_dagm sample_solo) [Deliver (VoteM sample_self), Main, Main, Go 1, Go 1, Go 1, Go 1, Go 1] nd0 =
        Some (nd, [EGo (0, 0, BVote sample_self), ECall 0 0])"
      and nd: "idle nd" "nd_callBack nd = [(0, 0)]" "da_view (nd_core nd) = 0" "da_height (nd_core nd) = HEIGHT_1"
        "da_committee (nd_core nd) = sample_solo" "can_sign (da_sigService (nd_core nd))" "bs_blockQcs (dspb_at (nd_core nd) 0 0) HEIGHT_1 \<noteq> None"
    using idle cb gos core c sample_one_verify(2)
    by (simp add: idle_def recv_cap_def call_cap_def sample_dagm_def dag_machine_def DAGBigCore_handleVoteMsg_def verified_def
        DAGBigCore_section_def BigSPB_vote_start_def BigSPB_vote_count_def BigSPB_vote_qc_def BigSPB_qc_def in_heights_def
        NewDAGBigSPB_def Let_def)
  have "node_run (sample_dagm sample_solo) (\<lambda>_. True) nd0 [EGo (0, 0, BVote sample_self), ECall 0 0] nd"
    by (rule exec_run[OF x]) (use idle in \<open>simp_all add: idle_def\<close>)
  from node_run_trans[OF this run] nd show ?thesis
    by (intro exI[of _ nd] exI[of _ "[EGo (0, 0, BPropose (sample_proposal 0 0 HEIGHT_1))] @ [EGo (0, 0, BVote sample_self), ECall 0 0]"]) simp
qed

theorem dag_proposals_ordered_and_referenced_witness:
  "\<exists>nd tr p. node_run (sample_dagm sample_solo) (\<lambda>_. True) (boot_node (sample_dcore 0 sample_solo) sample_dag_effs) tr nd \<and>
     sent_proposals tr = [p] \<and> pm_Height p = HEIGHT_2 \<and> well_referenced sample_solo p"
proof -
  from sample_dag_certified obtain nd tr where run: "node_run (sample_dagm sample_solo) (\<lambda>_. True) (boot_node (sample_dcore 0 sample_solo) sample_dag_effs) tr nd"
     and nd: "idle nd" "nd_callBack nd = [(0, 0)]" "sent_proposals tr = []" "da_view (nd_core nd) = 0" "da_height (nd_core nd) = HEIGHT_1"
     "da_committee (nd_core nd) = sample_solo" "can_sign (da_sigService (nd_core nd))" "bs_blockQcs (dspb_at (nd_core nd) 0 0) HEIGHT_1 \<noteq> None"
    by blast
  let ?core = "nd_core nd"
  obtain refs core1 where l: "getReference 0 HEIGHT_1 ?core = (refs, core1)" by (cases "getReference 0 HEIGHT_1 ?core")
  have refs: "length refs = 1" "da_same ?core core1"
    using reference_loop_eq[OF l[unfolded getReference_def]] nd(6,8)
    by (auto simp: List.map_filter_simps DAGBigSPB_GetBlockQC_def)
  then have "can_sign (da_sigService core1)" using nd(7) by (simp add: da_same_def)
  then obtain core' effs where adv: "DAGBigCore_advanceView sample_cx ?core 0 HEIGHT_2 = Some (core', effs)"
    using l nd(4-6) refs(1)
    by (cases "DAGBigCore_advanceView sample_cx ?core 0 HEIGHT_2")
       (auto simp: DAGBigCore_advanceView_def DAGBigCore_generatorBlock_def DAGBigCore_propose_def Let_def
         Option.bind_eq_None_conv split: prod.splits)
  have "effs \<noteq> []" using adv l nd(4-6) refs(1)
    by (auto simp: DAGBigCore_advanceView_def DAGBigCore_generatorBlock_def DAGBigCore_propose_def Let_def
         Option.bind_eq_Some_conv split: prod.splits)
  with DAGBigCore_advanceView_outcome[OF adv] obtain p where p: "sent_proposals effs = [p]" "pm_Height p = HEIGHT_2"
    by (auto simp: dag_advance_def)
  have "node_step (sample_dagm sample_solo) (\<lambda>_. True) nd effs (nd\<lparr>nd_core := core', nd_main := effs, nd_callBack := []\<rparr>)"
    by (rule node_step.main_call[where err = None and v = 0 and i = 0])
       (use nd(1,2) in \<open>simp_all add: idle_def sample_dagm_def dag_machine_def adv\<close>)
  from node_run.more[OF run this] have run': "node_run (sample_dagm sample_solo) (\<lambda>_. True) (boot_node (sample_dcore 0 sample_solo) sample_dag_effs)
      (tr @ effs) (nd\<lparr>nd_core := core', nd_main := effs, nd_callBack := []\<rparr>)" .
  have "\<forall>p \<in> set (sent_proposals (tr @ effs)). well_referenced sample_solo p"
    using dag_proposals_ordered_and_referenced[OF sample_dag_boot[unfolded sample_dcore_def] _ run'[unfolded sample_dagm_def sample_dcore_def]]
    by simp
  with run' p nd(3) show ?thesis by (intro exI[of _ "nd\<lparr>nd_core := core', nd_main := effs, nd_callBack := []\<rparr>"] exI[of _ "tr @ effs"] exI[of _ p]) simp
qed

end
