(* ===== verification/DAG_Panics.thy ===== *)
theory DAG_Panics
  imports DAG_Safety
begin

text \<open>
  A node of the DAG protocol does not panic as long as the network delivers well-formed messages.
\<close>

section \<open>The invariant\<close>

text \<open>Unlike \<open>propose_wf\<close>, a height-2 proposal needs no certificate.\<close>

definition dag_propose_wf :: "Committee \<Rightarrow> ProposeMsg \<Rightarrow> bool" where
  "dag_propose_wf c p \<longleftrightarrow> has_key c (pm_Author p) \<and> votable p \<and>
     (case pm_DocG p of None \<Rightarrow> True | Some d \<Rightarrow> (\<forall>r \<in> set (dg_Shares d). has_key c (rm_Author r)))"

abbreviation dag_msg_wf :: "Committee \<Rightarrow> msg \<Rightarrow> bool" where
  "dag_msg_wf c \<equiv> msg_ok (dag_propose_wf c) c"

definition dag_ok :: "'k crypto_ext \<Rightarrow> Committee \<Rightarrow> node_id \<Rightarrow> 'k SigService \<Rightarrow> ('k, 'db) DAGBigCore \<Rightarrow> bool" where
  "dag_ok cx c i srvc core \<longleftrightarrow>
     setup_ok cx c i srvc \<and> da_nodeID core = i \<and> da_committee core = c \<and> da_sigService core = srvc \<and>
     el_committee (da_eletor core) = c \<and> (\<forall>v n. bspb_ok (dag_propose_wf c) (dspb_at core v n))"

abbreviation dag_go_ok :: "Committee \<Rightarrow> big_go \<Rightarrow> bool" where
  "dag_go_ok c g \<equiv> big_task_ok (dag_propose_wf c) (snd (snd g))"

abbreviation dag_effects_ok :: "Committee \<Rightarrow> big_go effect list \<Rightarrow> bool" where
  "dag_effects_ok c \<equiv> list_all (effect_ok (dag_msg_wf c) (dag_go_ok c) (\<lambda>_ _. True))"

lemma dag_ok_same: "dag_ok cx c i srvc core \<Longrightarrow> da_same core core' \<Longrightarrow> dag_ok cx c i srvc core'"
  by (simp add: dag_ok_def da_same_def)

lemma dag_verify_defined:
  assumes "dag_propose_wf c p"
  shows "\<exists>ok. ProposeMsg_Verify cx c p = Some ok"
    "\<exists>ok. (case pm_DocG p of None \<Rightarrow> Some True | Some d \<Rightarrow> DocGQCMsg_Verify cx c d) = Some ok"
  using assms docg_verify_defined[of "the (pm_DocG p)" c cx]
  by (auto simp: dag_propose_wf_def votable_def has_key_def ProposeMsg_Verify_def ProposeMsg_Hash_def Signature_Verify_def
      split: option.splits)

section \<open>Handlers\<close>

lemma dag_advance_effects_ok:
  assumes "dag_advance core effs core'" "dag_ok cx c i srvc core" "da_height core \<in> {HEIGHT_1, HEIGHT_2}"
  shows "dag_effects_ok c effs"
  using assms by (auto simp: dag_advance_def dag_ok_def setup_ok_def dag_propose_wf_def votable_def in_heights_def)

lemma DAGBigCore_advanceView_defined:
  assumes "dag_ok cx c i srvc core"
  shows "\<exists>core' effs. DAGBigCore_advanceView cx core view h = Some (core', effs)"
proof -
  let ?r = "if h = HEIGHT_1 then getReference (view - 1) HEIGHT_2 core
      else if h = HEIGHT_2 then getReference view HEIGHT_1 core else ([], core)"
  obtain refs core1 where r: "?r = (refs, core1)" by (cases ?r)
  have "da_same core core1" using r by (auto simp: getReference_def dest!: reference_loop_eq split: if_splits)
  then have "can_sign (da_sigService core1)" using assms by (simp add: da_same_def dag_ok_def setup_ok_def)
  with r show ?thesis
    by (cases "DAGBigCore_advanceView cx core view h")
       (auto simp: DAGBigCore_advanceView_def DAGBigCore_generatorBlock_def DAGBigCore_propose_def Let_def
         Option.bind_eq_None_conv split: prod.splits if_splits)
qed

lemma DAGBigCore_processCoin_defined:
  assumes "dag_ok cx c i srvc core"
  shows "\<exists>core' effs err. DAGBigCore_processCoin cx dx core leader view = Some (core', effs, err)"
proof (cases "DAGBigCore_coin_commit dx (DAGBigCore_getSpbInstance view leader core) (dspb_at core view leader) leader view")
  case (Inl e)
  then show ?thesis by (simp add: DAGBigCore_processCoin_def Let_def)
next
  case (Inr r)
  obtain core2 ceffs where r: "r = (core2, ceffs)" by (cases r)
  obtain cm where "core2 = (DAGBigCore_getSpbInstance view leader core)\<lparr>da_commitor := cm\<rparr>"
    using DAGBigCore_coin_commit_outcome[OF Inr[unfolded r]] by blast
  then have "da_same core core2" by simp
  from DAGBigCore_advanceView_defined[OF dag_ok_same[OF assms this], of "wrap64 (view + 1)" HEIGHT_1] Inr r show ?thesis
    by (auto simp: DAGBigCore_processCoin_def Let_def)
qed

lemma DAGBigCore_handle_defined:
  assumes "dag_ok cx c i srvc core" "input_ok (dag_msg_wf c) (\<lambda>_ _. True) inp"
  shows "\<exists>core' effs err. DAGBigCore_handle cx dx core inp = Some (core', effs, err)"
proof (cases inp)
  case (InCall v n)
  then show ?thesis using DAGBigCore_advanceView_defined[OF assms(1), of v HEIGHT_2] by auto
next
  case (InMsg m)
  with assms(2) have wf: "dag_msg_wf c m" by simp
  have st: "da_committee core = c" "da_nodeID core = i" "da_sigService core = srvc" "setup_ok cx c i srvc"
      "el_committee (da_eletor core) = c"
    using assms(1) by (simp_all add: dag_ok_def)
  show ?thesis
  proof (cases m)
    case (ProposeM p)
    with wf have p: "dag_propose_wf c p" by simp
    then obtain b where b: "pm_B p = Some b" by (auto simp: dag_propose_wf_def votable_def split: option.splits)
    obtain ok ok' where "ProposeMsg_Verify cx c p = Some ok"
        "(case pm_DocG p of None \<Rightarrow> Some True | Some d \<Rightarrow> DocGQCMsg_Verify cx c d) = Some ok'"
      using dag_verify_defined[OF p, of cx] by blast
    then show ?thesis using ProposeM InMsg st(1) b
      by (cases "storeBlock cx dx (da_store core) b")
         (auto simp: DAGBigCore_handleProposeMsg_def verified_Some Let_def split: option.split)
  next
    case (VoteM v)
    obtain ok where "VoteMsg_Verify cx c v = Some ok" using verify_defined(1)[of c v cx] wf VoteM by auto
    then show ?thesis using VoteM InMsg st(1) by (simp add: DAGBigCore_handleVoteMsg_def verified_Some)
  next
    case (SpeedVoteM sv)
    obtain ok where ok: "SpeedVoteMsg_Verify cx c sv = Some ok" using verify_defined(3)[of c sv cx] wf SpeedVoteM by auto
    obtain m where "elect_effects cx srvc i (sv_View sv) = Some [ESend i NONE (ElectM (Some m)), EEnq (ElectM (Some m)) :: big_go effect]"
      using setup_elect_effects[of cx c i srvc "sv_View sv"] st(4) by auto
    then show ?thesis using SpeedVoteM InMsg st ok by (auto simp: DAGBigCore_handleSpeedVoteMsg_def verified_Some Let_def)
  next
    case (ElectM oe)
    with wf obtain e where e: "oe = Some e" by auto
    obtain el res where add: "Elector_Add cx (da_eletor core) e = Some (el, res)"
      using setup_Elector_Add[OF st(4,5), of e] by auto
    have "dag_ok cx c i srvc (core\<lparr>da_eletor := el\<rparr>)"
      using assms(1) Elector_Add_committee[OF add] by (simp add: dag_ok_def)
    from DAGBigCore_processCoin_defined[OF this] add ElectM InMsg e show ?thesis
      by (cases res) (auto simp: DAGBigCore_handleElectMsg_def Let_def)
  next
    case (ReportM r)
    obtain ok where ok: "ReportMsg_Verify cx c r = Some ok" using verify_defined(5)[of c r cx] wf ReportM by auto
    have "dag_ok cx c i srvc (core\<lparr>da_reportNums := nums\<rparr>)" for nums using dag_ok_same[OF assms(1)] by simp
    from DAGBigCore_advanceView_defined[OF this, of "(da_reportNums core)(rm_View r := (da_reportNums core (rm_View r))
        (rm_Level r := da_reportNums core (rm_View r) (rm_Level r) + 1))" "wrap64 (rm_View r + 1)" HEIGHT_1]
    show ?thesis using ok ReportM InMsg st(1) wf by (auto simp: DAGBigCore_handleReportMsg_def verified_Some Let_def)
  qed (use InMsg in simp_all)
qed

text \<open>The messages a handler enqueues and the goroutines it starts are well-formed.\<close>

lemma dag_step_effects_ok:
  assumes "dag_ok cx c i srvc core" "input_ok (dag_msg_wf c) (\<lambda>_ _. True) inp" "dag_step cx core inp effs core'"
  shows "dag_effects_ok c effs"
proof -
  have st: "da_nodeID core = i" "da_sigService core = srvc" "setup_ok cx c i srvc" using assms(1) by (simp_all add: dag_ok_def)
  have adv: "dag_effects_ok c post" if "dag_advance core post core'" for post
    using that assms(1)
    by (auto simp: dag_advance_def dag_ok_def setup_ok_def dag_propose_wf_def votable_def in_heights_def)
  show ?thesis using assms(3) unfolding dag_step_def
  proof (elim conjE disjE exE)
    assume q: "dag_quiet cx core inp effs core'"
    have "\<forall>g \<in> set (dag_spawn inp). dag_go_ok c g"
      using assms(2) by (cases inp rule: dag_spawn.cases) auto
    then have "\<forall>g \<in># spawned effs. dag_go_ok c g" using q by (auto simp: dag_quiet_def)
    moreover have "dag_msg_wf c m" if "EEnq m \<in> set effs" for m
    proof -
      from that q obtain sv :: SpeedVoteMsg and r where r: "NewElectMsg cx srvc i (sv_View sv) = Some r" "m = elect_msg r"
        unfolding dag_quiet_def st by blast
      with setup_NewElectMsg[OF st(3), of "sv_View sv"] show ?thesis by (auto simp: elect_msg_def)
    qed
    moreover have "sends_enqueued effs" using q by (simp add: dag_quiet_def)
    ultimately show ?thesis by (simp add: effects_ok_enqueued)
  qed (use adv in auto)
qed

section \<open>Sections\<close>

lemma dag_votable: "dag_propose_wf c p \<Longrightarrow> votable p"
  by (simp add: dag_propose_wf_def)

lemma DAGBigSPB_section_ok:
  assumes "bspb_ok (dag_propose_wf c) s" "big_task_ok (dag_propose_wf c) t" "can_sign srvc" "has_key c i"
  shows "\<exists>s' effs nx. DAGBigSPB_section cx c i srvc s t = Some (s', effs, nx) \<and> bspb_ok (dag_propose_wf c) s' \<and>
    inst_effects_ok (dag_propose_wf c) c effs \<and> pred_option (big_task_ok (dag_propose_wf c)) nx"
proof -
  consider (propose) p where "t = BPropose p" | (callback) v where "t = BVoteAct v" "vm_Height v = HEIGHT_1"
    | (same) "\<And>p. t \<noteq> BPropose p" "DAGBigSPB_section cx c i srvc s t = BigSPB_section cx c i srvc s t"
  proof (cases t)
    case (BVoteAct v)
    then show ?thesis using callback same by (cases "vm_Height v = HEIGHT_1") simp_all
  qed (use propose same in auto)
  then show ?thesis
  proof cases
    case propose
    then obtain b where "pm_B p = Some b" "dag_propose_wf c p"
      using assms(2) by (auto simp: dag_propose_wf_def votable_def split: option.splits)
    then show ?thesis using assms(1) propose by (auto simp: DAGBigSPB_propose_start_def bspb_ok_def)
  next
    case callback
    then show ?thesis using assms(1) by simp
  next
    case same
    then show ?thesis using BigSPB_section_ok[OF assms(1-4) dag_votable] by simp
  qed
qed

lemma DAGBigCore_section_ok:
  assumes "dag_ok cx c i srvc core" "dag_go_ok c g"
  shows "\<exists>core' effs g'. DAGBigCore_section cx core g = Some (core', effs, g') \<and>
    dag_ok cx c i srvc core' \<and> dag_effects_ok c effs \<and> pred_option (dag_go_ok c) g'"
proof -
  obtain view node t where g: "g = (view, node, t)" by (cases g) auto
  have st: "da_committee core = c" "da_nodeID core = i" "da_sigService core = srvc" "can_sign srvc" "has_key c i"
    and s: "bspb_ok (dag_propose_wf c) (dspb_at core view node)" using assms(1) by (simp_all add: dag_ok_def setup_ok_def)
  from DAGBigSPB_section_ok[OF s _ st(4,5), of t cx] assms(2) g obtain s' effs nx where
    x: "DAGBigSPB_section cx c i srvc (dspb_at core view node) t = Some (s', effs, nx)" "bspb_ok (dag_propose_wf c) s'"
      "inst_effects_ok (dag_propose_wf c) c effs" "pred_option (big_task_ok (dag_propose_wf c)) nx" by auto
  have "DAGBigCore_section cx core g = Some (put_dspb view node s' core, map (map_effect (\<lambda>t. (view, node, t))) effs,
      map_option (\<lambda>t. (view, node, t)) nx)"
    using x(1) st g by (simp add: DAGBigCore_section_def)
  moreover have "dag_ok cx c i srvc (put_dspb view node s' core)" using assms(1) x(2) by (simp add: dag_ok_def)
  ultimately show ?thesis using x(3,4) by (simp add: list.pred_map comp_def option.pred_map)
qed

interpretation dag_safe: node_safe "dag_machine cx dx c" "dag_msg_wf c" "\<lambda>core tr. dag_ok cx c i srvc core"
    "dag_msg_wf c" "dag_go_ok c" "\<lambda>_ _. True"
  for cx :: "'k crypto_ext" and dx :: "'db store_ext" and c i srvc
proof
  fix core :: "('k, 'db) DAGBigCore" and inp core' effs err
  assume ok: "dag_ok cx c i srvc core" "input_ok (dag_msg_wf c) (\<lambda>_ _. True) inp"
    and "mc_handle (dag_machine cx dx c) core inp = Some (core', effs, err)"
  then have step: "dag_step cx core inp effs core'"
    using DAGBigCore_handle_step[of cx dx core inp core' effs err] by (simp add: dag_machine_def)
  then have "da_same core core'" by (simp add: dag_step_def)
  with dag_ok_same[OF ok(1)] dag_step_effects_ok[OF ok step] show "dag_ok cx c i srvc core' \<and> dag_effects_ok c effs" by blast
next
  fix core :: "('k, 'db) DAGBigCore" and g core' effs g'
  assume "dag_ok cx c i srvc core" "dag_go_ok c g"
    and "mc_section (dag_machine cx dx c) core g = Some (core', effs, g')"
  then show "dag_ok cx c i srvc core' \<and> dag_effects_ok c effs \<and> pred_option (dag_go_ok c) g'"
    using DAGBigCore_section_ok[of cx c i srvc core g] by (auto simp: dag_machine_def)
next
  fix core :: "('k, 'db) DAGBigCore" and inp
  assume "dag_ok cx c i srvc core" "input_ok (dag_msg_wf c) (\<lambda>_ _. True) inp"
  then show "mc_handle (dag_machine cx dx c) core inp \<noteq> None"
    using DAGBigCore_handle_defined[of cx c i srvc core inp dx] by (auto simp: dag_machine_def)
next
  fix core :: "('k, 'db) DAGBigCore" and g
  assume "dag_ok cx c i srvc core" "dag_go_ok c g"
  then show "mc_section (dag_machine cx dx c) core g \<noteq> None"
    using DAGBigCore_section_ok[of cx c i srvc core g] by (auto simp: dag_machine_def)
qed (auto simp: dag_machine_def DAGBigCore_background_def dag_ok_def msg_ok_consensus)

lemma DAGBigCore_boot_ok:
  assumes "setup_ok cx c i srvc" "DAGBigCore_boot cx (NewDAGBigCore i c pr pool db srvc) = Some (core, effs)"
  shows "dag_ok cx c i srvc core \<and> dag_effects_ok c effs"
proof (cases "Faults pr \<le> i")
  case False
  then have "core = NewDAGBigCore i c pr pool db srvc" "effs = [EReturn]"
    using assms(2) by (simp_all add: DAGBigCore_boot_def NewDAGBigCore_def)
  moreover from this(1) assms(1) have "dag_ok cx c i srvc core"
    by (simp add: dag_ok_def NewDAGBigCore_def NewElector_def) (simp add: bspb_ok_def NewDAGBigSPB_def)
  ultimately show ?thesis by simp
next
  case True
  from DAGBigCore_boot_outcome[OF assms(2) this] obtain pool' b p where
    core: "core = (NewDAGBigCore i c pr pool db srvc)\<lparr>da_txpool := pool'\<rparr>"
    and effs: "effs = [ESend i NONE (ProposeM p), EEnq (ProposeM p)]"
    and p: "pm_Author p = i" "pm_B p = Some b" "pm_DocG p = None" "b_Height b = HEIGHT_1" by blast
  have "dag_ok cx c i srvc core" using assms(1)
    by (simp add: dag_ok_def core NewDAGBigCore_def NewElector_def) (simp add: bspb_ok_def NewDAGBigSPB_def)
  moreover have "dag_effects_ok c effs"
    using assms(1) p by (simp add: effs dag_propose_wf_def votable_def in_heights_def setup_ok_def)
  ultimately show ?thesis by blast
qed

text \<open>
  A node of the DAG protocol whose own keys are in order never panics, however the goroutines
  and the callback channel interleave, as long as the network delivers well-formed messages
  only; a height-2 proposal needs no certificate here.
\<close>

theorem dag_never_panics:
  assumes "setup_ok cx c i srvc" "DAGBigCore_boot cx (NewDAGBigCore i c pr pool db srvc) = Some (core, effs)"
    and "node_run (dag_machine cx dx c) (dag_msg_wf c) (boot_node core effs) tr nd"
  shows "nd_alive nd"
  using dag_safe.run_alive[OF assms(3), of i srvc] DAGBigCore_boot_ok[OF assms(1,2)] by simp

text \<open>Node 0 of a committee of four receives a report of level 2.\<close>

theorem dag_never_panics_witness:
  "\<exists>tr nd. node_run (sample_dagm (sample_committee 4)) (dag_msg_wf (sample_committee 4))
     (boot_node (sample_dcore 0 (sample_committee 4)) sample_dag_effs) tr nd \<and>
     nd_recvCh nd = [ProposeM (sample_proposal 0 0 HEIGHT_1)] \<and> nd_alive nd"
proof -
  let ?b = "boot_node (sample_dcore 0 (sample_committee 4)) sample_dag_effs"
  have core: "da_committee (sample_dcore 0 (sample_committee 4)) = sample_committee 4" "da_view (sample_dcore 0 (sample_committee 4)) = 0"
      "da_height (sample_dcore 0 (sample_committee 4)) = HEIGHT_1" "da_reportNums (sample_dcore 0 (sample_committee 4)) = (\<lambda>_ _. 0)"
    by (simp_all add: sample_dcore_def NewDAGBigCore_def)
  have "dag_ok sample_cx (sample_committee 4) 0 sample_service (sample_dcore 0 (sample_committee 4))"
    by (simp add: dag_ok_def) (simp add: sample_dcore_def NewDAGBigCore_def NewElector_def bspb_ok_def NewDAGBigSPB_def)
  then have "\<exists>core' effs err. DAGBigCore_handle sample_cx (sample_dx [sample_block 0 0 HEIGHT_1]) (sample_dcore 0 (sample_committee 4))
      (InMsg (ReportM (sample_report 2 0 LEVEL_2))) = Some (core', effs, err)"
    by (rule DAGBigCore_handle_defined) simp
  then obtain core' effs err where h: "DAGBigCore_handleReportMsg sample_cx (sample_dcore 0 (sample_committee 4)) (sample_report 2 0 LEVEL_2) = Some (core', effs, err)"
    by auto
  obtain nd where x: "exec (sample_dagm (sample_committee 4)) [Deliver (ReportM (sample_report 2 0 LEVEL_2)), Main, Main, Main] ?b = Some (nd, effs)"
      and nd: "nd_recvCh nd = [ProposeM (sample_proposal 0 0 HEIGHT_1)]"
    using h by (simp add: boot_node_def recv_cap_def send_cap_def sample_dagm_def dag_machine_def)
  have run: "node_run (sample_dagm (sample_committee 4)) (dag_msg_wf (sample_committee 4)) ?b effs nd"
    by (rule exec_run[OF x]) (simp_all add: boot_node_def)
  have "nd_alive nd"
    using dag_never_panics[OF sample_setup sample_dag_boot[unfolded sample_dcore_def] run[unfolded sample_dagm_def sample_dcore_def]]
    by simp
  with run nd show ?thesis by (intro exI conjI)
qed

end
