(* ===== verification/DAG_Stall.thy ===== *)
theory DAG_Stall
  imports DAG_Panics
begin

text \<open>
  When a node of the DAG protocol stops for good. Nothing sends reports in this protocol, so a
  node leaves a view only when the share that completes the quorum of that view's election arrives.
  If it does not hold enough height-2 certificates of the view at that moment, no later message
  but a report of the view, which a faulty member may send, makes it advance.
\<close>

section \<open>What makes a node leave its view\<close>

lemma DAGBigCore_advanceView_same_view:
  assumes "DAGBigCore_advanceView cx core view h = Some (core', effs)" "da_view core' \<noteq> da_view core"
  shows "view = da_view core + 1 \<and> h = HEIGHT_1"
  using DAGBigCore_advanceView_outcome[OF assms(1)] assms(2) by (auto simp: dag_advance_def)

lemma DAGBigCore_processCoin_outcome:
  assumes "DAGBigCore_processCoin cx dx core leader view = Some (core', effs, err)"
  shows "da_eletor core' = da_eletor core \<and> (da_view core' \<noteq> da_view core \<longrightarrow> wrap64 (view + 1) = da_view core + 1)"
proof (cases "DAGBigCore_coin_commit dx (DAGBigCore_getSpbInstance view leader core) (dspb_at core view leader) leader view")
  case (Inl e)
  then show ?thesis using assms by (auto simp: DAGBigCore_processCoin_def Let_def)
next
  case (Inr r)
  obtain core2 ceffs where r: "r = (core2, ceffs)" by (cases r)
  obtain cm where core2: "core2 = (DAGBigCore_getSpbInstance view leader core)\<lparr>da_commitor := cm\<rparr>"
    using DAGBigCore_coin_commit_outcome[OF Inr[unfolded r]] by blast
  from assms Inr r obtain effs' where adv: "DAGBigCore_advanceView cx core2 (wrap64 (view + 1)) HEIGHT_1 = Some (core', effs')"
    by (auto simp: DAGBigCore_processCoin_def Let_def Option.bind_eq_Some_conv)
  show ?thesis using DAGBigCore_advanceView_outcome[OF adv] DAGBigCore_advanceView_same_view[OF adv] by (auto simp: core2)
qed

lemma DAGBigCore_handleElectMsg_view:
  assumes "DAGBigCore_handleElectMsg cx dx core oe = Some (core', effs, err)"
  shows "\<exists>e res. oe = Some e \<and> Elector_Add cx (da_eletor core) e = Some (da_eletor core', res) \<and>
       (da_view core' \<noteq> da_view core \<longrightarrow> (\<exists>l. res = Inr l \<and> l \<noteq> NONE) \<and> wrap64 (em_View e + 1) = da_view core + 1)"
proof -
  from assms obtain e el res where e: "oe = Some e" and add: "Elector_Add cx (da_eletor core) e = Some (el, res)"
    by (cases oe)
       (auto simp: DAGBigCore_handleElectMsg_def ElectMsg_Verify_def SignatureShare_Verify_def Option.bind_eq_Some_conv)
  show ?thesis
  proof (cases "\<exists>l. res = Inr l \<and> l \<noteq> NONE")
    case coin: True
    then obtain l where l: "res = Inr l" "l \<noteq> NONE" by blast
    with assms e add have "DAGBigCore_processCoin cx dx (core\<lparr>da_eletor := el\<rparr>) l (em_View e) = Some (core', effs, err)"
      by (simp add: DAGBigCore_handleElectMsg_def ElectMsg_Verify_def SignatureShare_Verify_def Let_def)
    from DAGBigCore_processCoin_outcome[OF this] add e l show ?thesis by auto
  next
    case False
    then have "core' = core\<lparr>da_eletor := el\<rparr>" using assms e add
      by (cases res) (auto simp: DAGBigCore_handleElectMsg_def ElectMsg_Verify_def SignatureShare_Verify_def Let_def)
    then show ?thesis using add e by simp
  qed
qed

lemma DAGBigCore_handleReportMsg_view:
  assumes "DAGBigCore_handleReportMsg cx core r = Some (core', effs, err)"
  shows "da_eletor core' = da_eletor core \<and>
    (da_view core' \<noteq> da_view core \<longrightarrow> wrap64 (rm_View r + 1) = da_view core + 1)"
proof -
  have "da_eletor core' = da_eletor core1 \<and> (da_view core' \<noteq> da_view core1 \<longrightarrow> wrap64 (rm_View r + 1) = da_view core1 + 1)"
    if "DAGBigCore_advanceView cx core1 (wrap64 (rm_View r + 1)) HEIGHT_1 = Some (core', effs)" for core1
    using DAGBigCore_advanceView_outcome[OF that] DAGBigCore_advanceView_same_view[OF that] by auto
  then show ?thesis using assms unfolding DAGBigCore_handleReportMsg_def
    by (elim verifiedE) (auto simp: Let_def Option.bind_eq_Some_conv split: if_splits, (fastforce)+)
qed

text \<open>Only an election message or a report of its view makes the node leave that view.\<close>

lemma DAGBigCore_handle_view:
  assumes "DAGBigCore_handle cx dx core inp = Some (core', effs, err)"
  shows "da_eletor core' = da_eletor core \<and> da_view core' = da_view core \<or>
    (\<exists>r. inp = InMsg (ReportM r) \<and> da_eletor core' = da_eletor core \<and>
       (da_view core' \<noteq> da_view core \<longrightarrow> wrap64 (rm_View r + 1) = da_view core + 1)) \<or>
    (\<exists>e res. inp = InMsg (ElectM (Some e)) \<and> Elector_Add cx (da_eletor core) e = Some (da_eletor core', res) \<and>
       (da_view core' \<noteq> da_view core \<longrightarrow> (\<exists>l. res = Inr l \<and> l \<noteq> NONE) \<and> wrap64 (em_View e + 1) = da_view core + 1))"
proof (cases inp)
  case (InCall v n)
  with assms(1) have adv: "DAGBigCore_advanceView cx core v HEIGHT_2 = Some (core', effs)" by (auto simp: Option.bind_eq_Some_conv)
  show ?thesis using DAGBigCore_advanceView_outcome[OF adv] DAGBigCore_advanceView_same_view[OF adv] by auto
next
  case (InMsg m)
  show ?thesis
  proof (cases m)
    case (ProposeM p)
    then have "DAGBigCore_handleProposeMsg cx dx core p = Some (core', effs, err)" using assms(1) InMsg by simp
    then show ?thesis
    proof (cases "pm_B p")
      case (Some b)
      obtain w where "fold (\<lambda>qc. addWeakVotes (qc_View qc) (qc_Proposer qc)) (b_References b) (core\<lparr>da_store := db\<rparr>) =
          (core\<lparr>da_store := db\<rparr>)\<lparr>da_weakVotes := w db\<rparr>" for db
        using weakVotes_fold[of "b_References b" "core\<lparr>da_store := _\<rparr>"] by metis
      then show ?thesis using \<open>DAGBigCore_handleProposeMsg cx dx core p = Some (core', effs, err)\<close> Some
        unfolding DAGBigCore_handleProposeMsg_def by (elim verifiedE) (auto simp: Let_def split: option.splits prod.splits if_splits)
    qed (auto simp: DAGBigCore_handleProposeMsg_def elim!: verifiedE)
  next
    case (VoteM v)
    then show ?thesis using assms(1) InMsg by (auto simp: DAGBigCore_handleVoteMsg_def elim!: verifiedE)
  next
    case (SpeedVoteM sv)
    then show ?thesis using assms(1) InMsg
      by (auto simp: DAGBigCore_handleSpeedVoteMsg_def Let_def Option.bind_eq_Some_conv elim!: verifiedE)
  next
    case (ElectM oe)
    then show ?thesis using assms(1) InMsg DAGBigCore_handleElectMsg_view[of cx dx core oe core' effs err] by simp
  next
    case (ReportM r)
    then show ?thesis using assms(1) InMsg DAGBigCore_handleReportMsg_view[of cx core r core' effs err] by simp
  qed (use assms InMsg in simp_all)
qed

section \<open>A spent election\<close>

text \<open>A quorum of shares has been collected for the view.\<close>

definition election_spent :: "'k Elector \<Rightarrow> int \<Rightarrow> bool" where
  "election_spent el v \<longleftrightarrow> HightThreshold (el_committee el) \<le> int (length (ag_elects (aggregator_of el v)))"

lemma Elector_Add_spent:
  assumes "Elector_Add cx el e = Some (el', res)" "election_spent el v"
  shows "election_spent el' v \<and> (em_View e = v \<longrightarrow> (\<nexists>l. res = Inr l \<and> l \<noteq> NONE))"
  using assms(1)
proof (rule Elector_AddE)
  fix a
  assume a: "Aggregator_Append cx (el_committee el) (el_sigService el) (aggregator_of el (em_View e)) e = Some (a, res)"
    and el': "aggregator_of el' = (aggregator_of el)(em_View e := a)" "el_committee el' = el_committee el"
  have "a = pushed (aggregator_of el (em_View e)) e \<or> a = aggregator_of el (em_View e)"
    using Append_fresh[OF a] Append_duplicate[of e "aggregator_of el (em_View e)" cx "el_committee el" "el_sigService el"] a by auto
  then have "election_spent el' v" using assms(2) el' by (auto simp: election_spent_def)
  moreover have "em_View e \<noteq> v" if "res = Inr l" "l \<noteq> NONE" for l
    using Append_leader[OF a[unfolded that(1)] that(2)] assms(2) by (auto simp: election_spent_def)
  ultimately show ?thesis by blast
qed

section \<open>View numbers\<close>

text \<open>
  The view numbers of messages, tasks and buffered proposals are 64-bit integers, as their Go types
  say.
\<close>

fun in_range_msg :: "msg \<Rightarrow> bool" where
  "in_range_msg (ProposeM p) \<longleftrightarrow> in_int64 (pm_View p) \<and> pred_option (\<lambda>b. in_int64 (b_View b)) (pm_B p)"
| "in_range_msg (VoteM v) \<longleftrightarrow> in_int64 (vm_View v)"
| "in_range_msg (FinVoteM f) \<longleftrightarrow> in_int64 (fv_View f)"
| "in_range_msg (SpeedVoteM sv) \<longleftrightarrow> in_int64 (sv_View sv)"
| "in_range_msg (ElectM oe) \<longleftrightarrow> pred_option (\<lambda>e. in_int64 (em_View e)) oe"
| "in_range_msg (RandomCoinM m) \<longleftrightarrow> in_int64 (rc_View m)"
| "in_range_msg (ReportM r) \<longleftrightarrow> in_int64 (rm_View r)"
| "in_range_msg (DocGQCM d) \<longleftrightarrow> in_int64 (dg_View d)"

text \<open>
  Reports are a matter of their own: a report of its view makes a node advance. \<open>stall_msg v\<close> leaves
  out the reports of view \<open>v\<close>, \<open>quiet_msg\<close>, which holds of all that a node sends, every report.
\<close>

fun report_of :: "int \<Rightarrow> msg \<Rightarrow> bool" where
  "report_of v (ReportM r) \<longleftrightarrow> rm_View r = v"
| "report_of v _ = False"

abbreviation stall_msg :: "int \<Rightarrow> msg \<Rightarrow> bool" where
  "stall_msg v m \<equiv> in_range_msg m \<and> \<not> report_of v m"

fun is_report :: "msg \<Rightarrow> bool" where
  "is_report (ReportM r) = True"
| "is_report _ = False"

abbreviation quiet_msg :: "msg \<Rightarrow> bool" where
  "quiet_msg m \<equiv> in_range_msg m \<and> \<not> is_report m"

lemma quiet_effects:
  assumes "list_all (effect_ok quiet_msg G K) effs"
  shows "sent_reports effs = []" "list_all (effect_ok (stall_msg v) G K) effs"
proof -
  show "sent_reports effs = []" using assms by (induction effs rule: sent_reports.induct) auto
  have "\<not> report_of v m" if "\<not> is_report m" for m using that by (cases m) auto
  then have "effect_ok (stall_msg v) G K e" if "effect_ok quiet_msg G K e" for e using that by (cases e) auto
  then show "list_all (effect_ok (stall_msg v) G K) effs" using assms by (simp add: list_all_iff)
qed

definition in_range_block :: "ProposeMsg \<Rightarrow> bool" where
  "in_range_block p \<longleftrightarrow> pred_option (\<lambda>b. in_int64 (b_View b)) (pm_B p)"

fun in_range_task :: "big_task \<Rightarrow> bool" where
  "in_range_task (BPropose p) = in_range_block p"
| "in_range_task (BProposeWake p) = in_range_block p"
| "in_range_task (BProposeVote p) = in_range_block p"
| "in_range_task _ = True"

definition in_range_inst :: "int \<Rightarrow> DAGBigSPB \<Rightarrow> bool" where
  "in_range_inst v s \<longleftrightarrow> bs_View s = v \<and> (\<forall>p \<in> set (bs_unHandlePropose s). in_range_block p)"

abbreviation in_range_go :: "big_go \<Rightarrow> bool" where
  "in_range_go g \<equiv> in_int64 (fst g) \<and> in_range_task (snd (snd g))"

lemma DAGBigSPB_section_in_range:
  assumes "DAGBigSPB_section cx c i srvc s t = Some (s', effs, nx)" "in_range_inst v s" "in_range_task t" "in_int64 v"
  shows "in_range_inst v s'" "list_all (effect_ok quiet_msg in_range_task (\<lambda>_ _. True)) effs" "pred_option in_range_task nx"
proof -
  note defs = DAGBigSPB_propose_start_def BigSPB_propose_wake_def BigSPB_propose_vote_def BigSPB_vote_start_def
    BigSPB_vote_count_def BigSPB_vote_qc_def BigSPB_speed_send_def BigSPB_speed_wake_def BigSPB_speed_start_def
    BigSPB_speed_count_def BigSPB_speed_store_def
  have vote: "in_int64 (vm_View m)" if "NewVoteMsg cx srvc i b = Some m" "in_int64 (b_View b)" for m b
    using NewVoteMsg_fields[OF that(1)] that(2) by simp
  have speed: "sv_View m = qc_View qc" if "NewSpeedVoteMsg cx srvc i qc = Some m" for m qc
    using NewSpeedVoteMsg_fields[OF that] by simp
  show "in_range_inst v s'" using assms
    by (cases t) (auto simp: defs Option.bind_eq_Some_conv Let_def in_range_inst_def split: if_splits)
  show "list_all (effect_ok quiet_msg in_range_task (\<lambda>_ _. True)) effs" using assms
    by (cases t) (auto simp: defs Option.bind_eq_Some_conv Let_def in_range_inst_def in_range_block_def list_all_iff BigSPB_qc_def
        dest!: vote speed split: if_splits)
  show "pred_option in_range_task nx" using assms
    by (cases t) (auto simp: defs Option.bind_eq_Some_conv Let_def split: if_splits)
qed

text \<open>
  The invariant: the instances are in range and, from the moment \<open>stalled\<close> is assumed, the node is
  in view \<open>v\<close> and the election of that view is spent.
\<close>

definition stall_inv :: "bool \<Rightarrow> Committee \<Rightarrow> int \<Rightarrow> ('k, 'db) DAGBigCore \<Rightarrow> bool" where
  "stall_inv stalled c v core \<longleftrightarrow>
     (\<forall>w n. in_range_inst w (dspb_at core w n)) \<and> el_committee (da_eletor core) = c \<and> in_int64 (da_view core) \<and>
     (stalled \<longrightarrow> da_view core = v \<and> 0 \<le> v \<and> election_spent (da_eletor core) v)"

lemma stall_inv_same:
  assumes "stall_inv stalled c v core" "da_same core core'" "da_view core' = da_view core" "da_eletor core' = da_eletor core"
  shows "stall_inv stalled c v core'"
  using assms by (simp add: stall_inv_def da_same_def)

lemma wrap64_next: "in_int64 x \<Longrightarrow> 0 \<le> v \<Longrightarrow> wrap64 (x + 1) = v + 1 \<Longrightarrow> x = v"
  by (auto simp: wrap64_Suc split: if_splits)

lemma stall_view_range:
  assumes "stall_inv stalled c v core" "DAGBigCore_handle cx dx core inp = Some (core', effs, err)"
  shows "in_int64 (da_view core')"
proof (cases "da_view core' = da_view core")
  case False
  have "da_view core' = da_view core + 1" using False DAGBigCore_handle_step[OF assms(2)]
    by (auto simp: dag_step_def dag_quiet_def dag_advance_def)
  moreover have "in_int64 (da_view core + 1)"
    using DAGBigCore_handle_view[OF assms(2)] False wrap64_bounds[of "_ + 1"] by metis
  ultimately show ?thesis by simp
qed (use assms(1) in \<open>simp add: stall_inv_def\<close>)

lemma stall_handle_view:
  assumes "stall_inv stalled c v core" "input_ok (stall_msg v) (\<lambda>_ _. True) inp"
    and "DAGBigCore_handle cx dx core inp = Some (core', effs, err)"
  shows "stall_inv stalled c v core'"
proof -
  have same: "da_same core core'" using DAGBigCore_handle_step[OF assms(3)] by (simp add: dag_step_def)
  from DAGBigCore_handle_view[OF assms(3)]
  show ?thesis
  proof (elim disjE conjE exE)
    assume "da_eletor core' = da_eletor core" "da_view core' = da_view core"
    then show ?thesis by (rule stall_inv_same[OF assms(1) same, rotated])
  next
    fix r
    assume r: "inp = InMsg (ReportM r)" "da_eletor core' = da_eletor core"
      and view: "da_view core' \<noteq> da_view core \<longrightarrow> wrap64 (rm_View r + 1) = da_view core + 1"
    have "da_view core' = da_view core" if "stalled"
    proof -
      have "da_view core = v" "0 \<le> v" using assms(1) that by (simp_all add: stall_inv_def)
      then show ?thesis using view wrap64_next[of "rm_View r" v] assms(2) r(1) by auto
    qed
    then show ?thesis using assms(1) same r(2) stall_view_range[OF assms(1,3)] by (auto simp: stall_inv_def da_same_def)
  next
    fix e res
    assume e: "inp = InMsg (ElectM (Some e))" "Elector_Add cx (da_eletor core) e = Some (da_eletor core', res)"
      and view: "da_view core' \<noteq> da_view core \<longrightarrow> (\<exists>l. res = Inr l \<and> l \<noteq> NONE) \<and> wrap64 (em_View e + 1) = da_view core + 1"
    have "da_view core' = v \<and> election_spent (da_eletor core') v" if "stalled"
    proof -
      have st: "da_view core = v" "0 \<le> v" "election_spent (da_eletor core) v" using assms(1) that by (simp_all add: stall_inv_def)
      have "da_view core' = da_view core"
      proof (rule ccontr)
        assume "da_view core' \<noteq> da_view core"
        with view st have "em_View e = v" using wrap64_next[of "em_View e" v] assms(2) e(1) by simp
        then show False using Elector_Add_spent[OF e(2) st(3)] view \<open>da_view core' \<noteq> da_view core\<close> by blast
      qed
      then show ?thesis using st Elector_Add_spent[OF e(2) st(3)] by simp
    qed
    then show ?thesis using assms(1) same stall_view_range[OF assms(1,3)] by (auto simp: stall_inv_def da_same_def)
  qed
qed

lemma NewElectMsg_view: "NewElectMsg cx srvc i v = Some (Inr m) \<Longrightarrow> em_View m = v"
  by (auto simp: NewElectMsg_def Let_def Option.bind_eq_Some_conv split: option.splits)

lemma stall_handle_effects:
  assumes "in_int64 (da_view core')" "input_ok in_range_msg (\<lambda>_ _. True) inp" "dag_step cx core inp effs core'"
  shows "list_all (effect_ok quiet_msg in_range_go (\<lambda>_ _. True)) effs"
  using assms(3) unfolding dag_step_def
proof (elim conjE disjE exE)
  assume q: "dag_quiet cx core inp effs core'"
  have "\<forall>g \<in> set (dag_spawn inp). in_range_go g"
    using assms(2) by (cases inp rule: dag_spawn.cases) (auto simp: in_range_block_def)
  then have "\<forall>g \<in># spawned effs. in_range_go g" using q by (auto simp: dag_quiet_def)
  moreover have "quiet_msg m" if "EEnq m \<in> set effs" for m
  proof -
    from that q obtain sv :: SpeedVoteMsg and r where r: "inp = InMsg (SpeedVoteM sv)"
        "NewElectMsg cx (da_sigService core) (da_nodeID core) (sv_View sv) = Some r" "m = elect_msg r"
      unfolding dag_quiet_def by blast
    show ?thesis
    proof (cases r)
      case (Inr e)
      then show ?thesis using assms(2) r NewElectMsg_view[of cx "da_sigService core" "da_nodeID core" "sv_View sv" e]
        by (simp add: elect_msg_def)
    qed (simp add: r elect_msg_def)
  qed
  moreover have "sends_enqueued effs" using q by (simp add: dag_quiet_def)
  ultimately show ?thesis by (simp add: effects_ok_enqueued)
qed (use assms(1) in \<open>auto simp: dag_advance_def\<close>)

interpretation dag_stall: node_invariant "dag_machine cx dx c" "stall_msg v"
    "\<lambda>core tr. stall_inv stalled c v core \<and> sent_reports tr = []"
    "stall_msg v" in_range_go "\<lambda>_ _. True"
  for cx :: "'k crypto_ext" and dx :: "'db store_ext" and c stalled v
proof
  fix core :: "('k, 'db) DAGBigCore" and tr :: "big_go effect list" and inp core' effs err
  assume I: "stall_inv stalled c v core \<and> sent_reports tr = []" and inp: "input_ok (stall_msg v) (\<lambda>_ _. True) inp"
    and "mc_handle (dag_machine cx dx c) core inp = Some (core', effs, err)"
  then have h: "DAGBigCore_handle cx dx core inp = Some (core', effs, err)" by (simp add: dag_machine_def)
  have inv: "stall_inv stalled c v core'" using stall_handle_view[OF _ inp h] I by blast
  have "input_ok in_range_msg (\<lambda>_ _. True) inp" using inp by (cases inp) auto
  with inv have ok: "list_all (effect_ok quiet_msg in_range_go (\<lambda>_ _. True)) effs"
    using stall_handle_effects[OF _ _ DAGBigCore_handle_step[OF h]] by (simp add: stall_inv_def)
  with inv I quiet_effects[OF ok] show "(stall_inv stalled c v core' \<and> sent_reports (tr @ effs) = []) \<and>
      list_all (effect_ok (stall_msg v) in_range_go (\<lambda>_ _. True)) effs" by simp
next
  fix core :: "('k, 'db) DAGBigCore" and tr :: "big_go effect list" and g core' effs g'
  assume I: "stall_inv stalled c v core \<and> sent_reports tr = []" and g_ok: "in_range_go g"
    and s: "mc_section (dag_machine cx dx c) core g = Some (core', effs, g')"
  obtain view node t where g: "g = (view, node, t)" by (cases g) auto
  from s g obtain s' ieffs nx where x: "DAGBigSPB_section cx (da_committee core) (da_nodeID core) (da_sigService core) (dspb_at core view node) t = Some (s', ieffs, nx)"
    and core': "core' = put_dspb view node s' core" "effs = map (map_effect (\<lambda>t. (view, node, t))) ieffs" "g' = map_option (\<lambda>t. (view, node, t)) nx"
    by (auto simp: dag_machine_def DAGBigCore_section_def Option.bind_eq_Some_conv)
  have "in_range_inst view (dspb_at core view node)" "in_range_task t" "in_int64 view" using I g_ok g by (simp_all add: stall_inv_def)
  note r = DAGBigSPB_section_in_range[OF x this]
  have inv: "stall_inv stalled c v core'" using I r(1) by (simp add: stall_inv_def core')
  have ok: "list_all (effect_ok quiet_msg in_range_go (\<lambda>_ _. True)) effs" "pred_option in_range_go g'"
    using r(2,3) \<open>in_int64 view\<close> by (simp_all add: core' list.pred_map comp_def option.pred_map)
  with inv I quiet_effects[OF ok(1)] show "(stall_inv stalled c v core' \<and> sent_reports (tr @ effs) = []) \<and>
      list_all (effect_ok (stall_msg v) in_range_go (\<lambda>_ _. True)) effs \<and> pred_option in_range_go g'" by simp
qed (auto simp: dag_machine_def DAGBigCore_background_def stall_inv_def)

section \<open>The node stays in its view\<close>

text \<open>
  C40. A DAG node that is still in view \<open>v\<close> when it has collected \<open>HightThreshold\<close> election
  shares of that view, because the coin found fewer than \<open>HightThreshold\<close> height-2 certificates (or
  because the shares did not combine), stays in view \<open>v\<close> as long as no report of view \<open>v\<close> reaches
  it: no certificate, vote, proposal, further share or report of another view that arrives later,
  and no interleaving, makes it advance. (Messages carry 64-bit view numbers.) And such a report has
  to come from elsewhere than a node of this protocol: before and after, the node sends no reports.
\<close>

theorem dag_missed_coin_stalls:
  assumes "DAGBigCore_boot cx (NewDAGBigCore i c pr pool db srvc) = Some (core, effs)" "Faults pr \<le> i"
    and "node_run (dag_machine cx dx c) (stall_msg v) (boot_node core effs) tr nd"
    and "da_view (nd_core nd) = v" "0 \<le> v" "election_spent (da_eletor (nd_core nd)) v"
    and "node_run (dag_machine cx dx c) (stall_msg v) nd tr' nd'"
  shows "da_view (nd_core nd') = v \<and> sent_reports (tr @ tr') = []"
proof -
  from DAGBigCore_boot_outcome[OF assms(1,2)] obtain pool' b p where
    core: "core = (NewDAGBigCore i c pr pool db srvc)\<lparr>da_txpool := pool'\<rparr>"
    and effs: "effs = [ESend i NONE (ProposeM p), EEnq (ProposeM p)]"
    and p: "pm_View p = 0" "pm_B p = Some b" "b_View b = 0" by blast
  have "stall_inv False c v core"
    by (simp add: stall_inv_def core NewDAGBigCore_def NewElector_def in_int64_def) (simp add: in_range_inst_def NewDAGBigSPB_def)
  moreover have "in_int64 0" by (simp add: in_int64_def)
  ultimately have "dag_stall.node_ok False c v [] (boot_node core effs)"
    using p by (simp add: dag_stall.node_ok_def boot_node_def effs)
  note ok = dag_stall.run_ok[OF assms(3) this]
  then have "dag_stall.node_ok True c v [] nd"
    using assms(4-6) unfolding dag_stall.node_ok_def by (simp add: stall_inv_def)
  from ok dag_stall.run_ok[OF assms(7) this] show ?thesis unfolding dag_stall.node_ok_def by (simp add: stall_inv_def)
qed

text \<open>
  Three shares reach node 0 of a committee of four before any certificate; the coin is tossed and
  nothing happens, so the node stays in view 0 whatever arrives.
\<close>

lemma sample_shares:
  "\<exists>el1 el2. Elector_Add sample_cx sample_elector (sample_elect 0 0) = Some (el1, Inr NONE) \<and>
     Elector_Add sample_cx el1 (sample_elect 0 1) = Some (el2, Inr NONE) \<and> el_committee el2 = sample_committee 4 \<and>
     length (ag_elects (aggregator_of el2 0)) = 2 \<and> em_Author (sample_elect 0 2) \<notin> ag_used (aggregator_of el2 0)"
  by (simp add: sample_election_defs)

lemma sample_coin_missed:
  "\<exists>tr nd. node_run (sample_dagm (sample_committee 4)) (stall_msg 0)
      (boot_node (sample_dcore 0 (sample_committee 4)) sample_dag_effs) tr nd \<and>
     nd_alive nd \<and> length (nd_recvCh nd) = 1 \<and> da_view (nd_core nd) = 0 \<and> election_spent (da_eletor (nd_core nd)) 0"
proof -
  let ?c = "sample_committee 4" and ?core = "sample_dcore 0 (sample_committee 4)"
  from sample_shares obtain el1 el2 where e: "Elector_Add sample_cx sample_elector (sample_elect 0 0) = Some (el1, Inr NONE)"
      "Elector_Add sample_cx el1 (sample_elect 0 1) = Some (el2, Inr NONE)"
    and el2: "el_committee el2 = ?c" "length (ag_elects (aggregator_of el2 0)) = 2"
      "em_Author (sample_elect 0 2) \<notin> ag_used (aggregator_of el2 0)" by blast
  have core: "da_eletor ?core = sample_elector" "da_view ?core = 0" "da_height ?core = HEIGHT_1" "da_committee ?core = ?c"
    by (simp_all add: sample_dcore_def NewDAGBigCore_def sample_elector_def)
  let ?core2 = "?core\<lparr>da_eletor := el2\<rparr>" and ?e = "\<lambda>i. ElectM (Some (sample_elect 0 i))"
  obtain nd where x: "exec (sample_dagm ?c) [Deliver (?e 0), Deliver (?e 1), Deliver (?e 2), Main, Main, Main, Main]
        (boot_node ?core sample_dag_effs) = Some (nd, [])"
      and nd: "nd_alive nd" "nd_main nd = []" "nd_core nd = ?core2" "\<exists>m. nd_recvCh nd = [?e 2, m]"
    using e core
    by (simp add: boot_node_def recv_cap_def send_cap_def sample_dagm_def dag_machine_def DAGBigCore_handleElectMsg_def
        ElectMsg_Verify_def SignatureShare_Verify_def)
  have run: "node_run (sample_dagm ?c) (stall_msg 0) (boot_node ?core sample_dag_effs) [] nd"
    by (rule exec_run[OF x]) (auto simp: boot_node_def sample_elect_def in_int64_def)
  have ok: "dag_ok sample_cx ?c 0 sample_service ?core2"
    by (simp add: dag_ok_def el2) (simp add: sample_dcore_def NewDAGBigCore_def bspb_ok_def NewDAGBigSPB_def)
  obtain core' effs err where h: "DAGBigCore_handle sample_cx (sample_dx [sample_block 0 0 HEIGHT_1]) ?core2 (InMsg (?e 2)) = Some (core', effs, err)"
    using DAGBigCore_handle_defined[OF ok, of "InMsg (?e 2)" "sample_dx [sample_block 0 0 HEIGHT_1]"] by auto
  have "\<not> dag_advance ?core2 post core'" if "da_view core' \<noteq> 0" for post
    using that core
    by (auto simp: dag_advance_def references_for_def DAGBigSPB_GetBlockQC_def sample_dcore_def NewDAGBigCore_def
        NewDAGBigSPB_def List.map_filter_def)
  then have view: "da_view core' = 0" using DAGBigCore_handle_step[OF h] core by (auto simp: dag_step_def dag_quiet_def)
  from DAGBigCore_handleElectMsg_view[OF h[simplified]] obtain res where "Elector_Add sample_cx el2 (sample_elect 0 2) = Some (da_eletor core', res)"
    by auto
  then have spent: "election_spent (da_eletor core') 0"
  proof (rule Elector_AddE)
    fix a
    assume a: "Aggregator_Append sample_cx (el_committee el2) (el_sigService el2) (aggregator_of el2 (em_View (sample_elect 0 2))) (sample_elect 0 2) = Some (a, res)"
      and el: "aggregator_of (da_eletor core') = (aggregator_of el2)(em_View (sample_elect 0 2) := a)" "el_committee (da_eletor core') = el_committee el2"
    have v: "em_View (sample_elect 0 2) = 0" by (simp add: sample_elect_def)
    have "a = pushed (aggregator_of el2 0) (sample_elect 0 2)" using Append_fresh[OF a] el2(3) v by simp
    then show ?thesis using el el2 v by (simp add: election_spent_def)
  qed
  obtain m where recv: "nd_recvCh nd = [?e 2, m]" using nd(4) by blast
  have "node_step (sample_dagm ?c) (stall_msg 0) nd effs (nd\<lparr>nd_core := core', nd_main := effs, nd_recvCh := [m]\<rparr>)"
    by (rule node_step.main_msg[OF nd(1,2) recv]) (simp add: nd(3) sample_dagm_def dag_machine_def h[simplified])
  from node_run.more[OF run this] view spent nd(1) show ?thesis
    by (intro exI[of _ effs] exI[of _ "nd\<lparr>nd_core := core', nd_main := effs, nd_recvCh := [m]\<rparr>"]) simp
qed

theorem dag_missed_coin_stalls_witness:
  "\<exists>tr nd nd'. node_run (sample_dagm (sample_committee 4)) (stall_msg 0)
      (boot_node (sample_dcore 0 (sample_committee 4)) sample_dag_effs) tr nd \<and>
     election_spent (da_eletor (nd_core nd)) 0 \<and>
     node_run (sample_dagm (sample_committee 4)) (stall_msg 0) nd [] nd' \<and>
     length (nd_recvCh nd') = 2 \<and> da_view (nd_core nd') = 0 \<and> sent_reports tr = []"
proof -
  from sample_coin_missed obtain tr nd where run: "node_run (sample_dagm (sample_committee 4)) (stall_msg 0)
      (boot_node (sample_dcore 0 (sample_committee 4)) sample_dag_effs) tr nd"
    and nd: "nd_alive nd" "length (nd_recvCh nd) = 1" "da_view (nd_core nd) = 0" "election_spent (da_eletor (nd_core nd)) 0"
    by blast
  let ?nd' = "nd\<lparr>nd_recvCh := nd_recvCh nd @ [SpeedVoteM (sample_speedvote 1 0 zero_Digest 0)]\<rparr>"
  have "node_step (sample_dagm (sample_committee 4)) (stall_msg 0) nd [] ?nd'"
    by (rule node_step.deliver) (simp_all add: nd recv_cap_def in_int64_def)
  from node_run.more[OF node_run.start this] have run': "node_run (sample_dagm (sample_committee 4)) (stall_msg 0) nd [] ?nd'" by simp
  have "da_view (nd_core ?nd') = 0 \<and> sent_reports (tr @ []) = []"
    by (rule dag_missed_coin_stalls[OF sample_dag_boot[unfolded sample_dcore_def] _ run[unfolded sample_dagm_def sample_dcore_def] _ _ _
          run'[unfolded sample_dagm_def]]) (simp_all add: nd)
  with run run' nd show ?thesis by (intro exI[of _ tr] exI[of _ nd] exI[of _ ?nd']) simp
qed

end
