(* ===== verification/Encoding.thy ===== *)
theory Encoding
  imports Pac_Prelude
begin

text \<open>
  The text encodings of the standard library that the key and configuration files use: decimal
  numbers (\<open>strconv\<close>), hexadecimal (\<open>encoding/hex\<close>) and base64 (\<open>encoding/base64\<close>), with
  their round trips. Byte slices that hold text are strings here, as the code converts freely
  between the two.
\<close>

section \<open>Decimal numbers\<close>

definition digit_char :: "nat \<Rightarrow> char" where
  "digit_char d = char_of (48 + d)"

fun dec_digits :: "nat \<Rightarrow> string" where
  "dec_digits n = (if n < 10 then [digit_char n] else dec_digits (n div 10) @ [digit_char (n mod 10)])"

declare dec_digits.simps [simp del]

definition Itoa :: "int \<Rightarrow> string" where
  "Itoa i = (if i < 0 then CHR ''-'' # dec_digits (nat (- i)) else dec_digits (nat i))"

definition is_digit :: "char \<Rightarrow> bool" where
  "is_digit c \<longleftrightarrow> 48 \<le> (of_char c :: nat) \<and> (of_char c :: nat) \<le> 57"

definition dec_value :: "string \<Rightarrow> nat" where
  "dec_value ds = foldl (\<lambda>n c. 10 * n + (of_char c - 48)) 0 ds"

text \<open>
  \<open>strconv.Atoi\<close>: an optional sign and digits. A syntax error gives 0, a value out of range the
  nearest 64-bit integer; the flag says that there was no error.
\<close>

definition Atoi :: "string \<Rightarrow> int \<times> bool" where
  "Atoi s =
     (let (neg, ds) = (case s of c # cs \<Rightarrow> if c = CHR ''-'' then (True, cs) else if c = CHR ''+'' then (False, cs) else (False, s)
                       | [] \<Rightarrow> (False, []));
          v = (if neg then - int (dec_value ds) else int (dec_value ds)) in
      if ds = [] \<or> \<not> list_all is_digit ds then (0, False)
      else if v < - (2 ^ 63) then (- (2 ^ 63), False)
      else if 2 ^ 63 \<le> v then (2 ^ 63 - 1, False)
      else (v, True))"

lemma digit_char_digit [simp]: "d < 10 \<Longrightarrow> is_digit (digit_char d)" "d < 10 \<Longrightarrow> of_char (digit_char d) = 48 + d"
  by (simp_all add: is_digit_def digit_char_def)

lemma dec_digits_nonempty [simp]: "dec_digits n \<noteq> []"
  by (subst dec_digits.simps) simp

lemma dec_digits_all [simp]: "list_all is_digit (dec_digits n)"
proof (induction n rule: dec_digits.induct)
  case (1 n)
  then show ?case by (subst dec_digits.simps) auto
qed

lemma dec_value_snoc: "dec_value (ds @ [c]) = 10 * dec_value ds + (of_char c - 48)"
  by (simp add: dec_value_def)

lemma dec_value_digits [simp]: "dec_value (dec_digits n) = n"
proof (induction n rule: dec_digits.induct)
  case (1 n)
  show ?case
  proof (cases "n < 10")
    case True
    then show ?thesis by (subst dec_digits.simps) (simp add: dec_value_def)
  next
    case False
    with 1 show ?thesis by (subst dec_digits.simps) (simp add: dec_value_snoc)
  qed
qed

lemma dec_digits_inj: "dec_digits m = dec_digits n \<Longrightarrow> m = n"
  by (metis dec_value_digits)

lemma dec_digits_hd: "\<exists>c cs. dec_digits n = c # cs \<and> is_digit c \<and> c \<noteq> CHR ''-'' \<and> c \<noteq> CHR ''+''"
proof -
  obtain c cs where d: "dec_digits n = c # cs" by (cases "dec_digits n") auto
  then have "is_digit c" using dec_digits_all[of n] by simp
  then show ?thesis using d by (auto simp: is_digit_def)
qed

text \<open>No leading zero: a JSON number must not have one.\<close>

lemma dec_digits_leading: "dec_digits n = CHR ''0'' # cs \<Longrightarrow> cs = []"
proof (induction n arbitrary: cs rule: dec_digits.induct)
  case (1 n)
  show ?case
  proof (cases "n < 10")
    case True
    with 1(2) show ?thesis by (simp add: dec_digits.simps[of n])
  next
    case False
    with 1(2) obtain c ds where d: "dec_digits (n div 10) = c # ds" "c = CHR ''0''"
      by (cases "dec_digits (n div 10)") (auto simp: dec_digits.simps[of n])
    with 1(1) False have "dec_digits (n div 10) = ''0''" by simp
    then have "n div 10 = 0" using dec_value_digits[of "n div 10"] by (simp add: dec_value_def)
    with False show ?thesis by simp
  qed
qed

lemma Atoi_Itoa:
  assumes "in_int64 i"
  shows "Atoi (Itoa i) = (i, True)"
proof (cases "i < 0")
  case True
  then show ?thesis using assms by (simp add: Atoi_def Itoa_def in_int64_def)
next
  case False
  obtain c cs where d: "dec_digits (nat i) = c # cs" "c \<noteq> CHR ''-''" "c \<noteq> CHR ''+''" using dec_digits_hd by blast
  then have "list_all is_digit (c # cs)" "dec_value (c # cs) = nat i" by (simp_all flip: d(1))
  with d False assms show ?thesis by (simp add: Atoi_def Itoa_def in_int64_def Let_def)
qed

lemma dec_digits_not_minus: "dec_digits n \<noteq> CHR ''-'' # ds"
  using dec_digits_hd[of n] by auto

lemma Itoa_inj: "Itoa i = Itoa j \<Longrightarrow> i = j"
  using dec_digits_not_minus dec_digits_not_minus[symmetric]
  by (auto simp: Itoa_def dest!: dec_digits_inj split: if_splits)

section \<open>Hexadecimal\<close>

text \<open>The digits \<open>0\<close> to \<open>9\<close> and \<open>a\<close> to \<open>f\<close>; upper-case letters are accepted, too.\<close>

definition hex_char :: "nat \<Rightarrow> char" where
  "hex_char n = char_of (if n < 10 then 48 + n else 87 + n)"

definition fromHexChar :: "char \<Rightarrow> nat option" where
  "fromHexChar c =
     (let n = (of_char c :: nat) in
      if 48 \<le> n \<and> n \<le> 57 then Some (n - 48)
      else if 97 \<le> n \<and> n \<le> 102 then Some (n - 87)
      else if 65 \<le> n \<and> n \<le> 70 then Some (n - 55)
      else None)"

fun hex_Encode :: "bytes \<Rightarrow> string" where
  "hex_Encode [] = []"
| "hex_Encode (b # bs) = hex_char (unat b div 16) # hex_char (unat b mod 16) # hex_Encode bs"

fun hex_Decode :: "string \<Rightarrow> string + bytes" where
  "hex_Decode [] = Inr []"
| "hex_Decode [a] = (if fromHexChar a = None then Inl (''encoding/hex: invalid byte'') else Inl ''encoding/hex: odd length hex string'')"
| "hex_Decode (a # b # s) =
     (case fromHexChar a of
        None \<Rightarrow> Inl ''encoding/hex: invalid byte''
      | Some x \<Rightarrow> (case fromHexChar b of
                      None \<Rightarrow> Inl ''encoding/hex: invalid byte''
                    | Some y \<Rightarrow> (case hex_Decode s of Inl e \<Rightarrow> Inl e | Inr bs \<Rightarrow> Inr (of_nat (16 * x + y) # bs))))"

lemma fromHexChar_hex_char: "n < 16 \<Longrightarrow> fromHexChar (hex_char n) = Some n"
  by (simp add: fromHexChar_def hex_char_def Let_def)

lemma fromHexChar_less: "fromHexChar c = Some n \<Longrightarrow> n < 16"
  by (auto simp: fromHexChar_def Let_def split: if_splits)

lemma byte_less: "unat (b :: byte) < 256"
  using unsigned_less[of b, where ?'a = nat] by simp

lemma unat_byte: "n < 256 \<Longrightarrow> unat (of_nat n :: byte) = n"
  by (simp add: unsigned_of_nat take_bit_nat_eq_self)

lemma byte_eqI: "n = unat b \<Longrightarrow> of_nat n = (b :: byte)"
  by simp

lemma hex_Decode_Encode [simp]: "hex_Decode (hex_Encode bs) = Inr bs"
proof (induction bs)
  case (Cons b bs)
  have "unat b div 16 < 16" using byte_less[of b] by simp
  with Cons show ?case by (simp add: fromHexChar_hex_char)
qed simp

text \<open>Conversely a text that decodes is, up to the case of its letters, the encoding of the result.\<close>

definition same_hex :: "char \<Rightarrow> char \<Rightarrow> bool" where
  "same_hex a b \<longleftrightarrow> fromHexChar a = fromHexChar b \<and> fromHexChar a \<noteq> None"

lemma hex_Encode_Decode: "hex_Decode s = Inr bs \<Longrightarrow> list_all2 same_hex s (hex_Encode bs)"
proof (induction s arbitrary: bs rule: hex_Decode.induct)
  case (3 a b s)
  then obtain x y cs where xy: "fromHexChar a = Some x" "fromHexChar b = Some y" and cs: "hex_Decode s = Inr cs"
    and bs: "bs = of_nat (16 * x + y) # cs"
    by (auto split: option.splits sum.splits)
  have less: "x < 16" "y < 16" using xy by (auto dest: fromHexChar_less)
  then have "unat (of_nat (16 * x + y) :: byte) = 16 * x + y" by (intro unat_byte) simp
  then show ?case using 3(1)[OF xy cs] xy less by (simp add: bs same_hex_def fromHexChar_hex_char)
qed (auto split: if_splits)

lemma hex_Encode_length [simp]: "length (hex_Encode bs) = 2 * length bs"
  by (induction bs) simp_all

section \<open>Base64\<close>

text \<open>The standard alphabet: \<open>A\<close> to \<open>Z\<close>, \<open>a\<close> to \<open>z\<close>, \<open>0\<close> to \<open>9\<close>, \<open>+\<close> and \<open>/\<close>.\<close>

definition b64_char :: "nat \<Rightarrow> char" where
  "b64_char n = char_of (if n < 26 then 65 + n else if n < 52 then 71 + n else if n < 62 then n - 4 else if n = 62 then 43 else 47)"

definition b64val :: "char \<Rightarrow> nat option" where
  "b64val c =
     (let n = (of_char c :: nat) in
      if 65 \<le> n \<and> n \<le> 90 then Some (n - 65)
      else if 97 \<le> n \<and> n \<le> 122 then Some (n - 71)
      else if 48 \<le> n \<and> n \<le> 57 then Some (n + 4)
      else if n = 43 then Some 62
      else if n = 47 then Some 63
      else None)"

fun b64_Encode :: "bytes \<Rightarrow> string" where
  "b64_Encode [] = []"
| "b64_Encode [a] = [b64_char (unat a div 4), b64_char (unat a mod 4 * 16), CHR ''='', CHR ''='']"
| "b64_Encode [a, b] =
     [b64_char (unat a div 4), b64_char (unat a mod 4 * 16 + unat b div 16), b64_char (unat b mod 16 * 4), CHR ''='']"
| "b64_Encode (a # b # c # bs) =
     b64_char (unat a div 4) # b64_char (unat a mod 4 * 16 + unat b div 16) #
     b64_char (unat b mod 16 * 4 + unat c div 64) # b64_char (unat c mod 64) # b64_Encode bs"

text \<open>The decoder of a text without line breaks; the unused bits of the last digit are ignored.\<close>

fun b64_quads :: "string \<Rightarrow> bytes option" where
  "b64_quads [] = Some []"
| "b64_quads (p # q # r # s # cs) =
     (case (b64val p, b64val q) of
        (Some w, Some x) \<Rightarrow>
          (if r = CHR ''='' then
             (if s = CHR ''='' \<and> cs = [] then Some [of_nat (w * 4 + x div 16)] else None)
           else case b64val r of
             None \<Rightarrow> None
           | Some y \<Rightarrow>
               (if s = CHR ''='' then
                  (if cs = [] then Some [of_nat (w * 4 + x div 16), of_nat (x mod 16 * 16 + y div 4)] else None)
                else case b64val s of
                  None \<Rightarrow> None
                | Some z \<Rightarrow>
                    map_option (\<lambda>bs. of_nat (w * 4 + x div 16) # of_nat (x mod 16 * 16 + y div 4) # of_nat (y mod 4 * 64 + z) # bs)
                      (b64_quads cs)))
      | _ \<Rightarrow> None)"
| "b64_quads _ = None"

definition b64_Decode :: "string \<Rightarrow> string + bytes" where
  "b64_Decode s =
     (case b64_quads (filter (\<lambda>c. c \<noteq> CHR 0x0A \<and> c \<noteq> CHR 0x0D) s) of
        None \<Rightarrow> Inl ''illegal base64 data'' | Some bs \<Rightarrow> Inr bs)"

lemma b64_char_ok: "n < 64 \<Longrightarrow> b64val (b64_char n) = Some n \<and> b64_char n \<notin> {CHR ''='', CHR 0x0A, CHR 0x0D}"
proof -
  assume n: "n < 64"
  have c: "of_char (b64_char n) = (if n < 26 then 65 + n else if n < 52 then 71 + n else if n < 62 then n - 4 else if n = 62 then 43 else 47)"
    using n by (simp add: b64_char_def)
  then have "b64_char n \<noteq> CHR ''='' \<and> b64_char n \<noteq> CHR 0x0A \<and> b64_char n \<noteq> CHR 0x0D"
    using n by (auto split: if_splits)
  moreover have "b64val (b64_char n) = Some n" using n by (auto simp: b64val_def Let_def c)
  ultimately show ?thesis by simp
qed

lemma b64_first: "m < 16 \<Longrightarrow> of_nat (unat a div 4 * 4 + (unat a mod 4 * 16 + m) div 16) = (a :: byte)"
proof -
  assume "m < 16"
  then have "unat a div 4 * 4 + (unat a mod 4 * 16 + m) div 16 = unat a" by simp
  then show ?thesis by (rule byte_eqI)
qed

lemma b64_second:
  "m < 4 \<Longrightarrow> of_nat ((k * 16 + unat b div 16) mod 16 * 16 + (unat b mod 16 * 4 + m) div 4) = (b :: byte)"
proof -
  assume "m < 4"
  have "unat b div 16 < 16" using byte_less[of b] by simp
  then have "(k * 16 + unat b div 16) mod 16 * 16 + (unat b mod 16 * 4 + m) div 4 = unat b" using \<open>m < 4\<close> by simp
  then show ?thesis by (rule byte_eqI)
qed

lemma b64_third: "of_nat ((k * 4 + unat c div 64) mod 4 * 64 + unat c mod 64) = (c :: byte)"
proof -
  have "unat c div 64 < 4" using byte_less[of c] by simp
  then have "(k * 4 + unat c div 64) mod 4 * 64 + unat c mod 64 = unat c" by simp
  then show ?thesis by (rule byte_eqI)
qed

lemma b64_bounds:
  "unat (a :: byte) div 4 < 64" "unat a mod 4 * 16 + unat (b :: byte) div 16 < 64"
  "unat b mod 16 * 4 + unat (c :: byte) div 64 < 64" "unat c mod 64 < 64" "unat a mod 4 * 16 < 64" "unat b mod 16 * 4 < 64"
  using byte_less[of a] byte_less[of b] byte_less[of c] by auto

lemma b64_digit:
  "b64val (b64_char (unat (a :: byte) div 4)) = Some (unat a div 4)"
  "b64val (b64_char (unat a mod 4 * 16 + unat (b :: byte) div 16)) = Some (unat a mod 4 * 16 + unat b div 16)"
  "b64val (b64_char (unat b mod 16 * 4 + unat (c :: byte) div 64)) = Some (unat b mod 16 * 4 + unat c div 64)"
  "b64val (b64_char (unat c mod 64)) = Some (unat c mod 64)"
  "b64val (b64_char (unat a mod 4 * 16)) = Some (unat a mod 4 * 16)"
  "b64val (b64_char (unat b mod 16 * 4)) = Some (unat b mod 16 * 4)"
  using b64_bounds b64_char_ok by blast+

lemma b64_plain:
  "b64_char (unat (a :: byte) div 4) \<notin> {CHR ''='', CHR 0x0A, CHR 0x0D}"
  "b64_char (unat a mod 4 * 16 + unat (b :: byte) div 16) \<notin> {CHR ''='', CHR 0x0A, CHR 0x0D}"
  "b64_char (unat b mod 16 * 4 + unat (c :: byte) div 64) \<notin> {CHR ''='', CHR 0x0A, CHR 0x0D}"
  "b64_char (unat c mod 64) \<notin> {CHR ''='', CHR 0x0A, CHR 0x0D}"
  "b64_char (unat a mod 4 * 16) \<notin> {CHR ''='', CHR 0x0A, CHR 0x0D}"
  "b64_char (unat b mod 16 * 4) \<notin> {CHR ''='', CHR 0x0A, CHR 0x0D}"
  using b64_bounds b64_char_ok by blast+

lemma b64_quads_Encode: "b64_quads (b64_Encode bs) = Some bs"
proof (induction bs rule: b64_Encode.induct)
  case (2 a)
  then show ?case using b64_first[of 0 a] by (simp add: b64_digit del: of_nat_add of_nat_mult)
next
  case (3 a b)
  have "unat b div 16 < 16" using byte_less[of b] by simp
  then show ?case using b64_first[of "unat b div 16" a] b64_second[of 0 "unat a mod 4" b] b64_plain[of b]
    by (simp add: b64_digit del: of_nat_add of_nat_mult)
next
  case (4 a b c bs)
  have "unat b div 16 < 16" "unat c div 64 < 4" using byte_less[of b] byte_less[of c] by simp_all
  then show ?case
    using 4 b64_first[of "unat b div 16" a] b64_second[of "unat c div 64" "unat a mod 4" b] b64_third[of "unat b mod 16" c]
      b64_plain(3)[of b c] b64_plain(4)[of c]
    by (simp add: b64_digit del: of_nat_add of_nat_mult)
qed simp

lemma b64_no_breaks: "filter (\<lambda>c. c \<noteq> CHR 0x0A \<and> c \<noteq> CHR 0x0D) (b64_Encode bs) = b64_Encode bs"
  by (induction bs rule: b64_Encode.induct) (use b64_plain in \<open>simp_all\<close>)

lemma b64_Decode_Encode [simp]: "b64_Decode (b64_Encode bs) = Inr bs"
  by (simp add: b64_Decode_def b64_no_breaks b64_quads_Encode)

end
