(* ===== verification/Json.thy ===== *)
theory Json
  imports Encoding "HOL-Library.AList"
begin

text \<open>
  The part of \<open>encoding/json\<close> that the program uses: values, the text the encoder writes
  (compact, or indented with tabs), the text the decoder accepts, and the decoding into struct
  fields. The decoder reads the first value of a text and leaves the rest.

  Numbers are integers (the program writes no others, and a fraction or an exponent is not
  accepted here). Strings are byte strings; bytes from 128 on are copied, as the encoder and the
  decoder do for valid UTF-8, and an escape of a code point from 128 on is not accepted here.
\<close>

section \<open>Values and strings\<close>

datatype json = JNull | JBool bool | JNum int | JStr string | JArr "json list" | JObj "(string \<times> json) list"

abbreviation (input) quote_char :: char where "quote_char \<equiv> CHR 0x22"
abbreviation (input) backslash :: char where "backslash \<equiv> CHR 0x5C"

text \<open>Control characters and the three characters that matter in HTML are written as \<open>\u00xx\<close>.\<close>

definition escape_char :: "char \<Rightarrow> string" where
  "escape_char c =
     (if c = quote_char \<or> c = backslash then [backslash, c]
      else if c = CHR 0x0A then [backslash, CHR ''n'']
      else if c = CHR 0x0D then [backslash, CHR ''r'']
      else if c = CHR 0x09 then [backslash, CHR ''t'']
      else if (of_char c :: nat) < 32 \<or> c \<in> {CHR ''<'', CHR ''>'', CHR ''&''}
      then [backslash, CHR ''u'', CHR ''0'', CHR ''0'', hex_char (of_char c div 16), hex_char (of_char c mod 16)]
      else [c])"

definition quoted :: "string \<Rightarrow> string" where
  "quoted s = quote_char # concat (map escape_char s) @ [quote_char]"

definition simple_escape :: "char \<Rightarrow> char option" where
  "simple_escape e =
     (if e \<in> {quote_char, backslash, CHR ''/''} then Some e
      else if e = CHR ''n'' then Some (CHR 0x0A) else if e = CHR ''r'' then Some (CHR 0x0D)
      else if e = CHR ''t'' then Some (CHR 0x09) else if e = CHR ''b'' then Some (CHR 0x08)
      else if e = CHR ''f'' then Some (CHR 0x0C) else None)"

definition unicode_escape :: "char \<Rightarrow> char \<Rightarrow> char \<Rightarrow> char \<Rightarrow> char option" where
  "unicode_escape a b c d =
     (case (fromHexChar a, fromHexChar b, fromHexChar c, fromHexChar d) of
        (Some w, Some x, Some y, Some z) \<Rightarrow>
          (let n = ((w * 16 + x) * 16 + y) * 16 + z in if n < 128 then Some (char_of n) else None)
      | _ \<Rightarrow> None)"

text \<open>The string literal after its opening quote, and what follows it.\<close>

fun parse_chars :: "string \<Rightarrow> (string \<times> string) option" where
  "parse_chars [] = None"
| "parse_chars (c # cs) =
     (if c = quote_char then Some ([], cs)
      else if c = backslash then
        (case cs of
           [] \<Rightarrow> None
         | e # r \<Rightarrow>
             (case simple_escape e of
                Some x \<Rightarrow> map_option (apfst (Cons x)) (parse_chars r)
              | None \<Rightarrow>
                  (if e = CHR ''u'' then
                     (case r of
                        h1 # h2 # h3 # h4 # r' \<Rightarrow>
                          (case unicode_escape h1 h2 h3 h4 of
                             Some x \<Rightarrow> map_option (apfst (Cons x)) (parse_chars r')
                           | None \<Rightarrow> None)
                      | _ \<Rightarrow> None)
                   else None)))
      else if (of_char c :: nat) < 32 then None
      else map_option (apfst (Cons c)) (parse_chars cs))"

lemma parse_escaped: "parse_chars (escape_char c @ s) = map_option (apfst (Cons c)) (parse_chars s)"
proof -
  have u: "unicode_escape (CHR ''0'') (CHR ''0'') (hex_char (of_char c div 16)) (hex_char (of_char c mod 16)) = Some c"
    if "of_char c < (128 :: nat)"
  proof -
    have "fromHexChar (CHR ''0'') = Some 0" by (simp add: fromHexChar_def)
    moreover have "of_char c div 16 < (16 :: nat)" "of_char c mod 16 < (16 :: nat)" using that by simp_all
    ultimately show ?thesis using that by (simp add: unicode_escape_def fromHexChar_hex_char)
  qed
  show ?thesis
  proof (cases "c \<in> {quote_char, backslash, CHR 0x0A, CHR 0x0D, CHR 0x09}")
    case True
    then show ?thesis by (auto simp: escape_char_def simple_escape_def)
  next
    case esc: False
    show ?thesis
    proof (cases "(of_char c :: nat) < 32 \<or> c \<in> {CHR ''<'', CHR ''>'', CHR ''&''}")
      case True
      then have "of_char c < (128 :: nat)" by auto
      then show ?thesis using esc True u by (simp add: escape_char_def simple_escape_def)
    next
      case False
      then have "escape_char c = [c]" using esc by (simp add: escape_char_def)
      with False esc show ?thesis by simp
    qed
  qed
qed

lemma parse_quoted: "parse_chars (concat (map escape_char s) @ quote_char # rest) = Some (s, rest)"
  by (induction s) (simp_all add: parse_escaped)

section \<open>The encoder\<close>

text \<open>\<open>ind\<close> says whether the text is indented, \<open>d\<close> is the depth.\<close>

definition line_break :: "bool \<Rightarrow> nat \<Rightarrow> string" where
  "line_break ind d = (if ind then CHR 0x0A # replicate d (CHR 0x09) else [])"

fun render :: "bool \<Rightarrow> nat \<Rightarrow> json \<Rightarrow> string"
  and render_elems :: "bool \<Rightarrow> nat \<Rightarrow> json list \<Rightarrow> string"
  and render_members :: "bool \<Rightarrow> nat \<Rightarrow> (string \<times> json) list \<Rightarrow> string" where
  "render ind d JNull = ''null''"
| "render ind d (JBool b) = (if b then ''true'' else ''false'')"
| "render ind d (JNum i) = Itoa i"
| "render ind d (JStr s) = quoted s"
| "render ind d (JArr vs) = (if vs = [] then ''[]'' else CHR ''['' # render_elems ind (Suc d) vs @ line_break ind d @ '']'')"
| "render ind d (JObj kvs) = (if kvs = [] then ''{}'' else CHR ''{'' # render_members ind (Suc d) kvs @ line_break ind d @ ''}'')"
| "render_elems ind d [] = []"
| "render_elems ind d (v # vs) =
     line_break ind d @ render ind d v @ (if vs = [] then [] else CHR '','' # render_elems ind d vs)"
| "render_members ind d [] = []"
| "render_members ind d ((k, v) # kvs) =
     line_break ind d @ quoted k @ CHR '':'' # (if ind then '' '' else []) @ render ind d v @
     (if kvs = [] then [] else CHR '','' # render_members ind d kvs)"

text \<open>\<open>Encode\<close> ends the value with a line feed.\<close>

definition json_Encode :: "bool \<Rightarrow> json \<Rightarrow> string" where
  "json_Encode ind v = render ind 0 v @ [CHR 0x0A]"

section \<open>The decoder\<close>

definition is_ws :: "char \<Rightarrow> bool" where
  "is_ws c \<longleftrightarrow> c \<in> {CHR 0x20, CHR 0x09, CHR 0x0A, CHR 0x0D}"

definition skip_ws :: "string \<Rightarrow> string" where
  "skip_ws s = dropWhile is_ws s"

definition parse_num :: "string \<Rightarrow> (json \<times> string) option" where
  "parse_num s =
     (let (neg, r) = (case s of c # cs \<Rightarrow> if c = CHR ''-'' then (True, cs) else (False, s) | [] \<Rightarrow> (False, []));
          ds = takeWhile is_digit r; rest = dropWhile is_digit r in
      if ds = [] \<or> (hd ds = CHR ''0'' \<and> tl ds \<noteq> []) \<or> (rest \<noteq> [] \<and> hd rest \<in> {CHR ''.'', CHR ''e'', CHR ''E''}) then None
      else Some (JNum (if neg then - int (dec_value ds) else int (dec_value ds)), rest))"

definition parse_word :: "string \<Rightarrow> json \<Rightarrow> string \<Rightarrow> (json \<times> string) option" where
  "parse_word w v s = (if take (length w) s = w then Some (v, drop (length w) s) else None)"

text \<open>
  Recursive descent, with fuel. \<open>json_Decode\<close> takes the length of the text, which is always enough
  (\<open>json_Decode_fuel\<close>).
\<close>

fun parse_value :: "nat \<Rightarrow> string \<Rightarrow> (json \<times> string) option"
  and parse_elems :: "nat \<Rightarrow> string \<Rightarrow> (json list \<times> string) option"
  and parse_members :: "nat \<Rightarrow> string \<Rightarrow> ((string \<times> json) list \<times> string) option" where
  "parse_value 0 s = None"
| "parse_value (Suc n) s =
     (case skip_ws s of
        [] \<Rightarrow> None
      | c # r \<Rightarrow>
          (if c = quote_char then map_option (apfst JStr) (parse_chars r)
           else if c = CHR ''{'' then
             (case skip_ws r of
                [] \<Rightarrow> None
              | c' # r' \<Rightarrow> if c' = CHR ''}'' then Some (JObj [], r') else map_option (apfst JObj) (parse_members n (c' # r')))
           else if c = CHR ''['' then
             (case skip_ws r of
                [] \<Rightarrow> None
              | c' # r' \<Rightarrow> if c' = CHR '']'' then Some (JArr [], r') else map_option (apfst JArr) (parse_elems n (c' # r')))
           else if c = CHR ''t'' then parse_word ''true'' (JBool True) (c # r)
           else if c = CHR ''f'' then parse_word ''false'' (JBool False) (c # r)
           else if c = CHR ''n'' then parse_word ''null'' JNull (c # r)
           else parse_num (c # r)))"
| "parse_elems 0 s = None"
| "parse_elems (Suc n) s =
     do { (v, r) \<leftarrow> parse_value n s;
          case skip_ws r of
            [] \<Rightarrow> None
          | c # r' \<Rightarrow> if c = CHR '','' then do { (vs, r'') \<leftarrow> parse_elems n r'; Some (v # vs, r'') }
                      else if c = CHR '']'' then Some ([v], r') else None }"
| "parse_members 0 s = None"
| "parse_members (Suc n) s =
     (case skip_ws s of
        [] \<Rightarrow> None
      | q # r \<Rightarrow>
          (if q \<noteq> quote_char then None
           else do { (k, r1) \<leftarrow> parse_chars r;
                     case skip_ws r1 of
                       [] \<Rightarrow> None
                     | c # r2 \<Rightarrow>
                         (if c \<noteq> CHR '':'' then None
                          else do { (v, r3) \<leftarrow> parse_value n r2;
                                    case skip_ws r3 of
                                      [] \<Rightarrow> None
                                    | c' # r4 \<Rightarrow> if c' = CHR '','' then do { (kvs, r5) \<leftarrow> parse_members n r4; Some ((k, v) # kvs, r5) }
                                                 else if c' = CHR ''}'' then Some ([(k, v)], r4) else None }) }))"

definition json_Decode :: "string \<Rightarrow> string + json" where
  "json_Decode s = (case parse_value (Suc (length s)) s of None \<Rightarrow> Inl ''invalid JSON'' | Some (v, rest) \<Rightarrow> Inr v)"

section \<open>Reading back what was written\<close>

lemma skip_ws_break [simp]: "skip_ws (line_break ind d @ s) = skip_ws s"
proof -
  have "skip_ws (replicate d (CHR 0x09) @ s) = skip_ws s" by (induction d) (simp_all add: skip_ws_def is_ws_def)
  then show ?thesis by (simp add: line_break_def skip_ws_def is_ws_def)
qed

lemma skip_ws_char [simp]: "\<not> is_ws c \<Longrightarrow> skip_ws (c # s) = c # s"
  by (simp add: skip_ws_def)

lemma not_ws [simp]:
  "\<not> is_ws quote_char" "\<not> is_ws (CHR ''{'')" "\<not> is_ws (CHR ''['')" "\<not> is_ws (CHR ''}'')" "\<not> is_ws (CHR '']'')"
  "\<not> is_ws (CHR '','')" "\<not> is_ws (CHR '':'')" "\<not> is_ws (CHR ''t'')" "\<not> is_ws (CHR ''f'')" "\<not> is_ws (CHR ''n'')" "\<not> is_ws (CHR ''-'')"
  by (simp_all add: is_ws_def)

lemma parse_value_ws: "skip_ws s = skip_ws s' \<Longrightarrow> parse_value n s = parse_value n s'"
  by (cases n) simp_all

lemma skip_ws_idem [simp]: "skip_ws (skip_ws s) = skip_ws s"
  by (simp add: skip_ws_def dropWhile_idem)

lemma parse_skip [simp]: "parse_elems n (skip_ws s) = parse_elems n s" "parse_members n (skip_ws s) = parse_members n s"
  using parse_value_ws[of "skip_ws s" s] by (cases n; simp)+

text \<open>A number ends where the text goes on with something that cannot continue it.\<close>

definition separated :: "string \<Rightarrow> bool" where
  "separated rest \<longleftrightarrow> (case rest of [] \<Rightarrow> True | c # _ \<Rightarrow> \<not> is_digit c \<and> c \<notin> {CHR ''.'', CHR ''e'', CHR ''E''})"

lemma separated_simps [simp]:
  "separated (CHR '','' # s)" "separated (CHR '']'' # s)" "separated (CHR ''}'' # s)" "separated (CHR 0x0A # s)"
  by (simp_all add: separated_def is_digit_def)

lemma separated_break [simp]: "separated s \<Longrightarrow> separated (line_break ind d @ s)"
  by (simp add: line_break_def)

lemma digits_span:
  "list_all is_digit ds \<Longrightarrow> separated rest \<Longrightarrow> takeWhile is_digit (ds @ rest) = ds \<and> dropWhile is_digit (ds @ rest) = rest"
  by (induction ds) (auto simp: separated_def split: list.splits)

lemma parse_num_Itoa:
  assumes "separated rest"
  shows "parse_num (Itoa i @ rest) = Some (JNum i, rest)"
proof -
  have span: "takeWhile is_digit (dec_digits n @ rest) = dec_digits n" "dropWhile is_digit (dec_digits n @ rest) = rest" for n
    using digits_span[OF dec_digits_all assms] by simp_all
  have lead: "\<not> (hd (dec_digits n) = CHR ''0'' \<and> tl (dec_digits n) \<noteq> [])" for n
    using dec_digits_leading[of n] by (cases "dec_digits n") auto
  have cont: "\<not> (rest \<noteq> [] \<and> hd rest \<in> {CHR ''.'', CHR ''e'', CHR ''E''})" using assms by (cases rest) (auto simp: separated_def)
  show ?thesis
  proof (cases "i < 0")
    case True
    then show ?thesis using span[of "nat (- i)"] lead[of "nat (- i)"] cont by (auto simp: parse_num_def Itoa_def Let_def)
  next
    case False
    obtain c cs where d: "dec_digits (nat i) = c # cs" "c \<noteq> CHR ''-''" using dec_digits_hd by blast
    then have "(case dec_digits (nat i) @ rest of c # cs \<Rightarrow> if c = CHR ''-'' then (True, cs) else (False, dec_digits (nat i) @ rest)
        | [] \<Rightarrow> (False, [])) = (False, dec_digits (nat i) @ rest)" by simp
    then have "parse_num (dec_digits (nat i) @ rest) = Some (JNum (int (nat i)), rest)"
      unfolding parse_num_def Let_def by (simp only: prod.case span if_False) (use lead[of "nat i"] cont in auto)
    then show ?thesis using False by (simp add: Itoa_def)
  qed
qed

lemma Itoa_head: "\<exists>c cs. Itoa i = c # cs \<and> (is_digit c \<or> c = CHR ''-'')"
  using dec_digits_hd[of "nat i"] by (auto simp: Itoa_def)

lemma parse_value_num: "separated rest \<Longrightarrow> parse_value (Suc n) (Itoa i @ rest) = Some (JNum i, rest)"
proof -
  assume sep: "separated rest"
  obtain c cs where c: "Itoa i = c # cs" "is_digit c \<or> c = CHR ''-''" using Itoa_head by blast
  then have "\<not> is_ws c" "c \<notin> {quote_char, CHR ''{'', CHR ''['', CHR ''t'', CHR ''f'', CHR ''n''}"
    by (auto simp: is_ws_def is_digit_def)
  then show ?thesis using parse_num_Itoa[OF sep, of i] c by simp
qed

text \<open>The head of a rendered value tells the decoder what follows.\<close>

lemma render_head: "\<exists>c cs. render ind d v = c # cs \<and> \<not> is_ws c \<and> c \<noteq> CHR '']'' \<and> c \<noteq> CHR ''}''"
proof (cases v)
  case (JNum i)
  with Itoa_head[of i] show ?thesis by (auto simp: is_ws_def is_digit_def)
qed (simp_all add: quoted_def)

lemma skip_render: "skip_ws (render ind d v @ s) = render ind d v @ s"
  using render_head[of ind d v] by auto

lemma parse_elems_render:
  assumes "\<And>v d rest n. v \<in> set vs \<Longrightarrow> separated rest \<Longrightarrow> size v < n \<Longrightarrow> parse_value n (render ind d v @ rest) = Some (v, rest)"
    and "vs \<noteq> []" "size_list size vs < n"
  shows "parse_elems n (render_elems ind d vs @ line_break ind d' @ CHR '']'' # rest) = Some (vs, rest)"
  using assms
proof (induction vs arbitrary: n)
  case (Cons v vs)
  then obtain m where n: "n = Suc m" and m: "size v < m" "size_list size vs < m" by (cases n) auto
  let ?tail = "(if vs = [] then [] else CHR '','' # render_elems ind d vs) @ line_break ind d' @ CHR '']'' # rest"
  have "parse_value m (render_elems ind d (v # vs) @ line_break ind d' @ CHR '']'' # rest) = parse_value m (render ind d v @ ?tail)"
    by (rule parse_value_ws) simp
  also have "\<dots> = Some (v, ?tail)" by (rule Cons.prems(1)) (use m in auto)
  finally have v: "parse_value m (render_elems ind d (v # vs) @ line_break ind d' @ CHR '']'' # rest) = Some (v, ?tail)" .
  show ?case
  proof (cases "vs = []")
    case True
    with v n show ?thesis by (simp del: render_elems.simps)
  next
    case False
    then have "parse_elems m (render_elems ind d vs @ line_break ind d' @ CHR '']'' # rest) = Some (vs, rest)"
      by (intro Cons.IH) (use Cons.prems(1) m in auto)
    with v n False show ?thesis by (simp del: render_elems.simps)
  qed
qed simp

lemma parse_members_render:
  assumes "\<And>k v d rest n. (k, v) \<in> set kvs \<Longrightarrow> separated rest \<Longrightarrow> size v < n \<Longrightarrow> parse_value n (render ind d v @ rest) = Some (v, rest)"
    and "kvs \<noteq> []" "size_list (size_prod (\<lambda>_. 0) size) kvs < n"
  shows "parse_members n (render_members ind d kvs @ line_break ind d' @ CHR ''}'' # rest) = Some (kvs, rest)"
  using assms
proof (induction kvs arbitrary: n)
  case (Cons kv kvs)
  obtain k v where kv: "kv = (k, v)" by (cases kv)
  with Cons.prems(3) obtain m where n: "n = Suc m" and m: "size v < m" "size_list (size_prod (\<lambda>_. 0) size) kvs < m" by (cases n) auto
  let ?tail = "(if kvs = [] then [] else CHR '','' # render_members ind d kvs) @ line_break ind d' @ CHR ''}'' # rest"
  have chars: "parse_chars (concat (map escape_char k) @ quote_char # CHR '':'' # s) = Some (k, CHR '':'' # s)" for s
    by (rule parse_quoted)
  have "parse_value m ((if ind then '' '' else []) @ render ind d v @ ?tail) = parse_value m (render ind d v @ ?tail)"
    by (rule parse_value_ws) (simp add: skip_ws_def is_ws_def)
  also have "\<dots> = Some (v, ?tail)" by (rule Cons.prems(1)) (use m kv in auto)
  finally have v: "parse_value m ((if ind then '' '' else []) @ render ind d v @ ?tail) = Some (v, ?tail)" .
  show ?case
  proof (cases "kvs = []")
    case True
    with v n kv chars show ?thesis by (simp add: quoted_def)
  next
    case False
    then have "parse_members m (render_members ind d kvs @ line_break ind d' @ CHR ''}'' # rest) = Some (kvs, rest)"
    proof (intro Cons.IH)
      fix k v d rest n
      assume "(k, v) \<in> set kvs" "separated rest" "size v < n"
      then show "parse_value n (render ind d v @ rest) = Some (v, rest)" by (intro Cons.prems(1)) auto
    qed (use False m in auto)
    with v n kv chars False show ?thesis by (simp add: quoted_def)
  qed
qed simp

lemma parse_render: "separated rest \<Longrightarrow> size v < n \<Longrightarrow> parse_value n (render ind d v @ rest) = Some (v, rest)"
proof (induction v arbitrary: d rest n)
  case (JNum i)
  then show ?case using parse_value_num by (cases n) auto
next
  case (JStr s)
  then show ?case using parse_quoted by (cases n) (auto simp: quoted_def)
next
  case (JArr vs)
  then obtain m where n: "n = Suc m" "size_list size vs < m" by (cases n) auto
  show ?case
  proof (cases "vs = []")
    case True
    then show ?thesis using n by simp
  next
    case False
    have e: "parse_elems m (render_elems ind (Suc d) vs @ line_break ind d @ CHR '']'' # rest) = Some (vs, rest)"
      by (rule parse_elems_render) (use JArr.IH n(2) False in auto)
    let ?s = "render_elems ind (Suc d) vs @ line_break ind d @ CHR '']'' # rest"
    obtain c cs where c: "skip_ws ?s = c # cs" "c \<noteq> CHR '']''"
      using False render_head[of ind "Suc d" "hd vs"] by (cases vs) auto
    then have "parse_elems m (c # cs) = Some (vs, rest)" using e parse_skip(1)[of m ?s] by simp
    then show ?thesis using c n(1) False by simp
  qed
next
  case (JObj kvs)
  then obtain m where n: "n = Suc m" "size_list (size_prod (\<lambda>_. 0) size) kvs < m" by (cases n) auto
  show ?case
  proof (cases "kvs = []")
    case True
    then show ?thesis using n by simp
  next
    case False
    have e: "parse_members m (render_members ind (Suc d) kvs @ line_break ind d @ CHR ''}'' # rest) = Some (kvs, rest)"
    proof (rule parse_members_render)
      fix k v d rest n
      assume "(k, v) \<in> set kvs" "separated rest" "size v < n"
      then show "parse_value n (render ind d v @ rest) = Some (v, rest)" using JObj.IH[of "(k, v)" v] by simp
    qed (use n(2) False in auto)
    let ?s = "render_members ind (Suc d) kvs @ line_break ind d @ CHR ''}'' # rest"
    obtain cs where c: "skip_ws ?s = quote_char # cs"
      using False by (cases kvs) (auto simp: quoted_def)
    then have "parse_members m (quote_char # cs) = Some (kvs, rest)" using e parse_skip(2)[of m ?s] by simp
    then show ?thesis using c n(1) False by simp
  qed
qed (case_tac n; simp add: parse_word_def)+

text \<open>The text is long enough for the fuel of the decoder.\<close>

lemma render_size:
  "size v < length (render ind d v)"
  "vs \<noteq> [] \<Longrightarrow> size_list size vs \<le> length (render_elems ind d vs)"
  "kvs \<noteq> [] \<Longrightarrow> size_list (size_prod (\<lambda>_. 0) size) kvs \<le> length (render_members ind d kvs)"
proof (induction ind d v and ind d vs and ind d kvs rule: render_render_elems_render_members.induct)
  case (3 ind d i)
  then show ?case using Itoa_head[of i] by auto
qed (auto simp: quoted_def)

text \<open>
  The decoder returns the value that was encoded, whatever follows it in the text.
\<close>

lemma json_Decode_Encode: "json_Decode (json_Encode ind v @ rest) = Inr v"
proof -
  have "size v < Suc (length (json_Encode ind v @ rest))"
    using render_size(1)[of v ind 0] by (simp add: json_Encode_def)
  from parse_render[OF _ this, of "CHR 0x0A # rest" ind 0] show ?thesis by (simp add: json_Decode_def json_Encode_def)
qed

section \<open>The fuel of the decoder\<close>

lemma skip_ws_length: "length (skip_ws s) \<le> length s"
  by (simp add: skip_ws_def length_dropWhile_le)

lemma skip_ws_Cons: "skip_ws s = c # r \<Longrightarrow> length r < length s"
  using skip_ws_length[of s] by simp

lemma parse_chars_length: "parse_chars s = Some (x, r) \<Longrightarrow> length r < length s"
proof (induction "length s" arbitrary: s x r rule: less_induct)
  case less
  obtain c cs where s: "s = c # cs" using less.prems by (cases s) auto
  have later: "length r < length s" if p: "map_option (apfst (Cons a)) (parse_chars t) = Some (x, r)" and l: "length t < length s" for a t
  proof -
    obtain y where "parse_chars t = Some (y, r)" using p by (cases "parse_chars t") auto
    from less.hyps[OF l this] l show ?thesis by simp
  qed
  consider "c = quote_char" | (esc) "c = backslash" | "c \<noteq> quote_char" "c \<noteq> backslash" by blast
  then show ?case
  proof cases
    case esc
    obtain e t where cs: "cs = e # t" using less.prems esc s by (cases cs) simp_all
    show ?thesis
    proof (cases "simple_escape e")
      case (Some a)
      then show ?thesis using less.prems esc s cs later[of a t] by simp
    next
      case None
      then obtain h1 h2 h3 h4 t' a where "t = h1 # h2 # h3 # h4 # t'" "map_option (apfst (Cons a)) (parse_chars t') = Some (x, r)"
        using less.prems esc s cs by (simp split: if_splits list.splits option.splits)
      then show ?thesis using later[of a t'] s cs by simp
    qed
  qed (use less.prems s later[of c cs] in \<open>simp_all split: if_splits\<close>)
qed

lemma parse_num_length: "parse_num s = Some (x, r) \<Longrightarrow> length r < length s"
  using length_dropWhile_le[of is_digit]
  by (auto simp: parse_num_def Let_def less_Suc_eq_le split: list.splits if_splits)

text \<open>A text that is parsed with any fuel is parsed with as much as the characters it takes.\<close>

definition needs :: "(nat \<Rightarrow> string \<Rightarrow> ('a \<times> string) option) \<Rightarrow> string \<Rightarrow> 'a \<times> string \<Rightarrow> bool" where
  "needs p s x \<longleftrightarrow> length (snd x) < length s \<and> (\<forall>n. length s \<le> n + length (snd x) \<longrightarrow> p n s = Some x)"

lemma needsI:
  assumes "length r < length s" "\<And>n. length s \<le> Suc n + length r \<Longrightarrow> p (Suc n) s = Some (v, r)"
  shows "needs p s (v, r)"
  unfolding needs_def
proof (intro conjI allI impI)
  fix n assume "length s \<le> n + length (snd (v, r))"
  with assms show "p n s = Some (v, r)" by (cases n) auto
qed (simp add: assms)

lemma needsD: "needs p s (v, r) \<Longrightarrow> length r < length s" "needs p s (v, r) \<Longrightarrow> length s \<le> n + length r \<Longrightarrow> p n s = Some (v, r)"
  by (simp_all add: needs_def)

lemma parse_value_needs:
  assumes "\<And>s v r. parse_elems m s = Some (v, r) \<Longrightarrow> needs parse_elems s (v, r)"
    and "\<And>s v r. parse_members m s = Some (v, r) \<Longrightarrow> needs parse_members s (v, r)"
    and "parse_value (Suc m) s = Some (v, r)"
  shows "needs parse_value s (v, r)"
proof -
  obtain c t where c: "skip_ws s = c # t" using assms(3) by (auto split: list.splits)
  then have len: "length t < length s" by (rule skip_ws_Cons)
  consider (str) "c = quote_char" | (obj) "c = CHR ''{''" | (arr) "c = CHR ''[''" | (other) "c \<notin> {quote_char, CHR ''{'', CHR ''[''}" by blast
  then show ?thesis
  proof cases
    case str
    with assms(3) c obtain x where "parse_chars t = Some (x, r)" "v = JStr x" by (auto simp: map_option_case split: option.splits)
    with str c len show ?thesis by (intro needsI) (auto dest: parse_chars_length)
  next
    case obj
    with assms(3) c obtain c' t' where c': "skip_ws t = c' # t'" by (auto split: list.splits)
    show ?thesis
    proof (cases "c' = CHR ''}''")
      case True
      with assms(3) c c' obj have "v = JObj []" "r = t'" by auto
      with True c c' obj len skip_ws_Cons[OF c'] show ?thesis by (intro needsI) auto
    next
      case False
      with assms(3) c c' obj obtain kvs where p: "parse_members m (c' # t') = Some (kvs, r)" "v = JObj kvs" by (auto simp: map_option_case split: option.splits)
      from needsD[OF assms(2)[OF p(1)]] False c c' obj len skip_ws_Cons[OF c'] p(2) show ?thesis
        by (intro needsI) auto
    qed
  next
    case arr
    with assms(3) c obtain c' t' where c': "skip_ws t = c' # t'" by (auto split: list.splits)
    show ?thesis
    proof (cases "c' = CHR '']''")
      case True
      with assms(3) c c' arr have "v = JArr []" "r = t'" by auto
      with True c c' arr len skip_ws_Cons[OF c'] show ?thesis by (intro needsI) auto
    next
      case False
      with assms(3) c c' arr obtain vs where p: "parse_elems m (c' # t') = Some (vs, r)" "v = JArr vs" by (auto simp: map_option_case split: option.splits)
      from needsD[OF assms(1)[OF p(1)]] False c c' arr len skip_ws_Cons[OF c'] p(2) show ?thesis
        by (intro needsI) auto
    qed
  next
    case other
    have r: "length r < length (c # t)" 
      using assms(3) c other parse_num_length[of "c # t"] by (auto simp: parse_word_def split: if_splits)
    then show ?thesis using assms(3) c other skip_ws_length[of s] by (intro needsI) auto
  qed
qed

lemma parse_elems_needs:
  assumes "\<And>s v r. parse_value m s = Some (v, r) \<Longrightarrow> needs parse_value s (v, r)"
    and "\<And>s v r. parse_elems m s = Some (v, r) \<Longrightarrow> needs parse_elems s (v, r)"
    and "parse_elems (Suc m) s = Some (vs, r)"
  shows "needs parse_elems s (vs, r)"
proof -
  obtain v t where t: "parse_value m s = Some (v, t)" using assms(3) by (auto simp: bind_eq_Some_conv)
  note V = needsD[OF assms(1)[OF t]]
  obtain c t' where c: "skip_ws t = c # t'" using assms(3) t by (auto split: list.splits)
  have len: "length t' < length t" using c by (rule skip_ws_Cons)
  show ?thesis
  proof (cases "c = CHR '',''")
    case True
    with assms(3) t c obtain ws where ws: "parse_elems m t' = Some (ws, r)" "vs = v # ws" by (auto simp: bind_eq_Some_conv)
    from needsD[OF assms(2)[OF ws(1)]] V len c True ws(2) show ?thesis by (intro needsI) auto
  next
    case False
    with assms(3) t c have "r = t'" "vs = [v]" "c = CHR '']''" by (auto split: if_splits)
    with V len c show ?thesis by (intro needsI) auto
  qed
qed

lemma parse_members_needs:
  assumes "\<And>s v r. parse_value m s = Some (v, r) \<Longrightarrow> needs parse_value s (v, r)"
    and "\<And>s v r. parse_members m s = Some (v, r) \<Longrightarrow> needs parse_members s (v, r)"
    and "parse_members (Suc m) s = Some (kvs, r)"
  shows "needs parse_members s (kvs, r)"
proof -
  obtain q r0 where q: "skip_ws s = q # r0" using assms(3) by (cases "skip_ws s") simp_all
  have quote: "q = quote_char" using assms(3) q by (cases "q = quote_char") simp_all
  obtain k r1 where k: "parse_chars r0 = Some (k, r1)" using assms(3) q quote by (cases "parse_chars r0") auto
  obtain c0 r2 where c0: "skip_ws r1 = c0 # r2" using assms(3) q quote k by (cases "skip_ws r1") simp_all
  have colon: "c0 = CHR '':''" using assms(3) q quote k c0 by (cases "c0 = CHR '':''") simp_all
  obtain v r3 where v: "parse_value m r2 = Some (v, r3)" using assms(3) q quote k c0 colon by (cases "parse_value m r2") auto
  obtain c r4 where c: "skip_ws r3 = c # r4" using assms(3) q quote k c0 colon v by (cases "skip_ws r3") simp_all
  note 0 = q[unfolded quote] k c0[unfolded colon] v c
  have tail: "(if c = CHR '','' then do { (kvs, r5) \<leftarrow> parse_members m r4; Some ((k, v) # kvs, r5) } else if c = CHR ''}'' then Some ([(k, v)], r4) else None) = Some (kvs, r)"
    using assms(3) 0 by simp
  note V = needsD[OF assms(1)[OF 0(4)]]
  have len: "length r0 < length s" "length r1 < length r0" "length r2 < length r1" "length r4 < length r3"
    by (rule skip_ws_Cons[OF 0(1)] parse_chars_length[OF 0(2)] skip_ws_Cons[OF 0(3)] skip_ws_Cons[OF 0(5)])+
  show ?thesis
  proof (cases "c = CHR '',''")
    case True
    with tail obtain ms where ms: "parse_members m r4 = Some (ms, r)" "kvs = (k, v) # ms" by (auto simp: bind_eq_Some_conv)
    from needsD[OF assms(2)[OF ms(1)]] V len 0 True ms(2) show ?thesis by (intro needsI) auto
  next
    case False
    with tail have "r = r4" "kvs = [(k, v)]" "c = CHR ''}''" by (auto split: if_splits)
    with V len 0 show ?thesis by (intro needsI) auto
  qed
qed

lemma parse_needs:
  "(parse_value m s = Some (v, r) \<longrightarrow> needs parse_value s (v, r)) \<and>
   (parse_elems m s = Some (vs, r) \<longrightarrow> needs parse_elems s (vs, r)) \<and>
   (parse_members m s = Some (kvs, r) \<longrightarrow> needs parse_members s (kvs, r))"
proof (induction m arbitrary: s v vs kvs r)
  case (Suc m)
  have IH: "parse_value m s = Some (v, r) \<Longrightarrow> needs parse_value s (v, r)" "parse_elems m s = Some (vs, r) \<Longrightarrow> needs parse_elems s (vs, r)"
      "parse_members m s = Some (kvs, r) \<Longrightarrow> needs parse_members s (kvs, r)" for s v vs kvs r
    using Suc[of s v r vs kvs] by simp_all
  show ?case
  proof (intro conjI impI)
    assume "parse_value (Suc m) s = Some (v, r)"
    then show "needs parse_value s (v, r)" by (rule parse_value_needs[rotated 2]) (erule IH)+
  next
    assume "parse_elems (Suc m) s = Some (vs, r)"
    then show "needs parse_elems s (vs, r)" by (rule parse_elems_needs[rotated 2]) (erule IH)+
  next
    assume "parse_members (Suc m) s = Some (kvs, r)"
    then show "needs parse_members s (kvs, r)" by (rule parse_members_needs[rotated 2]) (erule IH)+
  qed
qed simp

text \<open>So \<open>json_Decode\<close> refuses no text for want of fuel.\<close>

lemma json_Decode_fuel: "(\<exists>m r. parse_value m s = Some (v, r)) \<longleftrightarrow> json_Decode s = Inr v"
proof
  assume "\<exists>m r. parse_value m s = Some (v, r)"
  then obtain m r where "parse_value m s = Some (v, r)" by blast
  then have "needs parse_value s (v, r)" using parse_needs[of m s v r] by simp
  then have "parse_value (Suc (length s)) s = Some (v, r)" by (rule needsD(2)) simp
  then show "json_Decode s = Inr v" by (simp add: json_Decode_def)
next
  assume "json_Decode s = Inr v"
  then obtain r where "parse_value (Suc (length s)) s = Some (v, r)" by (auto simp: json_Decode_def simp del: parse_value.simps split: option.splits)
  then show "\<exists>m r. parse_value m s = Some (v, r)" by blast
qed

section \<open>Decoding into structs\<close>

text \<open>
  A key of the object sets the field with that name, whatever the case of its letters; the last
  such key wins, an absent field keeps its zero value, and \<open>null\<close> leaves it unchanged. A value of
  the wrong kind is an error.
\<close>

definition lower :: "char \<Rightarrow> char" where
  "lower c = (if 65 \<le> (of_char c :: nat) \<and> (of_char c :: nat) \<le> 90 then char_of ((of_char c :: nat) + 32) else c)"

definition json_field :: "string \<Rightarrow> (string \<times> json) list \<Rightarrow> json" where
  "json_field name kvs =
     (case map_of (rev (map (apfst (map lower)) kvs)) (map lower name) of Some v \<Rightarrow> v | None \<Rightarrow> JNull)"

definition and_then :: "'e + 'a \<Rightarrow> ('a \<Rightarrow> 'e + 'b) \<Rightarrow> 'e + 'b" where
  "and_then r f = (case r of Inl e \<Rightarrow> Inl e | Inr x \<Rightarrow> f x)"

lemma and_then_simps [simp]: "and_then (Inl e) f = Inl e" "and_then (Inr x) f = f x"
  by (simp_all add: and_then_def)

lemma and_then_Inr: "and_then r f = Inr y \<longleftrightarrow> (\<exists>x. r = Inr x \<and> f x = Inr y)"
  by (cases r) simp_all

fun json_object :: "json \<Rightarrow> string + (string \<times> json) list" where
  "json_object (JObj kvs) = Inr kvs"
| "json_object JNull = Inr []"
| "json_object _ = Inl ''json: cannot unmarshal into a struct''"

fun json_int :: "json \<Rightarrow> string + int" where
  "json_int (JNum i) = (if in_int64 i then Inr i else Inl ''json: number out of range'')"
| "json_int JNull = Inr 0"
| "json_int _ = Inl ''json: cannot unmarshal into an int''"

fun json_bool :: "json \<Rightarrow> string + bool" where
  "json_bool (JBool b) = Inr b"
| "json_bool JNull = Inr False"
| "json_bool _ = Inl ''json: cannot unmarshal into a bool''"

text \<open>A byte slice is written in base64.\<close>

fun json_bytes :: "json \<Rightarrow> string + bytes" where
  "json_bytes (JStr s) = b64_Decode s"
| "json_bytes JNull = Inr []"
| "json_bytes _ = Inl ''json: cannot unmarshal into a byte slice''"

fun json_list :: "(json \<Rightarrow> string + 'a) \<Rightarrow> json list \<Rightarrow> string + 'a list" where
  "json_list f [] = Inr []"
| "json_list f (v # vs) = and_then (f v) (\<lambda>x. and_then (json_list f vs) (\<lambda>xs. Inr (x # xs)))"

fun json_slice :: "(json \<Rightarrow> string + 'a) \<Rightarrow> json \<Rightarrow> string + 'a list" where
  "json_slice f (JArr vs) = json_list f vs"
| "json_slice f JNull = Inr []"
| "json_slice f _ = Inl ''json: cannot unmarshal into a slice''"

lemma json_list_map: "(\<And>x. x \<in> set xs \<Longrightarrow> f (g x) = Inr x) \<Longrightarrow> json_list f (map g xs) = Inr xs"
  by (induction xs) simp_all

text \<open>A \<open>map[string]interface{}\<close>: one entry per key, the last value winning.\<close>

definition json_map :: "(string \<times> json) list \<Rightarrow> (string \<times> json) list" where
  "json_map kvs = foldl (\<lambda>m (k, v). AList.update k v m) [] kvs"

lemma update_fresh: "k \<notin> fst ` set m \<Longrightarrow> AList.update k v m = m @ [(k, v)]"
  by (induction m) auto

lemma json_map_distinct: "distinct (map fst kvs) \<Longrightarrow> json_map kvs = kvs"
proof (induction kvs rule: rev_induct)
  case (snoc kv kvs)
  then have "fst kv \<notin> fst ` set kvs" by simp
  with snoc show ?case by (cases kv) (simp add: json_map_def update_fresh)
qed (simp add: json_map_def)

lemma json_map_keys: "distinct (map fst (json_map kvs)) \<and> fst ` set (json_map kvs) = fst ` set kvs"
proof (induction kvs rule: rev_induct)
  case (snoc kv kvs)
  then show ?case by (cases kv) (auto simp: json_map_def distinct_update dom_update)
qed (simp add: json_map_def)

lemma json_map_of: "map_of (json_map kvs) = map_of (rev kvs)"
proof (induction kvs rule: rev_induct)
  case (snoc kv kvs)
  then show ?case by (cases kv) (simp add: json_map_def update_conv')
qed (simp add: json_map_def)

end
