(* ===== verification/Keys.thy ===== *)
theory Keys
  imports Crypto Json
begin

text \<open>
  The key encodings of src/crypto/crypto.go: Ed25519 keys in hexadecimal, and the private share
  and the public polynomial of the threshold scheme as JSON with base64 fields. kyber's
  binary forms are parameters (\<open>scalar_MarshalBinary\<close>, \<open>point_MarshalBinary\<close> and their inverses in
  \<open>crypto_ext\<close>); the named hypothesis \<open>kyber_ok\<close> is their documented round trip.
\<close>

section \<open>Ed25519 keys\<close>

definition EncodePublicKey :: "PublickKey \<Rightarrow> string" where
  "EncodePublicKey pub = hex_Encode (Pubkey pub)"

definition DecodePublicKey :: "string \<Rightarrow> string + PublickKey" where
  "DecodePublicKey data = (case hex_Decode data of Inl e \<Rightarrow> Inl e | Inr pub \<Rightarrow> Inr \<lparr>Pubkey = pub\<rparr>)"

definition EncodePrivateKey :: "PrivateKey \<Rightarrow> string" where
  "EncodePrivateKey pri = hex_Encode (Prikey pri)"

definition DecodePrivateKey :: "string \<Rightarrow> string + PrivateKey" where
  "DecodePrivateKey data = (case hex_Decode data of Inl e \<Rightarrow> Inl e | Inr pri \<Rightarrow> Inr \<lparr>Prikey = pri\<rparr>)"

lemma DecodePublicKey_Encode [simp]: "DecodePublicKey (EncodePublicKey pub) = Inr pub"
  by (simp add: DecodePublicKey_def EncodePublicKey_def)

lemma DecodePrivateKey_Encode [simp]: "DecodePrivateKey (EncodePrivateKey pri) = Inr pri"
  by (simp add: DecodePrivateKey_def EncodePrivateKey_def)

section \<open>The private share\<close>

record TSPartialMarshalled =
  tpm_I :: int
  tpm_Binary :: bytes

definition MarshallTSPartialKey :: "'k crypto_ext \<Rightarrow> 'k PriShare \<Rightarrow> string + TSPartialMarshalled" where
  "MarshallTSPartialKey cx priShare =
     (case scalar_MarshalBinary cx (ps_V priShare) of
        Inl e \<Rightarrow> Inl e
      | Inr shareAsBytes \<Rightarrow> Inr \<lparr>tpm_I = ps_I priShare, tpm_Binary = shareAsBytes\<rparr>)"

definition UnMarshallTSPartialKey :: "'k crypto_ext \<Rightarrow> TSPartialMarshalled \<Rightarrow> string + 'k PriShare" where
  "UnMarshallTSPartialKey cx par =
     (case scalar_UnmarshalBinary cx (tpm_Binary par) of
        Inl e \<Rightarrow> Inl e
      | Inr v \<Rightarrow> Inr \<lparr>ps_I = tpm_I par, ps_V = v\<rparr>)"

text \<open>\<open>encode\<close> and \<open>decode\<close> at the two types they are used at.\<close>

definition encode_partial :: "TSPartialMarshalled \<Rightarrow> string" where
  "encode_partial t = json_Encode False (JObj [(''I'', JNum (tpm_I t)), (''Binary'', JStr (b64_Encode (tpm_Binary t)))])"

definition decode_partial :: "string \<Rightarrow> string + TSPartialMarshalled" where
  "decode_partial s =
     and_then (json_Decode s) (\<lambda>v.
     and_then (json_object v) (\<lambda>kvs.
     and_then (json_int (json_field ''I'' kvs)) (\<lambda>i.
     and_then (json_bytes (json_field ''Binary'' kvs)) (\<lambda>b.
     Inr \<lparr>tpm_I = i, tpm_Binary = b\<rparr>))))"

definition EncodeTSPartialKey :: "'k crypto_ext \<Rightarrow> 'k PriShare \<Rightarrow> string + string" where
  "EncodeTSPartialKey cx priShare =
     (case MarshallTSPartialKey cx priShare of Inl e \<Rightarrow> Inl e | Inr mtspk \<Rightarrow> Inr (encode_partial mtspk))"

definition DecodeTSPartialKey :: "'k crypto_ext \<Rightarrow> string \<Rightarrow> string + 'k PriShare" where
  "DecodeTSPartialKey cx data =
     (case decode_partial data of Inl e \<Rightarrow> Inl e | Inr par \<Rightarrow> UnMarshallTSPartialKey cx par)"

definition EqualTSPartialKey :: "'k crypto_ext \<Rightarrow> 'k PriShare \<Rightarrow> 'k PriShare \<Rightarrow> bool" where
  "EqualTSPartialKey cx p1 p2 \<longleftrightarrow> ps_I p1 = ps_I p2 \<and> prishare_Hash cx p1 = prishare_Hash cx p2"

section \<open>The public polynomial\<close>

record TSPublicMarshalled =
  BaseBytes :: bytes
  CommitBytes :: "bytes list"

fun marshal_all :: "'k crypto_ext \<Rightarrow> 'k list \<Rightarrow> string + bytes list" where
  "marshal_all cx [] = Inr []"
| "marshal_all cx (p # ps) = and_then (point_MarshalBinary cx p) (\<lambda>b. and_then (marshal_all cx ps) (\<lambda>bs. Inr (b # bs)))"

fun unmarshal_all :: "'k crypto_ext \<Rightarrow> bytes list \<Rightarrow> string + 'k list" where
  "unmarshal_all cx [] = Inr []"
| "unmarshal_all cx (b # bs) = and_then (point_UnmarshalBinary cx b) (\<lambda>p. and_then (unmarshal_all cx bs) (\<lambda>ps. Inr (p # ps)))"

definition MarshallTSPublicKey :: "'k crypto_ext \<Rightarrow> 'k \<Rightarrow> string + TSPublicMarshalled" where
  "MarshallTSPublicKey cx pubKey =
     (case pubpoly_Info cx pubKey of
        (base, commits) \<Rightarrow>
          and_then (point_MarshalBinary cx base) (\<lambda>baseAsBytes.
          and_then (marshal_all cx commits) (\<lambda>commitBytes.
          Inr \<lparr>BaseBytes = baseAsBytes, CommitBytes = commitBytes\<rparr>)))"

definition UnMarshallTSPublicKey :: "'k crypto_ext \<Rightarrow> TSPublicMarshalled \<Rightarrow> string + 'k" where
  "UnMarshallTSPublicKey cx tspm =
     and_then (point_UnmarshalBinary cx (BaseBytes tspm)) (\<lambda>baseDecoded.
     and_then (unmarshal_all cx (CommitBytes tspm)) (\<lambda>commitsDecoded.
     Inr (share_NewPubPoly cx baseDecoded commitsDecoded)))"

definition encode_public :: "TSPublicMarshalled \<Rightarrow> string" where
  "encode_public t =
     json_Encode False (JObj [(''BaseBytes'', JStr (b64_Encode (BaseBytes t))),
       (''CommitBytes'', JArr (map (JStr \<circ> b64_Encode) (CommitBytes t)))])"

definition decode_public :: "string \<Rightarrow> string + TSPublicMarshalled" where
  "decode_public s =
     and_then (json_Decode s) (\<lambda>v.
     and_then (json_object v) (\<lambda>kvs.
     and_then (json_bytes (json_field ''BaseBytes'' kvs)) (\<lambda>b.
     and_then (json_slice json_bytes (json_field ''CommitBytes'' kvs)) (\<lambda>cs.
     Inr \<lparr>BaseBytes = b, CommitBytes = cs\<rparr>))))"

definition EncodeTSPublicKey :: "'k crypto_ext \<Rightarrow> 'k \<Rightarrow> string + string" where
  "EncodeTSPublicKey cx pubkey =
     (case MarshallTSPublicKey cx pubkey of Inl e \<Rightarrow> Inl e | Inr tspm \<Rightarrow> Inr (encode_public tspm))"

definition DecodeTSPublicKey :: "'k crypto_ext \<Rightarrow> string \<Rightarrow> string + 'k" where
  "DecodeTSPublicKey cx data =
     (case decode_public data of Inl e \<Rightarrow> Inl e | Inr tspm \<Rightarrow> UnMarshallTSPublicKey cx tspm)"

section \<open>Round trips\<close>

text \<open>
  The documented behaviour of kyber: a point or scalar unmarshals from its own binary form,
  and a public polynomial is determined by its base point and its commitments.
\<close>

definition kyber_ok :: "'k crypto_ext \<Rightarrow> bool" where
  "kyber_ok cx \<longleftrightarrow>
     (\<forall>v b. scalar_MarshalBinary cx v = Inr b \<longrightarrow> scalar_UnmarshalBinary cx b = Inr v) \<and>
     (\<forall>p b. point_MarshalBinary cx p = Inr b \<longrightarrow> point_UnmarshalBinary cx b = Inr p) \<and>
     (\<forall>k. share_NewPubPoly cx (fst (pubpoly_Info cx k)) (snd (pubpoly_Info cx k)) = k)"

lemma decode_partial_encode: "in_int64 (tpm_I t) \<Longrightarrow> decode_partial (encode_partial t @ rest) = Inr t"
  by (simp add: decode_partial_def encode_partial_def json_Decode_Encode json_field_def lower_def)

lemma decode_public_encode: "decode_public (encode_public t @ rest) = Inr t"
  by (simp add: decode_public_def encode_public_def json_Decode_Encode json_field_def lower_def comp_def json_list_map)

lemma unmarshal_marshal: "kyber_ok cx \<Longrightarrow> marshal_all cx ps = Inr bs \<Longrightarrow> unmarshal_all cx bs = Inr ps"
  by (induction ps arbitrary: bs) (auto simp: and_then_Inr kyber_ok_def)

lemma DecodeTSPartialKey_Encode:
  assumes "kyber_ok cx" "EncodeTSPartialKey cx p = Inr data" "in_int64 (ps_I p)"
  shows "DecodeTSPartialKey cx (data @ rest) = Inr p"
proof -
  from assms(2) obtain b where b: "scalar_MarshalBinary cx (ps_V p) = Inr b"
    and data: "data = encode_partial \<lparr>tpm_I = ps_I p, tpm_Binary = b\<rparr>"
    by (auto simp: EncodeTSPartialKey_def MarshallTSPartialKey_def split: sum.splits)
  have "scalar_UnmarshalBinary cx b = Inr (ps_V p)" using assms(1) b by (simp add: kyber_ok_def)
  then show ?thesis using assms(3) by (simp add: DecodeTSPartialKey_def data decode_partial_encode UnMarshallTSPartialKey_def)
qed

lemma DecodeTSPublicKey_Encode:
  assumes "kyber_ok cx" "EncodeTSPublicKey cx k = Inr data"
  shows "DecodeTSPublicKey cx (data @ rest) = Inr k"
proof -
  obtain base commits where i: "pubpoly_Info cx k = (base, commits)" by (cases "pubpoly_Info cx k")
  from assms(2) obtain b cs where b: "point_MarshalBinary cx base = Inr b" "marshal_all cx commits = Inr cs"
    and data: "data = encode_public \<lparr>BaseBytes = b, CommitBytes = cs\<rparr>"
    by (auto simp: EncodeTSPublicKey_def MarshallTSPublicKey_def i and_then_Inr split: sum.splits)
  have "point_UnmarshalBinary cx b = Inr base" using assms(1) b by (simp add: kyber_ok_def)
  moreover have "share_NewPubPoly cx base commits = k" using assms(1) i unfolding kyber_ok_def by (metis fst_conv snd_conv)
  ultimately show ?thesis using unmarshal_marshal[OF assms(1) b(2)]
    by (simp add: DecodeTSPublicKey_def data decode_public_encode UnMarshallTSPublicKey_def)
qed

lemma EqualTSPartialKey_decoded:
  assumes "kyber_ok cx" "EncodeTSPartialKey cx p = Inr data" "in_int64 (ps_I p)" "DecodeTSPartialKey cx data = Inr q"
  shows "EqualTSPartialKey cx p q"
  using DecodeTSPartialKey_Encode[OF assms(1-3), of "[]"] assms(4) by (simp add: EqualTSPartialKey_def)

end
