(* ===== verification/Config.thy ===== *)
theory Config
  imports Keys Committee Pool "HOL-Library.List_Lexorder" "HOL-Library.Char_ord" "HOL-Library.Multiset"
begin

text \<open>
  src/config/config.go: writing and reading the key, committee and parameter files.

  A file system maps names to texts. \<open>fs_writable\<close> says of which names a file can be opened for writing
  and written in full; both panics of \<open>savetoFile\<close>, at \<open>OpenFile\<close> and at \<open>Encode\<close>, are the case
  that it does not hold. \<open>savetoFile\<close> opens without truncation, so a file that was
  longer keeps its old end. The decoder reads only the first value of a file, so what was written
  is what is read. The keys that \<open>GenED25519Keys\<close> and \<open>GenTSKeys\<close> draw at random are parameters
  (\<open>gen\<close>, \<open>shares\<close>, \<open>pub\<close>).
\<close>

section \<open>Files\<close>

record filesystem =
  fs_files :: "string \<Rightarrow> string option"
  fs_writable :: "string \<Rightarrow> bool"

definition savetoFile :: "string \<Rightarrow> json \<Rightarrow> filesystem \<Rightarrow> filesystem option" where
  "savetoFile filename data fs =
     (if \<not> fs_writable fs filename then None
      else let text = json_Encode True data;
               old = (case fs_files fs filename of None \<Rightarrow> [] | Some t \<Rightarrow> t) in
           Some (fs\<lparr>fs_files := (fs_files fs)(filename \<mapsto> text @ drop (length text) old)\<rparr>))"

text \<open>A missing file makes \<open>readFromFile\<close> panic; a text that is not an object is an error.\<close>

definition readFromFile :: "string \<Rightarrow> filesystem \<Rightarrow> (string + (string \<times> json) list) option" where
  "readFromFile filename fs =
     do { text \<leftarrow> fs_files fs filename;
          Some (and_then (json_Decode text) (\<lambda>v. and_then (json_object v) (\<lambda>kvs. Inr (json_map kvs)))) }"

text \<open>The type assertions on the values of the map; they panic on another type or a missing key.\<close>

definition assert_string :: "json option \<Rightarrow> string option" where
  "assert_string v = (case v of Some (JStr s) \<Rightarrow> Some s | _ \<Rightarrow> None)"

definition assert_map :: "json option \<Rightarrow> (string \<times> json) list option" where
  "assert_map v = (case v of Some (JObj kvs) \<Rightarrow> Some (json_map kvs) | _ \<Rightarrow> None)"

text \<open>
  A number in an \<open>interface{}\<close> is a \<open>float64\<close>: an integer beyond 53 bits is rounded to the nearest
  representable one, ties to even. Converting a value out of range back to \<open>int\<close> gives, on
  amd64, the least integer.
\<close>

definition round_float64 :: "int \<Rightarrow> int" where
  "round_float64 i =
     (if \<bar>i\<bar> \<le> 2 ^ 53 then i
      else let k = nat (int (length (bin_digits (nat \<bar>i\<bar>))) - 53);
               q = \<bar>i\<bar> div 2 ^ k; r = \<bar>i\<bar> mod 2 ^ k;
               q' = (if 2 * r > 2 ^ k \<or> 2 * r = 2 ^ k \<and> odd q then q + 1 else q) in
           sgn i * q' * 2 ^ k)"

definition assert_float :: "json option \<Rightarrow> int option" where
  "assert_float v = (case v of Some (JNum i) \<Rightarrow> Some (round_float64 i) | _ \<Rightarrow> None)"

definition int_of_float :: "int \<Rightarrow> int" where
  "int_of_float x = (if in_int64 x then x else - (2 ^ 63))"

section \<open>Key files\<close>

definition key_file :: "string \<Rightarrow> nat \<Rightarrow> string" where
  "key_file path i = path @ ''/.node-key-'' @ dec_digits i @ ''.json''"

text \<open>The loop that writes one file per node; \<open>content i\<close> is \<open>None\<close> if computing it panics.\<close>

fun write_files :: "(nat \<Rightarrow> string) \<Rightarrow> (nat \<Rightarrow> json option) \<Rightarrow> nat list \<Rightarrow> filesystem \<Rightarrow> filesystem option" where
  "write_files name content [] fs = Some fs"
| "write_files name content (i # is) fs =
     do { data \<leftarrow> content i; fs' \<leftarrow> savetoFile (name i) data fs; write_files name content is fs' }"

text \<open>The encoder sorts the keys of a map.\<close>

definition key_json :: "PrivateKey \<times> PublickKey \<Rightarrow> json" where
  "key_json kp = JObj [(''private'', JStr (EncodePrivateKey (fst kp))), (''public'', JStr (EncodePublicKey (snd kp)))]"

definition GenerateKeyFiles :: "(nat \<Rightarrow> PrivateKey \<times> PublickKey) \<Rightarrow> int \<Rightarrow> string \<Rightarrow> filesystem \<Rightarrow> filesystem option" where
  "GenerateKeyFiles gen pairs path fs = write_files (key_file path) (\<lambda>i. Some (key_json (gen i))) [0..<nat pairs] fs"

definition GenKeysFromFile :: "string \<Rightarrow> filesystem \<Rightarrow> (string + PublickKey \<times> PrivateKey) option" where
  "GenKeysFromFile filename fs =
     do { r \<leftarrow> readFromFile filename fs;
          case r of
            Inl e \<Rightarrow> Some (Inl e)
          | Inr data \<Rightarrow>
              do { pub \<leftarrow> assert_string (map_of data ''public'');
                   pri \<leftarrow> assert_string (map_of data ''private'');
                   Some (and_then (DecodePublicKey pub) (\<lambda>pubKey.
                         and_then (DecodePrivateKey pri) (\<lambda>priKey. Inr (pubKey, priKey)))) } }"

section \<open>Threshold key files\<close>

definition ts_key_file :: "string \<Rightarrow> nat \<Rightarrow> string" where
  "ts_key_file path i = path @ ''/.node-ts-key-'' @ dec_digits i @ ''.json''"

text \<open>Errors of the two encoders are dropped; the text is then empty.\<close>

definition or_empty :: "string + string \<Rightarrow> string" where
  "or_empty r = (case r of Inl e \<Rightarrow> [] | Inr s \<Rightarrow> s)"

definition ts_key_json :: "'k crypto_ext \<Rightarrow> 'k PriShare list \<Rightarrow> 'k \<Rightarrow> int \<Rightarrow> int \<Rightarrow> nat \<Rightarrow> json option" where
  "ts_key_json cx shares pub N T i =
     (if length shares \<le> i then None
      else Some (JObj [(''N'', JNum N), (''T'', JNum T), (''pub'', JStr (or_empty (EncodeTSPublicKey cx pub))),
                       (''share'', JStr (or_empty (EncodeTSPartialKey cx (shares ! i))))]))"

definition GenerateTsKeyFiles ::
    "'k crypto_ext \<Rightarrow> 'k PriShare list \<Rightarrow> 'k \<Rightarrow> int \<Rightarrow> int \<Rightarrow> string \<Rightarrow> filesystem \<Rightarrow> filesystem option" where
  "GenerateTsKeyFiles cx shares pub N T path fs =
     write_files (ts_key_file path) (ts_key_json cx shares pub N T) [0..<nat N] fs"

definition GenTsKeyFromFile :: "'k crypto_ext \<Rightarrow> string \<Rightarrow> filesystem \<Rightarrow> (string + 'k SecretShareKey) option" where
  "GenTsKeyFromFile cx filename fs =
     do { r \<leftarrow> readFromFile filename fs;
          case r of
            Inl e \<Rightarrow> Some (Inl e)
          | Inr data \<Rightarrow>
              do { share \<leftarrow> assert_string (map_of data ''share'');
                   pub \<leftarrow> assert_string (map_of data ''pub'');
                   N \<leftarrow> assert_float (map_of data ''N'');
                   T \<leftarrow> assert_float (map_of data ''T'');
                   Some (and_then (DecodeTSPartialKey cx share) (\<lambda>priShare.
                         and_then (DecodeTSPublicKey cx pub) (\<lambda>pubPoly.
                         Inr \<lparr>PubPoly = pubPoly, PriShare = priShare, ssk_N = int_of_float N, ssk_T = int_of_float T\<rparr>))) } }"

section \<open>The parameter file\<close>

record config_Parameters =
  cfg_Pool :: PoolParameters
  cfg_Consensus :: Parameters

definition GenDefaultParameters :: config_Parameters where
  "GenDefaultParameters = \<lparr>cfg_Pool = DefaultPoolParameters, cfg_Consensus = DefaultParameters\<rparr>"

text \<open>The structs in the order of their fields, under the names of their JSON tags; a nil slice is \<open>null\<close>.\<close>

definition pool_json :: "PoolParameters \<Rightarrow> json" where
  "pool_json p = JObj [(''rate'', JNum (pp_Rate p)), (''tx_size'', JNum (pp_TxSize p)), (''batch_size'', JNum (pp_BatchSize p)),
     (''max_queue_size'', JNum (pp_MaxQueueSize p))]"

definition consensus_json :: "Parameters \<Rightarrow> json" where
  "consensus_json p = JObj [(''sync_timeout'', JNum (SyncTimeout p)), (''network_delay'', JNum (NetwrokDelay p)),
     (''min_block_delay'', JNum (MinBlockDelay p)), (''ddos'', JBool (DDos p)), (''faults'', JNum (Faults p)),
     (''retry_delay'', JNum (RetryDelay p)), (''protocol'', JNum (Protocol p)),
     (''latency'', if Latency p = [] then JNull else JArr (map (JArr \<circ> map JNum) (Latency p)))]"

definition parameters_json :: "config_Parameters \<Rightarrow> json" where
  "parameters_json c = JObj [(''pool'', pool_json (cfg_Pool c)), (''consensus'', consensus_json (cfg_Consensus c))]"

definition GenerateSampleParameters :: "filesystem \<Rightarrow> filesystem option" where
  "GenerateSampleParameters fs = savetoFile ''./.parameters.json'' (parameters_json GenDefaultParameters) fs"

definition read_pool :: "json \<Rightarrow> string + PoolParameters" where
  "read_pool v =
     and_then (json_object v) (\<lambda>kvs.
     and_then (json_int (json_field ''rate'' kvs)) (\<lambda>rate.
     and_then (json_int (json_field ''tx_size'' kvs)) (\<lambda>tx.
     and_then (json_int (json_field ''batch_size'' kvs)) (\<lambda>batch.
     and_then (json_int (json_field ''max_queue_size'' kvs)) (\<lambda>queue.
     Inr \<lparr>pp_Rate = rate, pp_TxSize = tx, pp_BatchSize = batch, pp_MaxQueueSize = queue\<rparr>)))))"

definition read_consensus :: "json \<Rightarrow> string + Parameters" where
  "read_consensus v =
     and_then (json_object v) (\<lambda>kvs.
     and_then (json_int (json_field ''sync_timeout'' kvs)) (\<lambda>sync.
     and_then (json_int (json_field ''network_delay'' kvs)) (\<lambda>net.
     and_then (json_int (json_field ''min_block_delay'' kvs)) (\<lambda>blk.
     and_then (json_bool (json_field ''ddos'' kvs)) (\<lambda>dd.
     and_then (json_int (json_field ''faults'' kvs)) (\<lambda>f.
     and_then (json_int (json_field ''retry_delay'' kvs)) (\<lambda>retry.
     and_then (json_int (json_field ''protocol'' kvs)) (\<lambda>prot.
     and_then (json_slice (json_slice json_int) (json_field ''latency'' kvs)) (\<lambda>lat.
     Inr \<lparr>SyncTimeout = sync, NetwrokDelay = net, MinBlockDelay = blk, DDos = dd, Faults = f, RetryDelay = retry,
       Protocol = prot, Latency = lat\<rparr>)))))))))"

text \<open>Unlike the other readers this one returns the error of a missing file.\<close>

definition GenParamatersFromFile :: "string \<Rightarrow> filesystem \<Rightarrow> string + PoolParameters \<times> Parameters" where
  "GenParamatersFromFile filename fs =
     (case fs_files fs filename of
        None \<Rightarrow> Inl ''no such file''
      | Some text \<Rightarrow>
          and_then (json_Decode text) (\<lambda>v.
          and_then (json_object v) (\<lambda>kvs.
          and_then (read_pool (json_field ''pool'' kvs)) (\<lambda>p.
          and_then (read_consensus (json_field ''consensus'' kvs)) (\<lambda>q. Inr (p, q))))))"

section \<open>The committee file\<close>

definition committee_entry :: "string \<times> json \<Rightarrow> (node_id \<times> Authority) option" where
  "committee_entry e =
     (case e of (key, item) \<Rightarrow>
        let ID = fst (Atoi key) in
        do { info \<leftarrow> assert_map (Some item);
             text \<leftarrow> assert_string (map_of info ''name'');
             let name = (case DecodePublicKey text of Inl e \<Rightarrow> \<lparr>Pubkey = []\<rparr> | Inr k \<Rightarrow> k);
             addr \<leftarrow> assert_string (map_of info ''addr'');
             Some (ID, \<lparr>auth_Name = name, auth_Id = ID, auth_Addr = addr\<rparr>) })"

fun committee_loop :: "(string \<times> json) list \<Rightarrow> Committee \<Rightarrow> Committee option" where
  "committee_loop [] c = Some c"
| "committee_loop (e # es) c =
     do { (ID, a) \<leftarrow> committee_entry e;
          committee_loop es (c\<lparr>Authorities := AList.update ID a (Authorities c)\<rparr>) }"

text \<open>Go iterates over a map in any order; \<open>order\<close> is the one this iteration takes.\<close>

definition GenCommitteeFromFile ::
    "((string \<times> json) list \<Rightarrow> (string \<times> json) list) \<Rightarrow> string \<Rightarrow> filesystem \<Rightarrow> (string + Committee) option" where
  "GenCommitteeFromFile order filename fs =
     do { r \<leftarrow> readFromFile filename fs;
          case r of
            Inl e \<Rightarrow> Some (Inl e)
          | Inr data \<Rightarrow> map_option Inr (committee_loop (order data) \<lparr>Authorities = []\<rparr>) }"

definition DefaultPort :: int where
  "DefaultPort = 9000"

definition default_committee :: "(nat \<Rightarrow> PrivateKey \<times> PublickKey) \<Rightarrow> int \<Rightarrow> Committee" where
  "default_committee gen n =
     \<lparr>Authorities = map (\<lambda>i. (int i, \<lparr>auth_Name = snd (gen i), auth_Id = int i,
        auth_Addr = ''127.0.0.1:'' @ Itoa (DefaultPort + int i)\<rparr>)) [0..<nat n]\<rparr>"

text \<open>
  The committee, its private keys and its threshold keys; \<open>tsgen t n\<close> is what \<open>GenTSKeys\<close> returns.
\<close>

definition GenDefaultCommittee ::
    "(nat \<Rightarrow> PrivateKey \<times> PublickKey) \<Rightarrow> (int \<Rightarrow> int \<Rightarrow> 'k PriShare list \<times> 'k) \<Rightarrow> int \<Rightarrow>
     (Committee \<times> PrivateKey list \<times> 'k SecretShareKey list) option" where
  "GenDefaultCommittee gen tsgen n =
     (let c = default_committee gen n in
      case tsgen (HightThreshold c) n of
        (shares, pub) \<Rightarrow>
          if length shares < nat n then None
          else Some (c, map (fst \<circ> gen) [0..<nat n],
                 map (\<lambda>i. \<lparr>PubPoly = pub, PriShare = shares ! i, ssk_N = n, ssk_T = HightThreshold c\<rparr>) [0..<nat n]))"

definition member_json :: "node_id \<times> Authority \<Rightarrow> string \<times> json" where
  "member_json m = (case m of (i, item) \<Rightarrow> (Itoa i,
     JObj [(''addr'', JStr (auth_Addr item)), (''name'', JStr (EncodePublicKey (auth_Name item))), (''node_id'', JNum i)]))"

definition committee_json :: "Committee \<Rightarrow> json" where
  "committee_json c = JObj (sort_key fst (map member_json (Authorities c)))"

definition GenerateSmapleCommittee ::
    "(nat \<Rightarrow> PrivateKey \<times> PublickKey) \<Rightarrow> (int \<Rightarrow> int \<Rightarrow> 'k PriShare list \<times> 'k) \<Rightarrow> filesystem \<Rightarrow> filesystem option" where
  "GenerateSmapleCommittee gen tsgen fs =
     do { (committee, priKeys, shareKeys) \<leftarrow> GenDefaultCommittee gen tsgen 4;
          savetoFile ''./.committee.json'' (committee_json committee) fs }"

section \<open>Reading back what was written\<close>

lemma savetoFile_eq:
  "savetoFile f v fs = Some fs' \<longleftrightarrow> fs_writable fs f \<and>
     (\<exists>rest. fs' = fs\<lparr>fs_files := (fs_files fs)(f \<mapsto> json_Encode True v @ rest)\<rparr> \<and>
        rest = drop (length (json_Encode True v)) (case fs_files fs f of None \<Rightarrow> [] | Some t \<Rightarrow> t))"
  by (auto simp: savetoFile_def Let_def)

lemma savetoFile_frame: "savetoFile f v fs = Some fs' \<Longrightarrow> fs_writable fs' = fs_writable fs \<and> (\<forall>g. g \<noteq> f \<longrightarrow> fs_files fs' g = fs_files fs g)"
  by (auto simp: savetoFile_eq)

text \<open>The text of a file that starts with the encoding of a value decodes to it.\<close>

definition holds_json :: "filesystem \<Rightarrow> string \<Rightarrow> json \<Rightarrow> bool" where
  "holds_json fs f v \<longleftrightarrow> (\<exists>text. fs_files fs f = Some text \<and> json_Decode text = Inr v)"

lemma savetoFile_holds: "savetoFile f v fs = Some fs' \<Longrightarrow> holds_json fs' f v"
  by (auto simp: savetoFile_eq holds_json_def json_Decode_Encode)

lemma readFromFile_holds: "holds_json fs f (JObj kvs) \<Longrightarrow> readFromFile f fs = Some (Inr (json_map kvs))"
  by (auto simp: holds_json_def readFromFile_def)

lemma write_files_frame:
  "write_files name content is fs = Some fs' \<Longrightarrow>
     fs_writable fs' = fs_writable fs \<and> (\<forall>g. g \<notin> name ` set is \<longrightarrow> fs_files fs' g = fs_files fs g)"
  by (induction "is" arbitrary: fs) (auto simp: Option.bind_eq_Some_conv dest!: savetoFile_frame)

lemma write_files_holds:
  assumes "write_files name content is fs = Some fs'" "inj_on name (set is)" "distinct is" "i \<in> set is"
  shows "\<exists>v. content i = Some v \<and> holds_json fs' (name i) v"
  using assms
proof (induction "is" arbitrary: fs)
  case (Cons j "is")
  then obtain v fs1 where v: "content j = Some v" "savetoFile (name j) v fs = Some fs1" "write_files name content is fs1 = Some fs'"
    by (auto simp: Option.bind_eq_Some_conv)
  show ?case
  proof (cases "i = j")
    case True
    have "name j \<notin> name ` set is" using Cons.prems(2,3) by auto
    then have "fs_files fs' (name j) = fs_files fs1 (name j)" using write_files_frame[OF v(3)] by simp
    then show ?thesis using savetoFile_holds[OF v(2)] v(1) True by (simp add: holds_json_def)
  next
    case False
    then show ?thesis using Cons.IH[OF v(3)] Cons.prems(2-4) by simp
  qed
qed simp

text \<open>Writing succeeds exactly if every file can be opened and every content computed.\<close>

lemma write_files_defined:
  "write_files name content is fs \<noteq> None \<longleftrightarrow> (\<forall>i \<in> set is. content i \<noteq> None \<and> fs_writable fs (name i))"
proof (induction "is" arbitrary: fs)
  case (Cons i "is")
  show ?case
  proof (cases "\<exists>v fs1. content i = Some v \<and> savetoFile (name i) v fs = Some fs1")
    case True
    then obtain v fs1 where v: "content i = Some v" "savetoFile (name i) v fs = Some fs1" by blast
    then have "fs_writable fs1 = fs_writable fs" "fs_writable fs (name i)" by (auto simp: savetoFile_eq)
    then show ?thesis using v Cons.IH[of fs1] by simp
  next
    case False
    then show ?thesis by (cases "content i") (auto simp: savetoFile_def Let_def split: if_splits)
  qed
qed simp

lemma key_file_inj: "key_file path i = key_file path j \<longleftrightarrow> i = j"
  by (auto simp: key_file_def dest: dec_digits_inj)

lemma ts_key_file_inj: "ts_key_file path i = ts_key_file path j \<longleftrightarrow> i = j"
  by (auto simp: ts_key_file_def dest: dec_digits_inj)

lemma GenKeysFromFile_holds:
  "holds_json fs f (key_json kp) \<Longrightarrow> GenKeysFromFile f fs = Some (Inr (snd kp, fst kp))"
  by (simp add: key_json_def GenKeysFromFile_def readFromFile_holds json_map_distinct assert_string_def)

lemma small_float: "\<bar>i\<bar> \<le> 2 ^ 53 \<Longrightarrow> int_of_float (round_float64 i) = i"
  by (auto simp: round_float64_def int_of_float_def in_int64_def)

text \<open>
  C24. Key files round-trip: \<open>GenerateKeyFiles\<close> succeeds exactly if every file can be opened, and
  afterwards \<open>GenKeysFromFile\<close> returns for each node the very pair that was generated for it,
  whatever the files held before (a longer old file keeps its end, which is not read).
\<close>

theorem key_files_roundtrip:
  "(GenerateKeyFiles gen pairs path fs = None \<longleftrightarrow> \<not> (\<forall>i \<in> {0..<nat pairs}. fs_writable fs (key_file path i))) \<and>
   (GenerateKeyFiles gen pairs path fs = Some fs' \<longrightarrow> i < nat pairs \<longrightarrow>
      GenKeysFromFile (key_file path i) fs' = Some (Inr (snd (gen i), fst (gen i))))"
proof (intro conjI impI)
  show "GenerateKeyFiles gen pairs path fs = None \<longleftrightarrow> \<not> (\<forall>i \<in> {0..<nat pairs}. fs_writable fs (key_file path i))"
    using write_files_defined[of "key_file path" "\<lambda>i. Some (key_json (gen i))" "[0..<nat pairs]" fs]
    by (auto simp: GenerateKeyFiles_def)
next
  assume "GenerateKeyFiles gen pairs path fs = Some fs'" "i < nat pairs"
  then show "GenKeysFromFile (key_file path i) fs' = Some (Inr (snd (gen i), fst (gen i)))"
    using write_files_holds[of "key_file path" "\<lambda>i. Some (key_json (gen i))" "[0..<nat pairs]" fs fs' i]
    by (simp add: GenerateKeyFiles_def inj_on_def key_file_inj GenKeysFromFile_holds)
qed

text \<open>Two nodes, in a directory where every file held a longer text before.\<close>

definition sample_fs :: filesystem where
  "sample_fs = \<lparr>fs_files = (\<lambda>_. Some (replicate 1000 (CHR ''}''))), fs_writable = (\<lambda>_. True)\<rparr>"

definition sample_gen :: "nat \<Rightarrow> PrivateKey \<times> PublickKey" where
  "sample_gen i = (\<lparr>Prikey = replicate 64 (of_nat i)\<rparr>, \<lparr>Pubkey = replicate 32 (of_nat i)\<rparr>)"

theorem key_files_roundtrip_witness:
  "\<exists>fs'. GenerateKeyFiles sample_gen 2 ''keys'' sample_fs = Some fs' \<and>
     GenKeysFromFile (key_file ''keys'' 1) fs' = Some (Inr (snd (sample_gen 1), fst (sample_gen 1)))"
proof -
  have "GenerateKeyFiles sample_gen 2 ''keys'' sample_fs \<noteq> None"
    using key_files_roundtrip[of sample_gen 2 "''keys''" sample_fs] by (simp add: sample_fs_def)
  then obtain fs' where "GenerateKeyFiles sample_gen 2 ''keys'' sample_fs = Some fs'" by blast
  with key_files_roundtrip[of sample_gen 2 "''keys''" sample_fs fs' 1] show ?thesis by simp
qed

section \<open>Threshold keys\<close>

lemma GenTsKeyFromFile_holds:
  assumes "ts_key_json cx shares pub N T i = Some v" "holds_json fs f v" "\<bar>N\<bar> \<le> 2 ^ 53" "\<bar>T\<bar> \<le> 2 ^ 53"
    and "kyber_ok cx" "EncodeTSPublicKey cx pub = Inr dp" "EncodeTSPartialKey cx (shares ! i) = Inr ds" "in_int64 (ps_I (shares ! i))"
  shows "GenTsKeyFromFile cx f fs = Some (Inr \<lparr>PubPoly = pub, PriShare = shares ! i, ssk_N = N, ssk_T = T\<rparr>)"
proof -
  have "holds_json fs f (JObj [(''N'', JNum N), (''T'', JNum T), (''pub'', JStr dp), (''share'', JStr ds)])"
    using assms(1,2,6,7) by (auto simp: ts_key_json_def or_empty_def split: if_splits)
  from readFromFile_holds[OF this] show ?thesis
    using DecodeTSPublicKey_Encode[OF assms(5,6), of "[]"] DecodeTSPartialKey_Encode[OF assms(5,7,8), of "[]"] assms(3,4)
    by (simp add: GenTsKeyFromFile_def json_map_distinct assert_string_def assert_float_def small_float)
qed

text \<open>
  Threshold key files round-trip. If kyber's binary forms do, the keys encode, and the numbers
  fit a \<open>float64\<close> exactly, then every node reads back its own share, the common public
  polynomial and the numbers \<open>N\<close> and \<open>T\<close> that \<open>GenerateTsKeyFiles\<close> wrote, over whatever was in
  the files.
\<close>

theorem ts_key_files_roundtrip:
  assumes "kyber_ok cx" "GenerateTsKeyFiles cx shares pub N T path fs = Some fs'" "i < nat N"
    and "\<bar>N\<bar> \<le> 2 ^ 53" "\<bar>T\<bar> \<le> 2 ^ 53" "EncodeTSPublicKey cx pub = Inr dp"
    and "EncodeTSPartialKey cx (shares ! i) = Inr ds" "in_int64 (ps_I (shares ! i))"
  shows "GenTsKeyFromFile cx (ts_key_file path i) fs' =
           Some (Inr \<lparr>PubPoly = pub, PriShare = shares ! i, ssk_N = N, ssk_T = T\<rparr>)"
proof -
  have "inj_on (ts_key_file path) (set [0..<nat N])" by (simp add: inj_on_def ts_key_file_inj)
  with write_files_holds[OF assms(2)[unfolded GenerateTsKeyFiles_def]] assms(3) obtain v
    where "ts_key_json cx shares pub N T i = Some v" "holds_json fs' (ts_key_file path i) v" by auto
  from GenTsKeyFromFile_holds[OF this assms(4,5,1,6,7,8)] show ?thesis .
qed

definition sample_shares_list :: "unit PriShare list" where
  "sample_shares_list = map (\<lambda>i. \<lparr>ps_I = int i, ps_V = ()\<rparr>) [0..<4]"

lemma sample_kyber: "kyber_ok sample_cx"
  by (simp add: kyber_ok_def sample_cx_def)

lemma sample_ts_written:
  "\<exists>fs'. GenerateTsKeyFiles sample_cx sample_shares_list () 4 3 ''keys'' sample_fs = Some fs'"
proof -
  have "GenerateTsKeyFiles sample_cx sample_shares_list () 4 3 ''keys'' sample_fs \<noteq> None"
    unfolding GenerateTsKeyFiles_def write_files_defined
    by (simp add: sample_fs_def ts_key_json_def sample_shares_list_def)
  then show ?thesis by blast
qed

theorem ts_key_files_roundtrip_witness:
  "\<exists>fs'. GenerateTsKeyFiles sample_cx sample_shares_list () 4 3 ''keys'' sample_fs = Some fs' \<and>
     GenTsKeyFromFile sample_cx (ts_key_file ''keys'' 2) fs' =
       Some (Inr \<lparr>PubPoly = (), PriShare = \<lparr>ps_I = 2, ps_V = ()\<rparr>, ssk_N = 4, ssk_T = 3\<rparr>)"
proof -
  obtain fs' where fs': "GenerateTsKeyFiles sample_cx sample_shares_list () 4 3 ''keys'' sample_fs = Some fs'"
    using sample_ts_written by blast
  have share: "sample_shares_list ! 2 = \<lparr>ps_I = 2, ps_V = ()\<rparr>" by (simp add: sample_shares_list_def)
  obtain dp where dp: "EncodeTSPublicKey sample_cx () = Inr dp"
    by (simp add: EncodeTSPublicKey_def MarshallTSPublicKey_def sample_cx_def)
  obtain ds where ds: "EncodeTSPartialKey sample_cx (sample_shares_list ! 2) = Inr ds"
    by (simp add: EncodeTSPartialKey_def MarshallTSPartialKey_def sample_cx_def)
  from ts_key_files_roundtrip[OF sample_kyber fs' _ _ _ dp ds] fs' show ?thesis by (simp add: share in_int64_def)
qed

section \<open>Parameters\<close>

lemma read_pool_json: "in_int64 (pp_Rate p) \<Longrightarrow> in_int64 (pp_TxSize p) \<Longrightarrow> in_int64 (pp_BatchSize p) \<Longrightarrow>
    in_int64 (pp_MaxQueueSize p) \<Longrightarrow> read_pool (pool_json p) = Inr p"
  by (simp add: read_pool_def pool_json_def json_field_def lower_def)

definition parameters_ok :: "PoolParameters \<Rightarrow> Parameters \<Rightarrow> bool" where
  "parameters_ok ps pr \<longleftrightarrow>
     in_int64 (pp_Rate ps) \<and> in_int64 (pp_TxSize ps) \<and> in_int64 (pp_BatchSize ps) \<and> in_int64 (pp_MaxQueueSize ps) \<and>
     in_int64 (SyncTimeout pr) \<and> in_int64 (NetwrokDelay pr) \<and> in_int64 (MinBlockDelay pr) \<and> in_int64 (Faults pr) \<and>
     in_int64 (RetryDelay pr) \<and> in_int64 (Protocol pr) \<and> (\<forall>row \<in> set (Latency pr). \<forall>l \<in> set row. in_int64 l)"

lemma read_consensus_json:
  assumes "parameters_ok ps pr"
  shows "read_consensus (consensus_json pr) = Inr pr"
proof -
  have "json_slice json_int (JArr (map JNum row)) = Inr row" if "row \<in> set (Latency pr)" for row
    using assms that by (auto simp: parameters_ok_def intro!: json_list_map)
  then have "json_slice (json_slice json_int) (if Latency pr = [] then JNull else JArr (map (JArr \<circ> map JNum) (Latency pr))) = Inr (Latency pr)"
    by (auto intro!: json_list_map)
  then show ?thesis using assms
    by (simp add: read_consensus_def consensus_json_def json_field_def lower_def parameters_ok_def)
qed

lemma GenParamatersFromFile_holds:
  assumes "holds_json fs f (parameters_json \<lparr>cfg_Pool = ps, cfg_Consensus = pr\<rparr>)" "parameters_ok ps pr"
  shows "GenParamatersFromFile f fs = Inr (ps, pr)"
proof -
  from assms(1) obtain str where
    t: "fs_files fs f = Some str" "json_Decode str = Inr (parameters_json \<lparr>cfg_Pool = ps, cfg_Consensus = pr\<rparr>)"
    by (auto simp: holds_json_def)
  have "read_pool (pool_json ps) = Inr ps" using assms(2) by (intro read_pool_json) (simp_all add: parameters_ok_def)
  with read_consensus_json[OF assms(2)] t show ?thesis
    by (simp add: GenParamatersFromFile_def parameters_json_def json_field_def lower_def)
qed

section \<open>The committee\<close>

text \<open>What the loop that builds the committee returns, entry by entry.\<close>

lemma committee_loop_fresh:
  assumes "\<And>e. e \<in> set es \<Longrightarrow> committee_entry e = Some (g e)" "distinct (map (fst \<circ> g) es)"
    and "(fst \<circ> g) ` set es \<inter> fst ` set (Authorities c) = {}"
  shows "committee_loop es c = Some (c\<lparr>Authorities := Authorities c @ map g es\<rparr>)"
  using assms
proof (induction es arbitrary: c)
  case (Cons e es)
  obtain i a where g: "g e = (i, a)" by (cases "g e")
  then have "AList.update i a (Authorities c) = Authorities c @ [(i, a)]" using Cons.prems(3) by (intro update_fresh) auto
  moreover have "committee_loop es (c\<lparr>Authorities := Authorities c @ [(i, a)]\<rparr>) =
      Some (c\<lparr>Authorities := (Authorities c @ [(i, a)]) @ map g es\<rparr>)"
  proof -
    have "i \<notin> (fst \<circ> g) ` set es" using Cons.prems(2) g by auto
    then show ?thesis using Cons.IH[of "c\<lparr>Authorities := Authorities c @ [(i, a)]\<rparr>"] Cons.prems by auto
  qed
  ultimately show ?case using Cons.prems(1)[of e] g by simp
qed simp

text \<open>A key that is not hexadecimal becomes the empty key, and an identifier that is no number 0, without an error.\<close>

lemma committee_entry_bad:
  assumes "map_of (json_map info) ''name'' = Some (JStr name)" "map_of (json_map info) ''addr'' = Some (JStr addr)"
    and "DecodePublicKey name = Inl e"
  shows "committee_entry (key, JObj info) = Some (fst (Atoi key), \<lparr>auth_Name = \<lparr>Pubkey = []\<rparr>, auth_Id = fst (Atoi key), auth_Addr = addr\<rparr>)"
  using assms by (simp add: committee_entry_def assert_map_def assert_string_def Let_def)

lemma committee_entry_member:
  "auth_Id a = i \<Longrightarrow> in_int64 i \<Longrightarrow> committee_entry (member_json (i, a)) = Some (i, a)"
  by (simp add: committee_entry_def member_json_def Atoi_Itoa assert_map_def assert_string_def json_map_distinct)

definition members_ok :: "Committee \<Rightarrow> bool" where
  "members_ok c \<longleftrightarrow> committee_wf c \<and> (\<forall>(i, a) \<in> set (Authorities c). auth_Id a = i \<and> in_int64 i)"

lemma GenCommitteeFromFile_holds:
  assumes "holds_json fs f (committee_json c)" "members_ok c" "\<And>es. mset (order es) = mset es"
  shows "\<exists>c'. GenCommitteeFromFile order f fs = Some (Inr c') \<and> mset (Authorities c') = mset (Authorities c)"
proof -
  define ds where "ds = sort_key fst (map member_json (Authorities c))"
  define es where "es = order ds"
  have ds: "mset es = mset ds" and es: "mset es = mset (map member_json (Authorities c))"
    by (simp_all add: es_def ds_def assms(3))
  have ret: "committee_entry (member_json m) = Some m" if "m \<in> set (Authorities c)" for m
    using assms(2) that by (cases m) (auto simp: members_ok_def committee_entry_member)
  have set_es: "set es = member_json ` set (Authorities c)" using es by (metis set_map set_mset_mset)
  have "map (the \<circ> committee_entry) (map member_json (Authorities c)) = Authorities c" using ret by (simp add: map_idI)
  then have g: "mset (map (the \<circ> committee_entry) es) = mset (Authorities c)" using es by (metis mset_map)
  have "distinct (map Itoa (map fst (Authorities c)))"
    using assms(2) Itoa_inj by (simp add: members_ok_def committee_wf_def distinct_map inj_on_def)
  moreover have "map fst (map member_json (Authorities c)) = map Itoa (map fst (Authorities c))"
    by (simp add: member_json_def split: prod.splits)
  ultimately have keys: "distinct (map fst ds)" using es ds by (metis mset_eq_imp_distinct_iff mset_map)
  have "committee_loop es \<lparr>Authorities = []\<rparr> = Some (\<lparr>Authorities = []\<rparr>\<lparr>Authorities := [] @ map (the \<circ> committee_entry) es\<rparr>)"
  proof -
    have "committee_entry e = Some ((the \<circ> committee_entry) e)" if "e \<in> set es" for e using that ret set_es by auto
    moreover have "distinct (map (fst \<circ> (the \<circ> committee_entry)) es)"
      using assms(2) g by (metis members_ok_def committee_wf_def map_map mset_eq_imp_distinct_iff mset_map)
    ultimately show ?thesis using committee_loop_fresh[of es "the \<circ> committee_entry" "\<lparr>Authorities = []\<rparr>"] by simp
  qed
  then show ?thesis using readFromFile_holds[of fs f ds] assms(1) keys g
    by (simp add: committee_json_def ds_def[symmetric] es_def[symmetric] GenCommitteeFromFile_def json_map_distinct)
qed

lemma mset_committee:
  assumes "mset (Authorities c') = mset (Authorities c)" "committee_wf c"
  shows "committee_wf c' \<and> Committee_Size c' = Committee_Size c \<and> (\<forall>i. authority_of c' i = authority_of c i)"
proof -
  have wf: "distinct (map fst (Authorities c'))"
    using assms by (metis committee_wf_def mset_eq_imp_distinct_iff mset_map)
  have "set (Authorities c') = set (Authorities c)" by (rule mset_eq_setD[OF assms(1)])
  then have "map_of (Authorities c') = map_of (Authorities c)"
    using wf assms(2) by (simp add: committee_wf_def map_of_inject_set)
  moreover have "length (Authorities c') = length (Authorities c)" by (rule mset_eq_length[OF assms(1)])
  ultimately show ?thesis using wf by (simp add: committee_wf_def Committee_Size_def authority_of_def)
qed

text \<open>
  C25. The committee file round-trips. After a committee has been saved with \<open>savetoFile\<close>, over
  whatever the file held before, \<open>GenCommitteeFromFile\<close> reads it back without an error or a panic, in
  whatever order Go visits the decoded map: the members are the same, each with its identifier, key
  and address, and so are the size and both thresholds.
\<close>

theorem committee_file_roundtrip:
  assumes "savetoFile f (committee_json c) fs = Some fs'" "members_ok c" "\<And>es. mset (order es) = mset es"
  shows "\<exists>c'. GenCommitteeFromFile order f fs' = Some (Inr c') \<and> mset (Authorities c') = mset (Authorities c) \<and>
    Committee_Size c' = Committee_Size c \<and>
    HightThreshold c' = HightThreshold c \<and> LowThreshold c' = LowThreshold c \<and>
    (\<forall>i. Committee_Name c' i = Committee_Name c i \<and> Committee_Address c' i = Committee_Address c i)"
proof -
  from GenCommitteeFromFile_holds[OF savetoFile_holds[OF assms(1)] assms(2,3)] obtain c' where
    c': "GenCommitteeFromFile order f fs' = Some (Inr c')" "mset (Authorities c') = mset (Authorities c)" by blast
  have "length (Authorities c') = length (Authorities c)" by (rule mset_eq_length[OF c'(2)])
  with c' mset_committee[OF c'(2)] assms(2) show ?thesis
    by (auto simp: members_ok_def HightThreshold_def LowThreshold_def Committee_Name_def Committee_Address_def)
qed

text \<open>The sample committee of four.\<close>

lemma default_committee_ok: "n \<le> 2 ^ 62 \<Longrightarrow> members_ok (default_committee gen n)"
  by (auto simp: members_ok_def committee_wf_def default_committee_def comp_def distinct_map inj_on_def in_int64_def)

theorem committee_file_roundtrip_witness:
  "\<exists>fs' c'. savetoFile ''c.json'' (committee_json (default_committee sample_gen 4)) sample_fs = Some fs' \<and>
     GenCommitteeFromFile id ''c.json'' fs' = Some (Inr c') \<and> Committee_Size c' = 4 \<and> HightThreshold c' = 3 \<and>
     Committee_Name c' 2 = snd (sample_gen 2)"
proof -
  obtain fs' where fs': "savetoFile ''c.json'' (committee_json (default_committee sample_gen 4)) sample_fs = Some fs'"
    by (simp add: savetoFile_def Let_def sample_fs_def)
  from committee_file_roundtrip[OF fs' default_committee_ok, where order = id] obtain c' where
    c': "GenCommitteeFromFile id ''c.json'' fs' = Some (Inr c')" "Committee_Size c' = Committee_Size (default_committee sample_gen 4)"
      "HightThreshold c' = HightThreshold (default_committee sample_gen 4)"
      "Committee_Name c' 2 = Committee_Name (default_committee sample_gen 4) 2" by auto
  have "Committee_Size (default_committee sample_gen 4) = 4" "HightThreshold (default_committee sample_gen 4) = 3"
      "Committee_Name (default_committee sample_gen 4) 2 = snd (sample_gen 2)"
    by (simp_all add: default_committee_def Committee_Size_def HightThreshold_def sdiv_nonneg Committee_Name_def authority_of_def upt_rec numeral_2_eq_2)
  with fs' c' show ?thesis by auto
qed

end
