(* ===== verification/Network.thy ===== *)
theory Network
  imports Runtime "HOL-Library.Sublist"
begin

text \<open>
  src/network/codec.go and src/network/network.go: the codec, the sender with its connections and
  the receiver, and the goroutine of \<open>NewTransmitor\<close> (src/core/transimtor.go) that takes over what
  was received.

  \<open>encoding/gob\<close> is a parameter (\<open>gob_ext\<close>): \<open>'w\<close> is the type of one encoded value on the wire.
  The named hypothesis \<open>codec_ok\<close> is that a value decodes, at its own type, to what was encoded.
  TCP is reliable and ordered while a connection lasts; dialling and writing may fail at any time.
\<close>

section \<open>The codec\<close>

record 'w gob_ext =
  gob_enc_int :: "int \<Rightarrow> 'w"
  gob_enc_msg :: "msg \<Rightarrow> string + 'w"
  gob_dec_int :: "'w \<Rightarrow> string + int"
  gob_dec_msg :: "int \<Rightarrow> 'w \<Rightarrow> string + msg"

definition DefaultMsgTypes :: "int set" where
  "DefaultMsgTypes = {ProposeType, VoteType, FinVoteType, SpeedVoteType, ElectType, RandomCoinType, ReportType, DocGQCType}"

text \<open>
  \<open>Write\<close>: the type's number, then the message. Encoding a nil pointer panics. The result is the
  error and what has gone onto the wire.
\<close>

definition Codec_Write :: "'w gob_ext \<Rightarrow> msg \<Rightarrow> (string option \<times> 'w list) option" where
  "Codec_Write gx m =
     (if m = ElectM None then None
      else case gob_enc_msg gx m of
             Inl e \<Rightarrow> Some (Some e, [gob_enc_int gx (MsgType m)])
           | Inr w \<Rightarrow> Some (None, [gob_enc_int gx (MsgType m), w]))"

text \<open>How the goroutine that serves a connection ends.\<close>

datatype conn_end = Conn_EOF | Conn_error string | Conn_panic

text \<open>
  \<open>Read\<close>: one message and the rest of the input. A type number that is not in the table makes
  \<open>reflect.New\<close> panic.
\<close>

definition Codec_Read :: "'w gob_ext \<Rightarrow> 'w list \<Rightarrow> conn_end + msg \<times> 'w list" where
  "Codec_Read gx ws =
     (case ws of
        [] \<Rightarrow> Inl Conn_EOF
      | t # ws' \<Rightarrow>
          (case gob_dec_int gx t of
             Inl e \<Rightarrow> Inl (Conn_error e)
           | Inr typeId \<Rightarrow>
               (if typeId \<notin> DefaultMsgTypes then Inl Conn_panic
                else case ws' of
                       [] \<Rightarrow> Inl Conn_EOF
                     | w # ws'' \<Rightarrow>
                         (case gob_dec_msg gx typeId w of Inl e \<Rightarrow> Inl (Conn_error e) | Inr m \<Rightarrow> Inr (m, ws'')))))"

lemma Codec_Read_shorter: "Codec_Read gx ws = Inr (m, ws') \<Longrightarrow> length ws' < length ws"
  by (auto simp: Codec_Read_def split: list.splits sum.splits if_splits)

text \<open>\<open>serveConn\<close>: the messages are pushed into the receiver's channel in this order.\<close>

function serveConn :: "'w gob_ext \<Rightarrow> 'w list \<Rightarrow> msg list \<times> conn_end" where
  "serveConn gx ws =
     (case Codec_Read gx ws of
        Inl fin \<Rightarrow> ([], fin)
      | Inr (m, ws') \<Rightarrow> (case serveConn gx ws' of (ms, fin) \<Rightarrow> (m # ms, fin)))"
  by pat_completeness auto
termination
  by (relation "measure (\<lambda>(gx, ws). length ws)") (auto dest: Codec_Read_shorter)

declare serveConn.simps [simp del]

lemma serveConn_eqs [simp]:
  "serveConn gx [] = ([], Conn_EOF)"
  "gob_dec_int gx t = Inl e \<Longrightarrow> serveConn gx (t # ws) = ([], Conn_error e)"
  "gob_dec_int gx t = Inr i \<Longrightarrow> i \<notin> DefaultMsgTypes \<Longrightarrow> serveConn gx (t # ws) = ([], Conn_panic)"
  "gob_dec_int gx t = Inr i \<Longrightarrow> i \<in> DefaultMsgTypes \<Longrightarrow> serveConn gx [t] = ([], Conn_EOF)"
  "gob_dec_int gx t = Inr i \<Longrightarrow> i \<in> DefaultMsgTypes \<Longrightarrow> gob_dec_msg gx i w = Inr m \<Longrightarrow>
     serveConn gx (t # w # ws) = (m # fst (serveConn gx ws), snd (serveConn gx ws))"
  by (simp_all add: serveConn.simps[of gx "t # ws"] serveConn.simps[of gx "[]"] serveConn.simps[of gx "[t]"]
      serveConn.simps[of gx "t # w # ws"] Codec_Read_def split_beta)

text \<open>
  The goroutine of \<open>NewTransmitor\<close>: the assertion to \<open>ConsensusMessage\<close> panics for a
  \<open>DocGQCMsg\<close>, which has no \<open>Hash\<close>. What one connection brings into \<open>recvCh\<close>, or \<open>None\<close> if it
  ends the process.
\<close>

definition received :: "'w gob_ext \<Rightarrow> 'w list \<Rightarrow> msg list option" where
  "received gx ws =
     (case serveConn gx ws of (ms, fin) \<Rightarrow>
        if fin = Conn_panic \<or> \<not> list_all is_ConsensusMessage ms then None else Some ms)"

section \<open>The sender\<close>

text \<open>
  A connection is the channel \<open>connect\<close> made for it and whether its goroutine still runs;
  \<open>sd_current\<close> is the message \<open>Run\<close> works on, with the addresses it has not dealt with.
\<close>

record conn =
  cn_queue :: "msg list"
  cn_running :: bool

record sender =
  sd_msgCh :: "NetMessage list"
  sd_current :: "(msg \<times> string list) option"
  sd_conns :: "string \<Rightarrow> conn option"

definition NewSender :: sender where
  "NewSender = \<lparr>sd_msgCh = [], sd_current = None, sd_conns = Map.empty\<rparr>"

definition conn_cap :: nat where "conn_cap = 1000"

datatype net_event =
    Accepted NetMessage          \<comment> \<open>\<open>Send\<close>\<close>
  | Handled string msg           \<comment> \<open>\<open>Run\<close> is done with an address of a message\<close>
  | Wrote string msg             \<comment> \<open>a connection's goroutine has written a message\<close>
  | Silent

text \<open>One step of \<open>Send\<close>, \<open>Run\<close> or of a connection's goroutine.\<close>

inductive sender_step :: "sender \<Rightarrow> net_event \<Rightarrow> sender \<Rightarrow> bool" where
  accept: "length (sd_msgCh s) < send_cap \<Longrightarrow>
      sender_step s (Accepted n) (s\<lparr>sd_msgCh := sd_msgCh s @ [n]\<rparr>)"
| receive: "sd_current s = None \<Longrightarrow> sd_msgCh s = n # ns \<Longrightarrow>
      sender_step s Silent (s\<lparr>sd_msgCh := ns, sd_current := Some (nm_Msg n, nm_Address n)\<rparr>)"
| finish: "sd_current s = Some (m, []) \<Longrightarrow> sender_step s Silent (s\<lparr>sd_current := None\<rparr>)"
| push: "sd_current s = Some (m, a # as) \<Longrightarrow> sd_conns s a = Some c \<Longrightarrow> length (cn_queue c) < conn_cap \<Longrightarrow>
      sender_step s (Handled a m) (s\<lparr>sd_current := Some (m, as),
        sd_conns := (sd_conns s)(a \<mapsto> c\<lparr>cn_queue := cn_queue c @ [m]\<rparr>)\<rparr>)"
| connect: "sd_current s = Some (m, a # as) \<Longrightarrow> sd_conns s a = None \<Longrightarrow>
      sender_step s (Handled a m) (s\<lparr>sd_current := Some (m, as),
        sd_conns := (sd_conns s)(a \<mapsto> \<lparr>cn_queue = [m], cn_running = True\<rparr>)\<rparr>)"
| connect_fails: "sd_current s = Some (m, a # as) \<Longrightarrow> sd_conns s a = None \<Longrightarrow>
      sender_step s (Handled a m) (s\<lparr>sd_current := Some (m, as)\<rparr>)"
| write_ok: "sd_conns s a = Some c \<Longrightarrow> cn_running c \<Longrightarrow> cn_queue c = m # ms \<Longrightarrow>
      sender_step s (Wrote a m) (s\<lparr>sd_conns := (sd_conns s)(a \<mapsto> c\<lparr>cn_queue := ms\<rparr>)\<rparr>)"
| write_fails: "sd_conns s a = Some c \<Longrightarrow> cn_running c \<Longrightarrow> cn_queue c = m # ms \<Longrightarrow>
      sender_step s Silent (s\<lparr>sd_conns := (sd_conns s)(a \<mapsto> c\<lparr>cn_queue := ms, cn_running := False\<rparr>)\<rparr>)"

inductive sender_run :: "sender \<Rightarrow> net_event list \<Rightarrow> sender \<Rightarrow> bool" where
  nothing: "sender_run s [] s"
| further: "sender_run s evs s1 \<Longrightarrow> sender_step s1 e s2 \<Longrightarrow> sender_run s (evs @ [e]) s2"

text \<open>The events of a run, for one address or as a whole.\<close>

fun accepted :: "net_event list \<Rightarrow> NetMessage list" where
  "accepted [] = []"
| "accepted (Accepted n # es) = n # accepted es"
| "accepted (_ # es) = accepted es"

fun handled :: "net_event list \<Rightarrow> (string \<times> msg) list" where
  "handled [] = []"
| "handled (Handled a m # es) = (a, m) # handled es"
| "handled (_ # es) = handled es"

fun wrote :: "string \<Rightarrow> net_event list \<Rightarrow> msg list" where
  "wrote a [] = []"
| "wrote a (Wrote b m # es) = (if a = b then m # wrote a es else wrote a es)"
| "wrote a (_ # es) = wrote a es"

lemma events_append [simp]:
  "accepted (xs @ ys) = accepted xs @ accepted ys" "handled (xs @ ys) = handled xs @ handled ys" "wrote a (xs @ ys) = wrote a xs @ wrote a ys"
  by (induction xs rule: accepted.induct) auto

text \<open>The messages for an address, among single deliveries and among whole messages.\<close>

definition to_addr :: "string \<Rightarrow> (string \<times> msg) list \<Rightarrow> msg list" where
  "to_addr a xs = map snd (filter (\<lambda>x. fst x = a) xs)"

definition deliveries :: "NetMessage \<Rightarrow> (string \<times> msg) list" where
  "deliveries n = map (\<lambda>a. (a, nm_Msg n)) (nm_Address n)"

definition addressed :: "string \<Rightarrow> NetMessage list \<Rightarrow> msg list" where
  "addressed a ns = to_addr a (concat (map deliveries ns))"

lemma to_addr_append [simp]: "to_addr a (xs @ ys) = to_addr a xs @ to_addr a ys" "to_addr a [] = []"
  "to_addr a ((b, m) # xs) = (if b = a then m # to_addr a xs else to_addr a xs)"
  by (simp_all add: to_addr_def)

section \<open>What reaches a peer\<close>

text \<open>What \<open>Run\<close> still has to do with its current message.\<close>

definition remaining :: "sender \<Rightarrow> (string \<times> msg) list" where
  "remaining s = (case sd_current s of None \<Rightarrow> [] | Some (m, as) \<Rightarrow> map (\<lambda>a. (a, m)) as)"

definition queued :: "sender \<Rightarrow> string \<Rightarrow> msg list" where
  "queued s a = (case sd_conns s a of None \<Rightarrow> [] | Some c \<Rightarrow> cn_queue c)"

definition sender_inv :: "net_event list \<Rightarrow> sender \<Rightarrow> bool" where
  "sender_inv evs s \<longleftrightarrow>
     concat (map deliveries (accepted evs)) = handled evs @ remaining s @ concat (map deliveries (sd_msgCh s)) \<and>
     (\<forall>a. subseq (wrote a evs @ queued s a) (to_addr a (handled evs)))"

lemma subseq_lose: "subseq (xs @ m # ys) zs \<Longrightarrow> subseq (xs @ ys) zs"
  by (meson subseq_append_le_same_iff list_emb_append_mono subseq_order.order_trans subseq_order.order_refl subseq_Cons')

lemma subseq_snoc: "subseq (xs @ ys) zs \<Longrightarrow> subseq (xs @ ys @ [m]) (zs @ [m])"
  by (metis append_assoc subseq_append)

lemma sender_step_inv:
  assumes "sender_step s e s'" "sender_inv evs s"
  shows "sender_inv (evs @ [e]) s'"
  using assms(1)
proof cases
  case (push m a as c)
  have "subseq (wrote a evs @ cn_queue c) (to_addr a (handled evs))" using assms(2) push(4)
    by (auto simp: sender_inv_def queued_def dest: spec[of _ a])
  from subseq_snoc[OF this, of m] show ?thesis using push assms(2) by (simp add: sender_inv_def remaining_def queued_def)
next
  case (connect m a as)
  have "subseq (wrote a evs @ []) (to_addr a (handled evs))" using assms(2) connect(4)
    by (auto simp: sender_inv_def queued_def dest: spec[of _ a])
  from subseq_snoc[OF this, of m] show ?thesis using connect assms(2) by (simp add: sender_inv_def remaining_def queued_def)
next
  case (connect_fails m a as)
  have "subseq (wrote a evs) (to_addr a (handled evs))" using assms(2) connect_fails(4)
    by (auto simp: sender_inv_def queued_def dest: spec[of _ a])
  then show ?thesis using connect_fails assms(2) by (auto simp: sender_inv_def remaining_def queued_def)
next
  case (write_ok a c m ms)
  have "subseq (wrote a evs @ m # ms) (to_addr a (handled evs))" using assms(2) write_ok(3,5)
    by (auto simp: sender_inv_def queued_def dest: spec[of _ a])
  then show ?thesis using write_ok assms(2) by (auto simp: sender_inv_def remaining_def queued_def)
next
  case (write_fails a c m ms)
  have "subseq (wrote a evs @ m # ms) (to_addr a (handled evs))" using assms(2) write_fails(3,5)
    by (auto simp: sender_inv_def queued_def dest: spec[of _ a])
  from subseq_lose[OF this] show ?thesis using write_fails assms(2) by (auto simp: sender_inv_def remaining_def queued_def)
qed (use assms(2) in \<open>auto simp: sender_inv_def remaining_def queued_def deliveries_def\<close>)

lemma sender_run_inv: "sender_run s evs s' \<Longrightarrow> s = NewSender \<Longrightarrow> sender_inv evs s'"
proof (induction rule: sender_run.induct)
  case (nothing s)
  then show ?case by (simp add: sender_inv_def NewSender_def remaining_def queued_def)
next
  case (further s evs s1 e s2)
  then show ?case using sender_step_inv by blast
qed

text \<open>What has been written for an address is, in order, among the messages accepted for it.\<close>

lemma wrote_subseq:
  assumes "sender_run NewSender evs s"
  shows "subseq (wrote a evs) (addressed a (accepted evs))"
proof -
  have inv: "sender_inv evs s" using sender_run_inv[OF assms] by simp
  have "subseq (wrote a evs) (wrote a evs @ queued s a)" by (intro subseq_rev_drop_many subseq_order.order_refl)
  also have "subseq \<dots> (to_addr a (handled evs))" using inv by (simp add: sender_inv_def)
  also have "subseq \<dots> (addressed a (accepted evs))"
    using inv by (auto simp: sender_inv_def addressed_def intro: subseq_rev_drop_many)
  finally show ?thesis .
qed

section \<open>The codec at both ends\<close>

definition codec_ok :: "'w gob_ext \<Rightarrow> bool" where
  "codec_ok gx \<longleftrightarrow> (\<forall>i. gob_dec_int gx (gob_enc_int gx i) = Inr i) \<and>
     (\<forall>m w. gob_enc_msg gx m = Inr w \<longrightarrow> gob_dec_msg gx (MsgType m) w = Inr m)"

text \<open>What goes onto the wire for some messages; \<open>None\<close> if encoding one fails or panics.\<close>

fun wire :: "'w gob_ext \<Rightarrow> msg list \<Rightarrow> 'w list option" where
  "wire gx [] = Some []"
| "wire gx (m # ms) =
     do { (err, ws) \<leftarrow> Codec_Write gx m;
          if err \<noteq> None then None else do { ws' \<leftarrow> wire gx ms; Some (ws @ ws') } }"

lemma MsgType_known [simp]: "MsgType m \<in> DefaultMsgTypes"
  by (cases m) (simp_all add: DefaultMsgTypes_def)

lemma serveConn_wire:
  "codec_ok gx \<Longrightarrow> wire gx ms = Some ws \<Longrightarrow>
     serveConn gx (ws @ rest) = (case serveConn gx rest of (ms', fin) \<Rightarrow> (ms @ ms', fin))"
proof (induction ms arbitrary: ws)
  case Nil
  then show ?case by (cases "serveConn gx rest") simp
next
  case (Cons m ms)
  then obtain w ws' where "gob_enc_msg gx m = Inr w" "wire gx ms = Some ws'" "ws = [gob_enc_int gx (MsgType m), w] @ ws'"
    by (auto simp: Codec_Write_def Option.bind_eq_Some_conv split: if_splits sum.splits)
  then show ?case using Cons by (cases "serveConn gx rest") (simp add: codec_ok_def)
qed

text \<open>
  C21. What a peer receives from a node: in every run of the sender and its connection goroutines,
  the messages that a connection's codec has written are read by the peer's codec as they were,
  and they are, in the order of sending and without repetition, messages the node sent to that
  address. Messages may be missing (a failed dial or write), but none is changed, invented,
  reordered or delivered to another peer. That holds as well when the last write got no further
  than the type number.
\<close>

theorem peer_receives_in_order:
  assumes "codec_ok gx" "sender_run NewSender evs s" "wire gx (wrote a evs) = Some ws"
  shows "serveConn gx ws = (wrote a evs, Conn_EOF) \<and>
    serveConn gx (ws @ [gob_enc_int gx (MsgType m)]) = (wrote a evs, Conn_EOF) \<and>
    subseq (wrote a evs) (addressed a (accepted evs))"
  using serveConn_wire[OF assms(1,3), of "[]"] serveConn_wire[OF assms(1,3), of "[gob_enc_int gx (MsgType m)]"]
    wrote_subseq[OF assms(2)] assms(1) by (simp add: codec_ok_def)

text \<open>
  A codec that keeps its values apart, and a node that sends two votes to two peers.
\<close>

definition sample_gob :: "(int + msg) gob_ext" where
  "sample_gob =
     \<lparr>gob_enc_int = Inl, gob_enc_msg = (\<lambda>m. Inr (Inr m)),
      gob_dec_int = case_sum Inr (\<lambda>_. Inl ''type mismatch''),
      gob_dec_msg = (\<lambda>t. case_sum (\<lambda>_. Inl ''type mismatch'') (\<lambda>m. if MsgType m = t then Inr m else Inl ''type mismatch''))\<rparr>"

lemma codec_ok_sample: "codec_ok sample_gob"
  by (simp add: codec_ok_def sample_gob_def)

definition sample_ballot :: "int \<Rightarrow> msg" where
  "sample_ballot v = ElectM (Some \<lparr>em_Author = 1, em_View = v, em_SigShare = \<lparr>PartialSig = []\<rparr>\<rparr>)"

definition sample_net :: "string list \<Rightarrow> NetMessage" where
  "sample_net as = \<lparr>nm_Msg = sample_ballot 0, nm_Address = as\<rparr>"

lemma sender_run_snoc: "sender_run s evs s1 \<Longrightarrow> sender_step s1 e s2 \<Longrightarrow> evs' = evs @ [e] \<Longrightarrow> sender_run s evs' s2"
  using sender_run.further by blast

lemma sender_run_trans: "sender_run s2 evs' s3 \<Longrightarrow> sender_run s1 evs s2 \<Longrightarrow> sender_run s1 (evs @ evs') s3"
proof (induction arbitrary: evs rule: sender_run.induct)
  case (further s evs1 s1' e s2')
  then show ?case using sender_run.further by (metis append_assoc)
qed simp

text \<open>The rules for states that are given by their fields.\<close>

lemma sender_steps:
  "length ch < send_cap \<Longrightarrow> sender_step \<lparr>sd_msgCh = ch, sd_current = cur, sd_conns = cs\<rparr> (Accepted n) \<lparr>sd_msgCh = ch @ [n], sd_current = cur, sd_conns = cs\<rparr>"
  "sender_step \<lparr>sd_msgCh = n # ch, sd_current = None, sd_conns = cs\<rparr> Silent \<lparr>sd_msgCh = ch, sd_current = Some (nm_Msg n, nm_Address n), sd_conns = cs\<rparr>"
  "sender_step \<lparr>sd_msgCh = ch, sd_current = Some (m, []), sd_conns = cs\<rparr> Silent \<lparr>sd_msgCh = ch, sd_current = None, sd_conns = cs\<rparr>"
  "length q < conn_cap \<Longrightarrow> cs a = Some \<lparr>cn_queue = q, cn_running = r\<rparr> \<Longrightarrow>
     sender_step \<lparr>sd_msgCh = ch, sd_current = Some (m, a # as), sd_conns = cs\<rparr> (Handled a m)
       \<lparr>sd_msgCh = ch, sd_current = Some (m, as), sd_conns = cs(a \<mapsto> \<lparr>cn_queue = q @ [m], cn_running = r\<rparr>)\<rparr>"
  "cs a = None \<Longrightarrow> sender_step \<lparr>sd_msgCh = ch, sd_current = Some (m, a # as), sd_conns = cs\<rparr> (Handled a m)
       \<lparr>sd_msgCh = ch, sd_current = Some (m, as), sd_conns = cs(a \<mapsto> \<lparr>cn_queue = [m], cn_running = True\<rparr>)\<rparr>"
  "cs a = None \<Longrightarrow> sender_step \<lparr>sd_msgCh = ch, sd_current = Some (m, a # as), sd_conns = cs\<rparr> (Handled a m) \<lparr>sd_msgCh = ch, sd_current = Some (m, as), sd_conns = cs\<rparr>"
  "cs a = Some \<lparr>cn_queue = m # q, cn_running = True\<rparr> \<Longrightarrow>
     sender_step \<lparr>sd_msgCh = ch, sd_current = cur, sd_conns = cs\<rparr> (Wrote a m) \<lparr>sd_msgCh = ch, sd_current = cur, sd_conns = cs(a \<mapsto> \<lparr>cn_queue = q, cn_running = True\<rparr>)\<rparr>"
  "cs a = Some \<lparr>cn_queue = m # q, cn_running = True\<rparr> \<Longrightarrow>
     sender_step \<lparr>sd_msgCh = ch, sd_current = cur, sd_conns = cs\<rparr> Silent \<lparr>sd_msgCh = ch, sd_current = cur, sd_conns = cs(a \<mapsto> \<lparr>cn_queue = q, cn_running = False\<rparr>)\<rparr>"
  using sender_step.accept[of "\<lparr>sd_msgCh = ch, sd_current = cur, sd_conns = cs\<rparr>" n]
    sender_step.receive[of "\<lparr>sd_msgCh = n # ch, sd_current = None, sd_conns = cs\<rparr>" n ch]
    sender_step.finish[of "\<lparr>sd_msgCh = ch, sd_current = Some (m, []), sd_conns = cs\<rparr>" m]
    sender_step.push[of "\<lparr>sd_msgCh = ch, sd_current = Some (m, a # as), sd_conns = cs\<rparr>" m a as "\<lparr>cn_queue = q, cn_running = r\<rparr>"]
    sender_step.connect[of "\<lparr>sd_msgCh = ch, sd_current = Some (m, a # as), sd_conns = cs\<rparr>" m a as]
    sender_step.connect_fails[of "\<lparr>sd_msgCh = ch, sd_current = Some (m, a # as), sd_conns = cs\<rparr>" m a as]
    sender_step.write_ok[of "\<lparr>sd_msgCh = ch, sd_current = cur, sd_conns = cs\<rparr>" a "\<lparr>cn_queue = m # q, cn_running = True\<rparr>" m q]
    sender_step.write_fails[of "\<lparr>sd_msgCh = ch, sd_current = cur, sd_conns = cs\<rparr>" a "\<lparr>cn_queue = m # q, cn_running = True\<rparr>" m q]
  by simp_all

lemma take_up_run:
  "sender_run \<lparr>sd_msgCh = [], sd_current = None, sd_conns = cs\<rparr> [Accepted n, Silent] \<lparr>sd_msgCh = [], sd_current = Some (nm_Msg n, nm_Address n), sd_conns = cs\<rparr>"
proof -
  have "sender_run \<lparr>sd_msgCh = [], sd_current = None, sd_conns = cs\<rparr> ([] @ [Accepted n]) \<lparr>sd_msgCh = [n], sd_current = None, sd_conns = cs\<rparr>"
    using sender_run.further[OF sender_run.nothing sender_steps(1)[of "[]"]] by (simp add: send_cap_def)
  from sender_run.further[OF this sender_steps(2)] show ?thesis by simp
qed

definition sample_sent :: "net_event list" where
  "sample_sent = [Accepted (sample_net [''p'', ''q'']), Silent, Handled ''p'' (sample_ballot 0), Handled ''q'' (sample_ballot 0), Silent, Wrote ''p'' (sample_ballot 0)]"

lemma sample_sent_run: "\<exists>s. sender_run NewSender sample_sent s"
proof -
  let ?c = "\<lambda>q. \<lparr>cn_queue = q, cn_running = True\<rparr>" and ?m = "sample_ballot 0" and ?n = "sample_net [''p'', ''q'']"
  note r = sender_run_snoc[OF _ _ refl]
  have "sender_run NewSender [Accepted ?n, Silent] \<lparr>sd_msgCh = [], sd_current = Some (?m, [''p'', ''q'']), sd_conns = Map.empty\<rparr>"
    using take_up_run[of Map.empty ?n] by (simp add: NewSender_def sample_net_def)
  from r[OF r[OF this sender_steps(5)] sender_steps(6)]
  have "sender_run NewSender ([Accepted ?n, Silent, Handled ''p'' ?m, Handled ''q'' ?m]) \<lparr>sd_msgCh = [], sd_current = Some (?m, []), sd_conns = [''p'' \<mapsto> ?c [?m]]\<rparr>"
    by simp
  from r[OF r[OF this sender_steps(3)] sender_steps(7)[where a = "''p''" and m = ?m and q = "[]"]] show ?thesis
    by (auto simp: sample_sent_def)
qed

theorem peer_receives_in_order_witness:
  "codec_ok sample_gob \<and> (\<exists>s. sender_run NewSender sample_sent s) \<and>
   wire sample_gob (wrote ''p'' sample_sent) = Some [Inl ElectType, Inr (sample_ballot 0)] \<and>
   serveConn sample_gob [Inl ElectType, Inr (sample_ballot 0)] = ([sample_ballot 0], Conn_EOF)"
proof -
  obtain s where s: "sender_run NewSender sample_sent s" using sample_sent_run by blast
  have w: "wire sample_gob (wrote ''p'' sample_sent) = Some [Inl ElectType, Inr (sample_ballot 0)]"
    by (simp add: sample_sent_def Codec_Write_def sample_gob_def sample_ballot_def)
  show ?thesis using peer_receives_in_order[OF codec_ok_sample s w, of "sample_ballot 0"] codec_ok_sample s w
    by (auto simp: sample_sent_def)
qed

text \<open>
  C23. Exactly when the bytes of one connection end the process: after any messages \<open>ms\<close> that a
  correct codec wrote, one type number that is not in \<open>DefaultMsgTypes\<close> makes \<open>Read\<close> panic,
  whatever follows it; and a \<open>DocGQCMsg\<close>, which the codec accepts, makes the transmitter panic.
  Otherwise the messages arrive. No signature is checked before that, so anyone who can
  connect can stop a node.
\<close>

theorem connection_panics:
  assumes "codec_ok gx" "wire gx ms = Some ws"
  shows "(received gx ws = (if list_all is_ConsensusMessage ms then Some ms else None)) \<and>
    (t \<notin> DefaultMsgTypes \<longrightarrow> received gx (ws @ gob_enc_int gx t # rest) = None)"
proof -
  have "gob_dec_int gx (gob_enc_int gx t) = Inr t" using assms(1) by (simp add: codec_ok_def)
  then show ?thesis using serveConn_wire[OF assms, of "[]"] serveConn_wire[OF assms, of "gob_enc_int gx t # rest"]
    by (simp add: received_def)
qed

theorem connection_panics_witness:
  "codec_ok sample_gob \<and> wire sample_gob [sample_ballot 0] = Some [Inl ElectType, Inr (sample_ballot 0)] \<and> 99 \<notin> DefaultMsgTypes \<and>
   received sample_gob [Inl ElectType, Inr (sample_ballot 0)] = Some [sample_ballot 0] \<and>
   received sample_gob [Inl ElectType, Inr (sample_ballot 0), Inl 99] = None"
proof -
  have w: "wire sample_gob [sample_ballot 0] = Some [Inl ElectType, Inr (sample_ballot 0)]"
    by (simp add: Codec_Write_def sample_gob_def sample_ballot_def)
  have n: "99 \<notin> DefaultMsgTypes" by (simp add: DefaultMsgTypes_def msg_type_defs)
  show ?thesis using connection_panics[OF codec_ok_sample w, of 99 "[]"] codec_ok_sample w n
    by (simp add: sample_gob_def sample_ballot_def)
qed

section \<open>A broken connection\<close>

text \<open>
  The goroutine of a connection ends when a write fails, but its channel stays in \<open>conns\<close>.
  The number of messages for the address that \<open>Run\<close> gets rid of afterwards is bounded.
\<close>

definition broken :: "sender \<Rightarrow> string \<Rightarrow> bool" where
  "broken s a \<longleftrightarrow> (\<exists>c. sd_conns s a = Some c \<and> \<not> cn_running c)"

lemma broken_step:
  assumes "sender_step s e s'" "broken s a"
  shows "broken s' a \<and> length (queued s' a) = length (queued s a) + length (to_addr a (handled [e])) \<and>
    (length (queued s a) \<le> conn_cap \<longrightarrow> length (queued s' a) \<le> conn_cap)"
  using assms by cases (auto simp: broken_def queued_def)

lemma broken_run:
  "sender_run s evs s' \<Longrightarrow> broken s a \<Longrightarrow> length (queued s a) \<le> conn_cap \<Longrightarrow>
     broken s' a \<and> length (queued s' a) = length (queued s a) + length (to_addr a (handled evs)) \<and> length (queued s' a) \<le> conn_cap"
proof (induction rule: sender_run.induct)
  case (further s evs s1 e s2)
  then show ?case using broken_step[of s1 e s2 a] by auto
qed simp

lemma queue_bounded: "sender_run s evs s' \<Longrightarrow> \<forall>a. length (queued s a) \<le> conn_cap \<Longrightarrow> \<forall>a. length (queued s' a) \<le> conn_cap"
proof (induction rule: sender_run.induct)
  case (further s evs s1 e s2)
  from further(2) show ?case
    by cases (use further(3,4) in \<open>auto simp: queued_def conn_cap_def dest!: spec split: option.splits\<close>)
qed simp

lemma stuck_run:
  assumes "sender_run s evs s'" "broken s a" "length (queued s a) = conn_cap" "sd_current s = Some (m, a # as)"
  shows "broken s' a \<and> length (queued s' a) = conn_cap \<and> sd_current s' = Some (m, a # as) \<and> handled evs = []"
  using assms
proof (induction rule: sender_run.induct)
  case (further s evs s1 e s2)
  then have ih: "broken s1 a" "length (queued s1 a) = conn_cap" "sd_current s1 = Some (m, a # as)" "handled evs = []" by simp_all
  from further(2) have "sd_current s2 = Some (m, a # as) \<and> handled [e] = []"
    using ih by cases (auto simp: broken_def queued_def)
  then show ?case using broken_step[OF further(2) ih(1)] ih(2,4) by simp
qed simp

text \<open>
  C22. One broken connection stops a node from sending to anyone. Once the goroutine of a connection
  has ended after a failed write, at most \<open>conn_cap\<close> more messages for that address are disposed
  of, in any run. When \<open>Run\<close> then comes to the next one it waits for ever: no address of any
  message is dealt with again, although the other connections are intact.
\<close>

theorem broken_connection_blocks_sender:
  assumes "sender_run NewSender evs0 s" "broken s a" "sender_run s evs s'"
  shows "length (to_addr a (handled evs)) \<le> conn_cap \<and>
    (length (queued s' a) = conn_cap \<longrightarrow> sd_current s' = Some (m, a # as) \<longrightarrow> sender_run s' evs' s'' \<longrightarrow>
       sd_current s'' = Some (m, a # as) \<and> handled evs' = [])"
proof -
  have "\<forall>a. length (queued s a) \<le> conn_cap"
    using queue_bounded[OF assms(1)] by (simp add: NewSender_def queued_def)
  then have b: "broken s' a" "length (queued s' a) = length (queued s a) + length (to_addr a (handled evs))" "length (queued s' a) \<le> conn_cap"
    using broken_run[OF assms(3,2)] by simp_all
  then show ?thesis using stuck_run[of s' evs' s'' a m as] by simp
qed

text \<open>
  A node whose connection broke at the first write and that goes on to send a thousand and one
  messages to the same peer.
\<close>

definition sample_broken :: "nat \<Rightarrow> sender" where
  "sample_broken q = \<lparr>sd_msgCh = [], sd_current = None, sd_conns = [''p'' \<mapsto> \<lparr>cn_queue = replicate q (sample_ballot 0), cn_running = False\<rparr>]\<rparr>"

lemma sample_broken_reached: "\<exists>evs. sender_run NewSender evs (sample_broken 0)"
proof -
  note r = sender_run_snoc[OF _ _ refl]
  have "sender_run NewSender [Accepted (sample_net [''p'']), Silent] \<lparr>sd_msgCh = [], sd_current = Some (sample_ballot 0, [''p'']), sd_conns = Map.empty\<rparr>"
    using take_up_run[of Map.empty "sample_net [''p'']"] by (simp add: NewSender_def sample_net_def)
  from r[OF r[OF r[OF this sender_steps(5)] sender_steps(3)] sender_steps(8)[where a = "''p''" and m = "sample_ballot 0" and q = "[]"]] show ?thesis
    by (auto simp: sample_broken_def)
qed

lemma sample_broken_filled: "q \<le> conn_cap \<Longrightarrow> \<exists>evs. sender_run (sample_broken 0) evs (sample_broken q) \<and> length (to_addr ''p'' (handled evs)) = q"
proof (induction q)
  case 0
  show ?case by (rule exI[of _ "[]"]) (simp add: sender_run.nothing)
next
  case (Suc q)
  then obtain evs where evs: "sender_run (sample_broken 0) evs (sample_broken q)" "length (to_addr ''p'' (handled evs)) = q" by auto
  let ?m = "sample_ballot 0" and ?n = "sample_net [''p'']"
  have "sender_run (sample_broken q) [Accepted ?n, Silent] ((sample_broken q)\<lparr>sd_current := Some (?m, [''p''])\<rparr>)"
    using take_up_run[of "sd_conns (sample_broken q)" ?n] by (simp add: sample_broken_def sample_net_def)
  from sender_run_snoc[OF sender_run_snoc[OF this _ refl] _ refl]
  have "sender_run (sample_broken q) [Accepted ?n, Silent, Handled ''p'' ?m, Silent] (sample_broken (Suc q))"
    using Suc.prems sender_steps(4)[of "replicate q ?m" "sd_conns (sample_broken q)" "''p''" False "[]" ?m "[]"] sender_steps(3)
    by (simp add: sample_broken_def replicate_append_same)
  from sender_run_trans[OF this evs(1)] show ?case using evs(2) by (intro exI conjI) (assumption, simp)
qed

theorem broken_connection_blocks_sender_witness:
  "\<exists>evs0 s evs s'. sender_run NewSender evs0 s \<and> broken s ''p'' \<and> sender_run s evs s' \<and>
     length (to_addr ''p'' (handled evs)) = conn_cap \<and> length (queued s' ''p'') = conn_cap \<and>
     sd_current s' = Some (sample_ballot 0, [''p'']) \<and> (\<forall>evs' s''. sender_run s' evs' s'' \<longrightarrow> handled evs' = [])"
proof -
  obtain evs0 where r0: "sender_run NewSender evs0 (sample_broken 0)" using sample_broken_reached by blast
  have b: "broken (sample_broken 0) ''p''" by (simp add: broken_def sample_broken_def)
  obtain evs where evs: "sender_run (sample_broken 0) evs (sample_broken conn_cap)" "length (to_addr ''p'' (handled evs)) = conn_cap"
    using sample_broken_filled by blast
  let ?s = "(sample_broken conn_cap)\<lparr>sd_current := Some (sample_ballot 0, [''p''])\<rparr>"
  have "sender_run (sample_broken conn_cap) [Accepted (sample_net [''p'']), Silent] ?s"
    using take_up_run[of "sd_conns (sample_broken conn_cap)" "sample_net [''p'']"] by (simp add: sample_broken_def sample_net_def)
  from sender_run_trans[OF this evs(1)]
  have r: "sender_run (sample_broken 0) (evs @ [Accepted (sample_net [''p'']), Silent]) ?s" .
  have q: "length (queued ?s ''p'') = conn_cap" by (simp add: queued_def sample_broken_def)
  have "\<forall>evs' s''. sender_run ?s evs' s'' \<longrightarrow> handled evs' = []"
    using broken_connection_blocks_sender[OF r0 b r] q by simp
  then show ?thesis using r0 b r q evs(2)
    by (intro exI[of _ evs0] exI[of _ "sample_broken 0"] exI[of _ "evs @ [Accepted (sample_net [''p'']), Silent]"] exI[of _ ?s]) simp
qed

end
