(* ===== verification/Logger.thy ===== *)
theory Logger
  imports Config
begin

text \<open>
  src/logger/logger.go and src/logger/writer.go: where the four loggers write. The text of a log
  line has no effect on the program and is not modelled.
\<close>

unbundle bit_operations_syntax

datatype writer = Stdout | Discard | File string

abbreviation (input) InfoLevel :: int where "InfoLevel \<equiv> 1"
abbreviation (input) DebugLevel :: int where "DebugLevel \<equiv> 2"
abbreviation (input) ErrorLevel :: int where "ErrorLevel \<equiv> 4"
abbreviation (input) WarnLevel :: int where "WarnLevel \<equiv> 8"

definition TestLevel :: int where
  "TestLevel = InfoLevel OR DebugLevel OR ErrorLevel OR WarnLevel"

definition DeployLevel :: int where
  "DeployLevel = InfoLevel OR ErrorLevel OR WarnLevel"

abbreviation (input) LevelNum :: nat where "LevelNum \<equiv> 4"

text \<open>The outputs of the loggers of the list \<open>logs\<close>, and the list \<open>out\<close>.\<close>

record logger =
  lg_logs :: "writer list"
  lg_out :: "writer list"

definition default_logger :: logger where
  "default_logger = \<lparr>lg_logs = replicate LevelNum Stdout, lg_out = replicate LevelNum Stdout\<rparr>"

definition SetLevel :: "int \<Rightarrow> logger \<Rightarrow> logger" where
  "SetLevel level lg =
     fold (\<lambda>i lg. if drop_bit i level AND 1 = 1 then lg\<lparr>lg_logs := (lg_logs lg)[i := lg_out lg ! i]\<rparr>
                  else lg\<lparr>lg_logs := (lg_logs lg)[i := Discard]\<rparr>) [0..<LevelNum] lg"

definition SetOutput :: "int \<Rightarrow> writer \<Rightarrow> logger \<Rightarrow> logger" where
  "SetOutput level w lg =
     fold (\<lambda>i lg. if drop_bit i level AND 1 = 1 then lg\<lparr>lg_logs := (lg_logs lg)[i := w], lg_out := (lg_out lg)[i := w]\<rparr>
                  else lg) [0..<LevelNum] lg"

text \<open>The file is created if it is missing, and not truncated otherwise.\<close>

definition NewFileWriter :: "string \<Rightarrow> filesystem \<Rightarrow> (writer \<times> filesystem) option" where
  "NewFileWriter path fs =
     (if \<not> fs_writable fs path then None
      else Some (File path, case fs_files fs path of None \<Rightarrow> fs\<lparr>fs_files := (fs_files fs)(path \<mapsto> [])\<rparr> | Some t \<Rightarrow> fs))"

section \<open>Levels\<close>

lemma level_bit: "drop_bit i (level :: int) AND 1 = 1 \<longleftrightarrow> bit level i"
  by (metis and_one_eq bit_iff_odd_drop_bit odd_iff_mod_2_eq_one)

lemma loop_4: "fold f [0..<LevelNum] x = f 3 (f 2 (f 1 (f 0 x)))"
  by (simp add: upt_rec numeral_3_eq_3 numeral_2_eq_2)

text \<open>
  The four writers a node sets up: after \<open>SetLevel\<close> the logger of a level writes to its own file if
  the bit of the level is set, and nowhere otherwise.
\<close>

lemma SetLevel_outputs:
  assumes "lg_out lg = [w0, w1, w2, w3]" "length (lg_logs lg) = 4"
  shows "lg_logs (SetLevel level lg) =
    [if bit level 0 then w0 else Discard, if bit level 1 then w1 else Discard,
     if bit level 2 then w2 else Discard, if bit level 3 then w3 else Discard]"
proof -
  obtain a b c d where "lg_logs lg = [a, b, c, d]" using assms(2) by (auto simp: numeral_eq_Suc length_Suc_conv)
  then show ?thesis using assms(1) by (simp add: SetLevel_def loop_4 level_bit numeral_3_eq_3 numeral_2_eq_2)
qed

lemma SetOutput_level [simp]:
  fixes a b c d e f g h :: writer
  defines "lg \<equiv> \<lparr>lg_logs = [a, b, c, d], lg_out = [e, f, g, h]\<rparr>"
  shows "SetOutput InfoLevel w lg = \<lparr>lg_logs = [w, b, c, d], lg_out = [w, f, g, h]\<rparr>"
    and "SetOutput DebugLevel w lg = \<lparr>lg_logs = [a, w, c, d], lg_out = [e, w, g, h]\<rparr>"
    and "SetOutput ErrorLevel w lg = \<lparr>lg_logs = [a, b, w, d], lg_out = [e, f, w, h]\<rparr>"
    and "SetOutput WarnLevel w lg = \<lparr>lg_logs = [a, b, c, w], lg_out = [e, f, g, w]\<rparr>"
  by (simp_all add: lg_def SetOutput_def loop_4 drop_bit_eq_div and_one_eq)

end
