(* ===== verification/System.thy ===== *)
theory System
  imports Network Lean_Panics Big_Panics Big_Proposals DAG_Panics
begin

text \<open>
  A network of nodes. Every member runs one of the protocols; what the sender of a node takes from
  its channel is on the wire for the addresses of the message, from where it may be delivered to the
  member with that address, any number of times, in any order, or never. (Network.thy shows
  that a connection does no more than that.) An adversary, which stands for faulty members and
  everybody else, may put further messages on the wire.
\<close>

section \<open>Systems\<close>







section \<open>From the nodes to the system\<close>


section \<open>The three protocols\<close>












end
