(* ===== verification/Coins.thy ===== *)
theory Coins
  imports Lean_Safety Big_Proposals DAG_Stall
begin

text \<open>
  Leaders and whole nodes. The elector of Elector.thy changes only through \<open>Elector.Add\<close>, in every run
  of a node of each protocol, so that the nodes of a threshold group elect the same leader of a view.
  But a lean node also takes a leader from another node's \<open>RandomCoinMsg\<close>, and then any
  single member decides which block is committed.
\<close>

section \<open>Nodes that elect\<close>

lemma Elector_adds_snoc:
  "Elector_adds cx el es = Some (el1, rs) \<Longrightarrow> Elector_Add cx el1 e = Some (el2, r) \<Longrightarrow> Elector_adds cx el (es @ [e]) = Some (el2, rs @ [r])"
proof (induction es arbitrary: el rs)
  case (Cons a es)
  then obtain el0 r0 rs' where "Elector_Add cx el a = Some (el0, r0)" "Elector_adds cx el0 es = Some (el1, rs')" "rs = r0 # rs'"
    by (auto simp: Option.bind_eq_Some_conv)
  with Cons.IH[of el0 rs'] Cons.prems(2) show ?case by simp
qed simp

definition elector_step :: "'k crypto_ext \<Rightarrow> 'k Elector \<Rightarrow> 'k Elector \<Rightarrow> bool" where
  "elector_step cx el el' \<longleftrightarrow> el' = el \<or> (\<exists>e r. Elector_Add cx el e = Some (el', r))"

lemma elector_step_refl [simp]: "elector_step cx el el"
  by (simp add: elector_step_def)

locale electing_node =
  fixes mc :: "('core, 'g) machine" and cx :: "'k crypto_ext" and elector_of :: "'core \<Rightarrow> 'k Elector"
  assumes handle_elects: "mc_handle mc core inp = Some (core', effs, err) \<Longrightarrow> elector_step cx (elector_of core) (elector_of core')"
    and section_elects: "mc_section mc core g = Some (core', effs', g') \<Longrightarrow> elector_of core' = elector_of core"
    and background_elects: "mc_background mc core core' \<Longrightarrow> elector_of core' = elector_of core"
begin

lemma perform_core: "perform c e nd = Some nd' \<Longrightarrow> nd_core nd' = nd_core nd"
  by (cases e) (auto split: if_splits)

lemma step_elects: "node_step mc net nd effs nd' \<Longrightarrow> elector_step cx (elector_of (nd_core nd)) (elector_of (nd_core nd'))"
  by (induction rule: node_step.induct) (auto dest: perform_core handle_elects section_elects background_elects)

lemma run_elects:
  "node_run mc net nd0 tr nd \<Longrightarrow> \<exists>es rs. Elector_adds cx (elector_of (nd_core nd0)) es = Some (elector_of (nd_core nd), rs)"
proof (induction rule: node_run.induct)
  case start
  show ?case by (rule exI[of _ "[]"]) simp
next
  case (more tr nd effs nd')
  then obtain es rs where "Elector_adds cx (elector_of (nd_core nd0)) es = Some (elector_of (nd_core nd), rs)" by blast
  with step_elects[OF more(2)] Elector_adds_snoc show ?case unfolding elector_step_def by metis
qed

text \<open>Two nodes, each in a run of its own.\<close>

lemma same_leader:
  assumes "recover_unique cx" "same_group cx s1 s2"
    and "elector_of core1 = NewElector s1 c" "node_run mc net1 (boot_node core1 effs1) tr1 nd1"
    and "elector_of core2 = NewElector s2 c" "node_run mc net2 (boot_node core2 effs2) tr2 nd2"
    and "el_leaders (elector_of (nd_core nd1)) v = Some l1" "el_leaders (elector_of (nd_core nd2)) v = Some l2"
  shows "l1 = l2 \<and> 0 \<le> l1 \<and> l1 < Committee_Size c"
proof -
  obtain es1 rs1 where 1: "Elector_adds cx (NewElector s1 c) es1 = Some (elector_of (nd_core nd1), rs1)"
    using run_elects[OF assms(4)] assms(3) by (auto simp: boot_node_def)
  obtain es2 rs2 where 2: "Elector_adds cx (NewElector s2 c) es2 = Some (elector_of (nd_core nd2), rs2)"
    using run_elects[OF assms(6)] assms(5) by (auto simp: boot_node_def)
  have "elected cx c s1 v (shares_for v es1) = Some l1" "elected cx c s2 v (shares_for v es2) = Some l2"
    using elector_after_adds[OF elector_after_new 1] elector_after_adds[OF elector_after_new 2] assms(7,8)
    by (auto simp: elector_after_def)
  then show ?thesis using elected_agree[OF assms(1,2)] elected_range by blast
qed

end

section \<open>The elector in the three cores\<close>

lemma Core_handle_elector:
  assumes "Core_handle cx dx core inp = Some (core', effs, err)"
  shows "elector_step cx (co_eletor core) (co_eletor core')"
proof (cases inp)
  case (InMsg m)
  have coin: "co_eletor core2 = co_eletor core1" if "processCoin cx dx core1 l v = Some (core2, effs', err')" for core1 core2 l v effs' err'
    using processCoin_outcome[OF that] by auto
  show ?thesis
  proof (cases m)
    case (ProposeM p)
    then show ?thesis using assms InMsg handleProposeMsg_outcome[of cx dx core p core' effs err] by auto
  next
    case (VoteM v)
    then show ?thesis using assms InMsg handleVoteMsg_outcome[of cx core v core' effs err] by auto
  next
    case (FinVoteM f)
    then show ?thesis using assms InMsg handleFinVoteMsg_outcome[of cx core f core' effs err] by auto
  next
    case (SpeedVoteM v)
    then show ?thesis using assms InMsg handleSpeedVoteMsg_outcome[of cx core v core' effs err] by auto
  next
    case (ElectM e)
    with assms InMsg have h: "handleElectMsg cx dx core e = Some (core', effs, err)" by simp
    from handleElectMsg_outcome[OF h] show ?thesis by (auto simp: elector_step_def dest!: coin)
  next
    case (RandomCoinM r)
    then show ?thesis using assms InMsg coin[of core "rc_Leader r" "rc_View r" core' effs err]
      by (auto simp: handleCoinMsg_def elim!: verifiedE)
  next
    case (ReportM r)
    with assms InMsg have h: "handleReportMsg cx core r = Some (core', effs, err)" by simp
    from handleReportMsg_outcome[OF h] show ?thesis by (auto dest!: advanceView_outcome)
  qed (use assms InMsg in simp)
qed (use assms in simp)

lemma BigCore_handle_elector:
  assumes "BigCore_handle cx dx core inp = Some (core', effs, err)"
  shows "elector_step cx (bc_eletor core) (bc_eletor core')"
proof (cases inp)
  case (InMsg m)
  have coin: "bc_eletor core2 = bc_eletor core1" if "BigCore_processCoin cx dx core1 l v = Some (core2, effs', err')" for core1 core2 l v effs' err'
    using that by (auto simp: BigCore_processCoin_def Let_def Option.bind_eq_Some_conv dest!: BigCore_coin_commit_outcome split: sum.splits prod.splits)
  have adv: "bc_eletor core2 = bc_eletor core1" if "BigCore_advanceView cx core1 v qc = Some (core2, effs')" for core1 core2 v qc effs'
    using that by (auto simp: BigCore_advanceView_def dest!: BigCore_propose_outcome split: if_splits)
  show ?thesis
  proof (cases m)
    case (ProposeM p)
    then show ?thesis using assms InMsg
      by (cases "storeBlock cx dx (bc_store core) (the (pm_B p))")
         (auto simp: BigCore_handleProposeMsg_def Option.bind_eq_Some_conv elim!: verifiedE split: option.splits)
  next
    case (VoteM v)
    then show ?thesis using assms InMsg by (auto simp: BigCore_handleVoteMsg_def elim!: verifiedE)
  next
    case (SpeedVoteM sv)
    then show ?thesis using assms InMsg
      by (auto simp: BigCore_handleSpeedVoteMsg_def Let_def Option.bind_eq_Some_conv elim!: verifiedE)
  next
    case (ElectM oe)
    show ?thesis
    proof (cases "\<exists>e. oe = Some e \<and> ElectMsg_Verify cx e")
      case True
      then obtain e where e: "oe = Some e" "ElectMsg_Verify cx e" by blast
      with assms InMsg ElectM obtain el res where add: "Elector_Add cx (bc_eletor core) e = Some (el, res)"
        by (cases "Elector_Add cx (bc_eletor core) e") (auto simp: BigCore_handleElectMsg_def)
      have "bc_eletor core' = el"
        using assms InMsg ElectM e add by (cases res) (auto simp: BigCore_handleElectMsg_def Let_def dest!: coin split: if_splits)
      then show ?thesis using add by (auto simp: elector_step_def)
    next
      case False
      then show ?thesis using assms InMsg ElectM by (auto simp: BigCore_handleElectMsg_def Option.bind_eq_Some_conv)
    qed
  next
    case (ReportM r)
    then show ?thesis using assms InMsg
      by (auto simp: BigCore_handleReportMsg_def Let_def Option.bind_eq_Some_conv dest!: adv elim!: verifiedE split: if_splits)
  qed (use assms InMsg in simp_all)
qed (use assms in simp)

lemma DAGBigCore_handle_elector:
  assumes "DAGBigCore_handle cx dx core inp = Some (core', effs, err)"
  shows "elector_step cx (da_eletor core) (da_eletor core')"
proof (cases "\<exists>r. inp = InMsg (ReportM r)")
  case True
  have adv: "da_eletor core2 = da_eletor core1" if "DAGBigCore_advanceView cx core1 v h = Some (core2, effs')" for core1 core2 v h effs'
    using DAGBigCore_advanceView_outcome[OF that] by auto
  from True show ?thesis using assms
    by (auto simp: DAGBigCore_handleReportMsg_def Let_def Option.bind_eq_Some_conv dest!: adv elim!: verifiedE split: if_splits)
next
  case False
  then show ?thesis using DAGBigCore_handle_view[OF assms] by (auto simp: elector_step_def)
qed

interpretation lean_elects: electing_node "lean_machine cx dx c" cx co_eletor for cx :: "'k crypto_ext" and dx :: "'db store_ext" and c
proof
  fix core :: "('k, 'db) Core" and inp core' effs err
  assume "mc_handle (lean_machine cx dx c) core inp = Some (core', effs, err)"
  then show "elector_step cx (co_eletor core) (co_eletor core')" using Core_handle_elector[of cx dx core inp] by (simp add: lean_machine_def)
next
  fix core :: "('k, 'db) Core" and g core' effs' g'
  assume "mc_section (lean_machine cx dx c) core g = Some (core', effs', g')"
  then show "co_eletor core' = co_eletor core"
    using processVoteMsg_quorum_outcome[of cx core _ _ core' effs']
    by (cases "(cx, core, g)" rule: SPB_section.cases) (fastforce simp: lean_machine_def Option.bind_eq_Some_conv split: prod.splits)+
qed (auto simp: lean_machine_def Core_background_def)

interpretation big_elects: electing_node "big_machine cx dx c" cx bc_eletor for cx :: "'k crypto_ext" and dx :: "'db store_ext" and c
proof
  fix core :: "('k, 'db) BigCore" and inp core' effs err
  assume "mc_handle (big_machine cx dx c) core inp = Some (core', effs, err)"
  then show "elector_step cx (bc_eletor core) (bc_eletor core')" using BigCore_handle_elector[of cx dx core inp] by (simp add: big_machine_def)
next
  fix core :: "('k, 'db) BigCore" and g core' effs' g'
  assume "mc_section (big_machine cx dx c) core g = Some (core', effs', g')"
  then show "bc_eletor core' = bc_eletor core"
    by (cases g) (auto simp: big_machine_def elim!: BigCore_sectionE dest!: BigCore_propose_outcome)
qed (auto simp: big_machine_def BigCore_background_def)

interpretation dag_elects: electing_node "dag_machine cx dx c" cx da_eletor for cx :: "'k crypto_ext" and dx :: "'db store_ext" and c
proof
  fix core :: "('k, 'db) DAGBigCore" and inp core' effs err
  assume "mc_handle (dag_machine cx dx c) core inp = Some (core', effs, err)"
  then show "elector_step cx (da_eletor core) (da_eletor core')" using DAGBigCore_handle_elector[of cx dx core inp] by (simp add: dag_machine_def)
next
  fix core :: "('k, 'db) DAGBigCore" and g core' effs' g'
  assume "mc_section (dag_machine cx dx c) core g = Some (core', effs', g')"
  then show "da_eletor core' = da_eletor core"
    by (cases g) (auto simp: dag_machine_def elim!: DAGBigCore_sectionE)
qed (auto simp: dag_machine_def DAGBigCore_background_def)

section \<open>The common coin\<close>

lemma boot_electors:
  "Core_boot cx (NewCore i c pr pool db s) = Some (core, effs) \<Longrightarrow> co_eletor core = NewElector s c"
  "BigCore_boot cx (NewBigCore i c pr pool db s) = Some (bcore, beffs) \<Longrightarrow> bc_eletor bcore = NewElector s c"
  "DAGBigCore_boot cx (NewDAGBigCore i c pr pool db s) = Some (dcore, deffs) \<Longrightarrow> da_eletor dcore = NewElector s c"
  by (auto simp: Core_boot_def NewCore_def generatorBlock_def BigCore_boot_def NewBigCore_def BigCore_propose_def BigCore_generatorBlock_def
      DAGBigCore_boot_def NewDAGBigCore_def DAGBigCore_generatorBlock_def Option.bind_eq_Some_conv split: if_splits prod.splits)

text \<open>
  C2. The leaders that the electors of two lean nodes hold. In any two runs of two nodes of the same
  threshold group, whatever the networks deliver to them, whenever both have elected a leader of
  a view, it is the same one, and an index of the committee.
\<close>

theorem lean_nodes_elect_same_leader:
  assumes "recover_unique cx" "same_group cx s1 s2"
    and "Core_boot cx (NewCore i c pr1 pool1 db1 s1) = Some (core1, effs1)" "node_run (lean_machine cx dx c) net1 (boot_node core1 effs1) tr1 nd1"
    and "Core_boot cx (NewCore j c pr2 pool2 db2 s2) = Some (core2, effs2)" "node_run (lean_machine cx dx c) net2 (boot_node core2 effs2) tr2 nd2"
    and "el_leaders (co_eletor (nd_core nd1)) v = Some l1" "el_leaders (co_eletor (nd_core nd2)) v = Some l2"
  shows "l1 = l2 \<and> 0 \<le> l1 \<and> l1 < Committee_Size c"
  by (rule lean_elects.same_leader[OF assms(1,2) boot_electors(1)[OF assms(3)] assms(4) boot_electors(1)[OF assms(5)] assms(6-8)])

text \<open>The same for the two other protocols.\<close>

theorem big_nodes_elect_same_leader:
  assumes "recover_unique cx" "same_group cx s1 s2"
    and "BigCore_boot cx (NewBigCore i c pr1 pool1 db1 s1) = Some (core1, effs1)" "node_run (big_machine cx dx c) net1 (boot_node core1 effs1) tr1 nd1"
    and "BigCore_boot cx (NewBigCore j c pr2 pool2 db2 s2) = Some (core2, effs2)" "node_run (big_machine cx dx c) net2 (boot_node core2 effs2) tr2 nd2"
    and "el_leaders (bc_eletor (nd_core nd1)) v = Some l1" "el_leaders (bc_eletor (nd_core nd2)) v = Some l2"
  shows "l1 = l2 \<and> 0 \<le> l1 \<and> l1 < Committee_Size c"
  by (rule big_elects.same_leader[OF assms(1,2) boot_electors(2)[OF assms(3)] assms(4) boot_electors(2)[OF assms(5)] assms(6-8)])

theorem dag_nodes_elect_same_leader:
  assumes "recover_unique cx" "same_group cx s1 s2"
    and "DAGBigCore_boot cx (NewDAGBigCore i c pr1 pool1 db1 s1) = Some (core1, effs1)" "node_run (dag_machine cx dx c) net1 (boot_node core1 effs1) tr1 nd1"
    and "DAGBigCore_boot cx (NewDAGBigCore j c pr2 pool2 db2 s2) = Some (core2, effs2)" "node_run (dag_machine cx dx c) net2 (boot_node core2 effs2) tr2 nd2"
    and "el_leaders (da_eletor (nd_core nd1)) v = Some l1" "el_leaders (da_eletor (nd_core nd2)) v = Some l2"
  shows "l1 = l2 \<and> 0 \<le> l1 \<and> l1 < Committee_Size c"
  by (rule dag_elects.same_leader[OF assms(1,2) boot_electors(3)[OF assms(3)] assms(4) boot_electors(3)[OF assms(5)] assms(6-8)])

text \<open>Nodes 0 and 1 of a committee of four each receive three shares of view 0, in different orders.\<close>

lemma sample_election:
  fixes a b d :: node_id
  assumes "(a, b, d) \<in> {(0, 1, 2), (3, 2, 0)}"
  shows "\<exists>el1 el2 el3 l. Elector_Add sample_cx (NewElector sample_service (sample_committee 4)) (sample_elect 0 a) = Some (el1, Inr NONE) \<and>
    Elector_Add sample_cx el1 (sample_elect 0 b) = Some (el2, Inr NONE) \<and>
    Elector_Add sample_cx el2 (sample_elect 0 d) = Some (el3, Inr l) \<and> l \<noteq> NONE \<and> el_leaders el3 0 = Some l"
  using assms by (auto simp: sample_election_defs sample_cx_def sample_service_def)

lemma sample_processCoin:
  assumes "co_sigService core = sample_service" "co_spbInstances core = Map.empty" "co_coinViewFlags core = {}"
  shows "\<exists>core' effs. processCoin sample_cx dx core l 0 = Some (core', effs, None) \<and> co_eletor core' = co_eletor core"
proof -
  obtain report where "NewReportMsg sample_cx sample_service (co_nodeID core) 0 LEVEL_0 None = Some report"
    using New_msg_panics by (cases "NewReportMsg sample_cx sample_service (co_nodeID core) 0 LEVEL_0 None") auto
  moreover have "spb_at core 0 l = NewSPB l 0" using assms(2) by (simp add: spb_at_def inst_at_def)
  ultimately show ?thesis using assms
    by (simp add: processCoin_def coin_commit_def SPB_SpeedCert_def SPB_DecCert_def SPB_QCLEvel_def NewSPB_def)
qed

lemma sample_elected:
  fixes a b d :: node_id
  assumes "(a, b, d) \<in> {(0, 1, 2), (3, 2, 0)}"
  shows "\<exists>nd tr l. exec sample_lean [Deliver (ElectM (Some (sample_elect 0 a))), Deliver (ElectM (Some (sample_elect 0 b))),
       Deliver (ElectM (Some (sample_elect 0 d))), Main, Main, Main, Main, Main] (boot_node (sample_core i) [ESend i NONE m, EEnq m]) = Some (nd, tr) \<and>
     el_leaders (co_eletor (nd_core nd)) 0 = Some l"
proof -
  from sample_election[OF assms] obtain el1 el2 el3 l where
    1: "Elector_Add sample_cx (NewElector sample_service (sample_committee 4)) (sample_elect 0 a) = Some (el1, Inr NONE)"
    and 2: "Elector_Add sample_cx el1 (sample_elect 0 b) = Some (el2, Inr NONE)"
    and 3: "Elector_Add sample_cx el2 (sample_elect 0 d) = Some (el3, Inr l)" "l \<noteq> NONE" "el_leaders el3 0 = Some l" by blast
  let ?core = "\<lambda>el. (sample_core i)\<lparr>co_eletor := el\<rparr>"
  have f: "co_eletor (sample_core i) = NewElector sample_service (sample_committee 4)" "co_view (sample_core i) = 0" "co_nodeID (sample_core i) = i"
      "co_sigService (sample_core i) = sample_service" "co_spbInstances (sample_core i) = Map.empty" "co_coinViewFlags (sample_core i) = {}"
    by (simp_all add: sample_core_def NewCore_def)
  obtain coin where c: "NewRandomCoinMsg sample_cx sample_service l i 0 = Some coin"
    using New_msg_panics by (cases "NewRandomCoinMsg sample_cx sample_service l i 0") auto
  obtain core' effs where p: "processCoin sample_cx (sample_dx []) (?core el3) l 0 = Some (core', effs, None)" "co_eletor core' = el3"
    using sample_processCoin[of "?core el3" "sample_dx []" l] f by auto
  have v: "ElectMsg_Verify sample_cx e" "em_View (sample_elect 0 n) = 0" for e n
    by (simp_all add: ElectMsg_Verify_def SignatureShare_Verify_def sample_elect_def)
  have h: "handleElectMsg sample_cx (sample_dx []) (sample_core i) (Some (sample_elect 0 a)) = Some (?core el1, [], None)"
      "handleElectMsg sample_cx (sample_dx []) (?core el1) (Some (sample_elect 0 b)) = Some (?core el2, [], None)"
      "handleElectMsg sample_cx (sample_dx []) (?core el2) (Some (sample_elect 0 d)) = Some (core', ESend i NONE (RandomCoinM coin) # effs, None)"
    using 1 2 3 c p f v by (simp_all add: handleElectMsg_def messageFilter_def)
  show ?thesis using h p(2) 3(3) by (simp add: boot_node_def recv_cap_def send_cap_def sample_lean_def lean_machine_def)
qed

lemma sample_elected_run:
  fixes a b d :: node_id
  assumes "(a, b, d) \<in> {(0, 1, 2), (3, 2, 0)}"
  shows "\<exists>nd tr l. node_run sample_lean (\<lambda>_. True) (boot_node (sample_core i) [ESend i NONE m, EEnq m]) tr nd \<and>
     el_leaders (co_eletor (nd_core nd)) 0 = Some l"
proof -
  obtain nd tr l where x: "exec sample_lean [Deliver (ElectM (Some (sample_elect 0 a))), Deliver (ElectM (Some (sample_elect 0 b))),
       Deliver (ElectM (Some (sample_elect 0 d))), Main, Main, Main, Main, Main] (boot_node (sample_core i) [ESend i NONE m, EEnq m]) = Some (nd, tr)"
      "el_leaders (co_eletor (nd_core nd)) 0 = Some l" using sample_elected[OF assms] by blast
  have "node_run sample_lean (\<lambda>_. True) (boot_node (sample_core i) [ESend i NONE m, EEnq m]) tr nd"
    by (rule exec_run[OF x(1)]) (simp_all add: boot_node_def)
  with x(2) show ?thesis by blast
qed

lemma sample_boots:
  "0 \<le> i \<Longrightarrow> Core_boot sample_cx (sample_core i) =
     Some (sample_core i, [ESend i NONE (ProposeM (sample_proposal i 0 HEIGHT_1)), EEnq (ProposeM (sample_proposal i 0 HEIGHT_1))])"
  using sample_proposal_eq[of i 0 HEIGHT_1]
  by (simp add: Core_boot_def sample_core_def NewCore_def DefaultParameters_def generatorBlock_def sample_block_def)

theorem lean_nodes_elect_same_leader_witness:
  "\<exists>tr1 nd1 tr2 nd2 l. recover_unique sample_cx \<and> same_group sample_cx sample_service sample_service \<and>
     node_run sample_lean (\<lambda>_. True) (boot_node (sample_core 0) [ESend 0 NONE (ProposeM (sample_proposal 0 0 HEIGHT_1)), EEnq (ProposeM (sample_proposal 0 0 HEIGHT_1))]) tr1 nd1 \<and>
     node_run sample_lean (\<lambda>_. True) (boot_node (sample_core 1) [ESend 1 NONE (ProposeM (sample_proposal 1 0 HEIGHT_1)), EEnq (ProposeM (sample_proposal 1 0 HEIGHT_1))]) tr2 nd2 \<and>
     el_leaders (co_eletor (nd_core nd1)) 0 = Some l \<and> el_leaders (co_eletor (nd_core nd2)) 0 = Some l \<and> l < 4"
proof -
  let ?e = "\<lambda>i. [ESend i NONE (ProposeM (sample_proposal i 0 HEIGHT_1)), EEnq (ProposeM (sample_proposal i 0 HEIGHT_1))] :: lean_go effect list"
  note u = sample_group
  obtain nd1 tr1 l1 where 1: "node_run sample_lean (\<lambda>_. True) (boot_node (sample_core 0) (?e 0)) tr1 nd1" "el_leaders (co_eletor (nd_core nd1)) 0 = Some l1"
    using sample_elected_run[of 0 1 2 0 "ProposeM (sample_proposal 0 0 HEIGHT_1)"] by auto
  obtain nd2 tr2 l2 where 2: "node_run sample_lean (\<lambda>_. True) (boot_node (sample_core 1) (?e 1)) tr2 nd2" "el_leaders (co_eletor (nd_core nd2)) 0 = Some l2"
    using sample_elected_run[of 3 2 0 1 "ProposeM (sample_proposal 1 0 HEIGHT_1)"] by auto
  have "l1 = l2 \<and> 0 \<le> l1 \<and> l1 < Committee_Size (sample_committee 4)"
    using lean_nodes_elect_same_leader[OF u sample_boots[of 0, unfolded sample_core_def] 1(1)[unfolded sample_lean_def sample_core_def]
        sample_boots[of 1, unfolded sample_core_def] 2(1)[unfolded sample_lean_def sample_core_def] 1(2) 2(2)] by simp
  then have "l1 = l2" "l1 < 4" by (simp_all add: Committee_Size_def sample_committee_def)
  with u 1 2 show ?thesis by blast
qed

section \<open>A leader from a message\<close>

text \<open>
  The digest of the block that a coin with leader \<open>l\<close> is about: that of the second block with a speed
  certificate, else that of the first with a decision certificate; and what of it reaches the
  committer.
\<close>

definition coin_block :: "('k, 'db) Core \<Rightarrow> node_id \<Rightarrow> int \<Rightarrow> digest option" where
  "coin_block core l v =
     (let s = spb_at core v l in
      if SPB_SpeedCert s then Some (SPB_BlockHash s HEIGHT_2)
      else if SPB_DecCert s then Some (SPB_BlockHash s HEIGHT_1) else None)"

definition submitted :: "'db store_ext \<Rightarrow> ('k, 'db) Core \<Rightarrow> digest option \<Rightarrow> lean_go effect list" where
  "submitted dx core od =
     (case od of None \<Rightarrow> []
      | Some d \<Rightarrow> (case getBlock dx (co_store core) d of Inl e \<Rightarrow> []
                   | Inr b \<Rightarrow> (case snd (Commitor_Commit (co_commitor core) b) of None \<Rightarrow> [] | Some b' \<Rightarrow> [ECommit b'])))"

lemma coin_commit_submits:
  assumes "pred_option (\<lambda>d. \<exists>b. getBlock dx (co_store core) d = Inr b) (coin_block core l v)"
  shows "\<exists>cm. coin_commit dx core (spb_at core v l) = Inr (core\<lparr>co_commitor := cm\<rparr>, submitted dx core (coin_block core l v))"
proof (cases "coin_block core l v")
  case None
  then show ?thesis
    by (intro exI[of _ "co_commitor core"]) (auto simp: coin_block_def coin_commit_def submitted_def Let_def split: if_splits)
next
  case (Some d)
  with assms obtain b where "getBlock dx (co_store core) d = Inr b" by auto
  moreover have "coin_commit dx core (spb_at core v l) = commit_block dx core d"
    using Some by (auto simp: coin_block_def coin_commit_def Let_def split: if_splits)
  ultimately show ?thesis using Some
    by (intro exI[of _ "fst (Commitor_Commit (co_commitor core) b)"]) (simp add: commit_block_def submitted_def split: prod.split)
qed

text \<open>A flagged view stays flagged.\<close>

interpretation lean_flag: node_invariant "lean_machine cx dx c" net "\<lambda>core tr. v \<in> co_coinViewFlags core"
    "\<lambda>_. True" "\<lambda>_. True" "\<lambda>_ _. True"
  for cx :: "'k crypto_ext" and dx :: "'db store_ext" and c net v
proof
  fix core :: "('k, 'db) Core" and i core' effs err
  assume "v \<in> co_coinViewFlags core" "mc_handle (lean_machine cx dx c) core i = Some (core', effs, err)"
  then show "v \<in> co_coinViewFlags core' \<and> list_all (effect_ok (\<lambda>_. True) (\<lambda>_. True) (\<lambda>_ _. True)) effs"
    using Core_handle_delta[of cx dx core i core' effs err] by (auto simp: lean_machine_def lean_delta_def)
next
  fix core :: "('k, 'db) Core" and g core' effs g'
  assume "v \<in> co_coinViewFlags core" "mc_section (lean_machine cx dx c) core g = Some (core', effs, g')"
  then show "v \<in> co_coinViewFlags core' \<and> list_all (effect_ok (\<lambda>_. True) (\<lambda>_. True) (\<lambda>_ _. True)) effs \<and> pred_option (\<lambda>_. True) g'"
    using SPB_section_delta[of cx core g core' effs g'] by (auto simp: lean_machine_def lean_delta_def option.pred_True)
qed (auto simp: lean_machine_def Core_background_def)

lemma flagged_for_good:
  assumes "v \<in> co_coinViewFlags (nd_core nd)" "node_run (lean_machine cx dx c) net nd tr nd'"
  shows "v \<in> co_coinViewFlags (nd_core nd')"
proof -
  have "lean_flag.node_ok v [] nd"
    using assms(1) by (auto simp: lean_flag.node_ok_def list_all_iff option.pred_True)
  from lean_flag.run_ok[OF assms(2) this] show ?thesis by (simp add: lean_flag.node_ok_def)
qed

text \<open>
  C18. One member decides the leader of a view at a lean node. Let a node that has not yet processed
  a coin of the view receive a \<open>RandomCoinMsg\<close> that verifies under the key of its author, which may be
  any member, and that names the leader \<open>l\<close>, any number; and let the block that \<open>l\<close>'s instance has
  certified, if it has certified one, be in the store. Then the
  node takes \<open>l\<close> for the leader: it submits that block (nothing, if there is no certificate or the
  committer is past the block), sends its report and is done with the view, without a look at its
  elector or at any share. From then on, in every run, every coin of the view, elected or named by
  another member, is ignored. So one faulty member can make two nodes in the same state commit
  blocks of different proposers of one view.
\<close>

theorem lean_coin_dictated:
  fixes core :: "('k, 'db) Core" and m :: RandomCoinMsg
  defines "v \<equiv> rc_View m" and "od \<equiv> coin_block core (rc_Leader m) (rc_View m)"
  assumes "RandomCoinMsg_Verify cx (co_committee core) m = Some True" "can_sign (co_sigService core)" "v \<notin> co_coinViewFlags core"
    and "pred_option (\<lambda>d. \<exists>b. getBlock dx (co_store core) d = Inr b) od"
  shows "\<exists>core' report. Core_handle cx dx core (InMsg (RandomCoinM m)) =
      Some (core', submitted dx core od @ [ESend (co_nodeID core) NONE (ReportM report), EEnq (ReportM report)], None) \<and>
    rm_View report = v \<and> co_eletor core' = co_eletor core \<and>
    (\<forall>c net nd tr nd' l'. nd_core nd = core' \<and> node_run (lean_machine cx dx c) net nd tr nd' \<longrightarrow>
       processCoin cx dx (nd_core nd') l' v = Some (nd_core nd', [], None))"
proof -
  let ?core1 = "getSpbInstance v (rc_Leader m) core" and ?s = "spb_at core v (rc_Leader m)"
  have cb: "coin_block ?core1 (rc_Leader m) v = od" by (simp add: coin_block_def od_def v_def)
  have "submitted dx ?core1 x = submitted dx core x" for x
    by (cases x) (simp_all add: submitted_def split: sum.split)
  with cb obtain cm where cm: "coin_commit dx ?core1 ?s = Inr (?core1\<lparr>co_commitor := cm\<rparr>, submitted dx core od)"
    using coin_commit_submits[of dx ?core1 "rc_Leader m" v] assms(6) by auto
  obtain level qc where q: "SPB_QCLEvel ?s = (level, qc)" by (cases "SPB_QCLEvel ?s")
  obtain report where r: "NewReportMsg cx (co_sigService core) (co_nodeID core) v level qc = Some report"
    using New_msg_panics assms(4) by (cases "NewReportMsg cx (co_sigService core) (co_nodeID core) v level qc") auto
  let ?core' = "?core1\<lparr>co_commitor := cm, co_coinViewFlags := insert v (co_coinViewFlags core)\<rparr>"
  have "Core_handle cx dx core (InMsg (RandomCoinM m)) =
      Some (?core', submitted dx core od @ [ESend (co_nodeID core) NONE (ReportM report), EEnq (ReportM report)], None)"
    using assms(3,5) cm q r by (simp add: handleCoinMsg_def verified_def processCoin_def Let_def v_def)
  moreover have "rm_View report = v" using NewReportMsg_fields[OF r] by simp
  moreover have "processCoin cx dx (nd_core nd') l' v = Some (nd_core nd', [], None)"
    if "nd_core nd = ?core'" "node_run (lean_machine cx dx c) net nd tr nd'" for c net nd tr nd' l'
    using flagged_for_good[of v nd, OF _ that(2)] that(1) by (simp add: processCoin_def)
  moreover have "co_eletor ?core' = co_eletor core" by simp
  ultimately show ?thesis by blast
qed

text \<open>Two proposers have speed certificates for view 0; member 3 names the one or the other.\<close>

definition sample_decided :: "(unit, string \<times> bytes \<Rightarrow> bytes option) Core" where
  "sample_decided =
     (let s = (\<lambda>i. (NewSPB i 0)\<lparr>spb_isSpeedCert := True, spb_blockHash := (\<lambda>_. Block_Hash sample_cx (sample_block i 0 HEIGHT_2))\<rparr>);
          dx = sample_dx [sample_block 0 0 HEIGHT_2, sample_block 1 0 HEIGHT_2] in
      put_spb 0 0 (s 0) (put_spb 0 1 (s 1)
        ((sample_core 2)\<lparr>co_store := storeBlocks sample_cx dx Map.empty [sample_block 0 0 HEIGHT_2, sample_block 1 0 HEIGHT_2]\<rparr>)))"

theorem lean_coin_dictated_witness:
  "let dx = sample_dx [sample_block 0 0 HEIGHT_2, sample_block 1 0 HEIGHT_2];
       coin = (\<lambda>l. InMsg (RandomCoinM (sample_coin 3 l 0)));
       post = (\<lambda>l r. [ECommit (sample_block l 0 HEIGHT_2), ESend 2 NONE (ReportM r), EEnq (ReportM r)])
   in (\<exists>core' r. Core_handle sample_cx dx sample_decided (coin 0) = Some (core', post 0 r, None) \<and>
         processCoin sample_cx dx core' 1 0 = Some (core', [], None)) \<and>
      (\<exists>core' r. Core_handle sample_cx dx sample_decided (coin 1) = Some (core', post 1 r, None) \<and>
         processCoin sample_cx dx core' 0 0 = Some (core', [], None))"
proof -
  let ?dx = "sample_dx [sample_block 0 0 HEIGHT_2, sample_block 1 0 HEIGHT_2]"
  have "\<exists>core' r. Core_handle sample_cx ?dx sample_decided (InMsg (RandomCoinM (sample_coin 3 l 0))) =
        Some (core', [ECommit (sample_block l 0 HEIGHT_2), ESend 2 NONE (ReportM r), EEnq (ReportM r)], None) \<and>
      processCoin sample_cx ?dx core' l' 0 = Some (core', [], None)"
    if l: "l \<in> {0, 1}" for l l' :: node_id
  proof -
    let ?m = "sample_coin 3 l 0" and ?b = "sample_block l 0 HEIGHT_2"
    let ?s = "spb_at sample_decided (rc_View ?m) (rc_Leader ?m)"
    have c: "co_committee sample_decided = sample_committee 4" "co_sigService sample_decided = sample_service" "co_coinViewFlags sample_decided = {}"
        "co_nodeID sample_decided = 2" "co_commitor sample_decided = NewCommitor"
      by (simp_all add: sample_decided_def sample_core_def NewCore_def Let_def)
    have s: "SPB_SpeedCert ?s" "SPB_BlockHash ?s HEIGHT_2 = Block_Hash sample_cx ?b"
      using l by (auto simp: sample_decided_def Let_def SPB_SpeedCert_def SPB_BlockHash_def)
    then have od: "coin_block sample_decided (rc_Leader ?m) (rc_View ?m) = Some (Block_Hash sample_cx ?b)"
      unfolding coin_block_def Let_def by (simp only: if_True)
    have st: "co_store sample_decided = storeBlocks sample_cx ?dx Map.empty [sample_block 0 0 HEIGHT_2, sample_block 1 0 HEIGHT_2]"
      by (simp add: sample_decided_def Let_def del: storeBlocks.simps)
    have "Block_Hash sample_cx (sample_block 0 0 HEIGHT_2) \<noteq> Block_Hash sample_cx (sample_block 1 0 HEIGHT_2)"
      by (simp add: sample_block_def Block_Hash_def Block_parts_def hash_parts_concat sample_cx_def)
    then have g: "getBlock ?dx (co_store sample_decided) (Block_Hash sample_cx ?b) = Inr ?b"
      unfolding st using l by (auto simp: sample_store_read simp del: storeBlocks.simps)
    have "snd (Commitor_Commit NewCommitor ?b) = Some ?b" by (simp add: Commitor_Commit_def NewCommitor_def sample_block_def)
    then have sub: "submitted ?dx sample_decided (Some (Block_Hash sample_cx ?b)) = [ECommit ?b]" by (simp add: submitted_def g c)
    have h: "RandomCoinMsg_Verify sample_cx (co_committee sample_decided) ?m = Some True" "can_sign (co_sigService sample_decided)"
        "rc_View ?m \<notin> co_coinViewFlags sample_decided"
        "pred_option (\<lambda>d. \<exists>b. getBlock ?dx (co_store sample_decided) d = Inr b) (coin_block sample_decided (rc_Leader ?m) (rc_View ?m))"
      by (simp_all add: c od g del: sample_coin_sel)
    from lean_coin_dictated[OF h] obtain core' r where
      x: "Core_handle sample_cx ?dx sample_decided (InMsg (RandomCoinM ?m)) =
            Some (core', [ECommit ?b] @ [ESend 2 NONE (ReportM r), EEnq (ReportM r)], None)"
      and later: "\<And>c net nd tr nd' l'. nd_core nd = core' \<Longrightarrow> node_run (lean_machine sample_cx ?dx c) net nd tr nd' \<Longrightarrow>
         processCoin sample_cx ?dx (nd_core nd') l' (rc_View ?m) = Some (nd_core nd', [], None)"
      unfolding od sub c by blast
    have "nd_core (boot_node core' []) = core'" by (simp add: boot_node_def)
    from later[OF this node_run.start, of l'] x show ?thesis by (simp add: boot_node_def)
  qed
  then show ?thesis unfolding Let_def by blast
qed

end
