(* ===== verification/Progress.thy ===== *)
theory Progress
  imports Lean_Safety Big_Safety Big_Proposals
begin

text \<open>
  Leaving a view. A node of the lean or the big protocol counts the reports of a view by level
  and enters the next view at the first report of level 2 and when the reports of level 1 or 0
  reach the quorum. The comparison is with equality, and views are skipped, so it is not
  obvious that no quorum is missed; here it is shown that none is, in any run.
\<close>

section \<open>Counting reports\<close>

definition bump :: "(int \<Rightarrow> 8 word \<Rightarrow> int) \<Rightarrow> int \<Rightarrow> 8 word \<Rightarrow> int \<Rightarrow> 8 word \<Rightarrow> int" where
  "bump nums v l = nums(v := (nums v)(l := nums v l + 1))"

text \<open>The condition of the handlers, and what it stands for.\<close>

definition report_trigger :: "int \<Rightarrow> (8 word \<Rightarrow> int) \<Rightarrow> bool" where
  "report_trigger thr nums \<longleftrightarrow> nums LEVEL_2 = 1 \<or> nums LEVEL_1 = thr \<or> nums LEVEL_0 = thr"

definition quorum_reported :: "int \<Rightarrow> (8 word \<Rightarrow> int) \<Rightarrow> bool" where
  "quorum_reported thr nums \<longleftrightarrow> 1 \<le> nums LEVEL_2 \<or> thr \<le> nums LEVEL_1 \<or> thr \<le> nums LEVEL_0"

text \<open>What a step does to the view and the counts.\<close>

definition counts :: "int \<Rightarrow> int \<Rightarrow> (int \<Rightarrow> 8 word \<Rightarrow> int) \<Rightarrow> int \<Rightarrow> (int \<Rightarrow> 8 word \<Rightarrow> int) \<Rightarrow> bool" where
  "counts thr view nums view' nums' \<longleftrightarrow> view \<le> view' \<and>
     (nums' = nums \<or>
      (\<exists>v l. nums' = bump nums v l \<and> (report_trigger thr (nums' v) \<longrightarrow> in_int64 v \<longrightarrow> in_int64 (v + 1) \<longrightarrow> v < view')))"

text \<open>Every view with a quorum of reports, except the last of the type, has been left.\<close>

definition progress_ok :: "int \<Rightarrow> int \<Rightarrow> (int \<Rightarrow> 8 word \<Rightarrow> int) \<Rightarrow> bool" where
  "progress_ok thr view nums \<longleftrightarrow> (\<forall>v l. 0 \<le> nums v l) \<and>
     (\<forall>v. in_int64 v \<longrightarrow> in_int64 (v + 1) \<longrightarrow> quorum_reported thr (nums v) \<longrightarrow> v < view)"

lemma bump_at: "bump nums v l v l = nums v l + 1" by (simp add: bump_def)

lemma bump_other [simp]: "v' \<noteq> v \<Longrightarrow> bump nums v l v' = nums v'" by (simp add: bump_def)

lemma quorum_bump:
  "quorum_reported thr (bump nums v l v) \<Longrightarrow> \<not> quorum_reported thr (nums v) \<Longrightarrow> report_trigger thr (bump nums v l v)"
  by (cases "l = LEVEL_0"; cases "l = LEVEL_1"; cases "l = LEVEL_2") (auto simp: quorum_reported_def report_trigger_def bump_def)

lemma progress_counts:
  assumes "progress_ok thr view nums" "counts thr view nums view' nums'"
  shows "progress_ok thr view' nums'"
  using assms(2) unfolding counts_def
proof (elim conjE disjE exE)
  fix v l assume le: "view \<le> view'" and n: "nums' = bump nums v l"
    and t: "report_trigger thr (nums' v) \<longrightarrow> in_int64 v \<longrightarrow> in_int64 (v + 1) \<longrightarrow> v < view'"
  have "0 \<le> nums' w k" for w k using assms(1) by (simp add: n bump_def progress_ok_def add_nonneg_nonneg)
  moreover have "w < view'" if w: "in_int64 w" "in_int64 (w + 1)" "quorum_reported thr (nums' w)" for w
  proof (cases "quorum_reported thr (nums w)")
    case True
    then show ?thesis using assms(1) w le unfolding progress_ok_def by (meson less_le_trans)
  next
    case False
    then have "w = v" using w(3) n bump_other by metis
    then show ?thesis using quorum_bump[of thr nums v l] False t w n by simp
  qed
  ultimately show ?thesis by (simp add: progress_ok_def)
qed (use assms(1) in \<open>force simp: progress_ok_def\<close>)

lemma progress_start: "1 \<le> thr \<Longrightarrow> progress_ok thr view (\<lambda>_ _. 0)"
  by (simp add: progress_ok_def quorum_reported_def)

section \<open>The protocols that count\<close>

primrec handle_all ::
    "('core, 'g) machine \<Rightarrow> 'core \<Rightarrow> msg list \<Rightarrow> ('core \<times> 'g effect list) option" where
  "handle_all mc core [] = Some (core, [])"
| "handle_all mc core (m # ms) =
     do { (core1, effs1, err) \<leftarrow> mc_handle mc core (InMsg m);
          (core2, effs2) \<leftarrow> handle_all mc core1 ms;
          Some (core2, effs1 @ effs2) }"

text \<open>
  \<open>own\<close> says that a core has the committee and the keys it was made with, \<open>valid\<close> that a report
  passes verification.
\<close>

locale report_quorums =
  fixes mc :: "('core, 'g) machine" and thr :: int and own :: "'core \<Rightarrow> bool" and valid :: "ReportMsg \<Rightarrow> bool"
    and view_of :: "'core \<Rightarrow> int" and nums_of :: "'core \<Rightarrow> int \<Rightarrow> 8 word \<Rightarrow> int"
  assumes handle_counts: "own core \<Longrightarrow> mc_handle mc core i = Some (core', effs, err) \<Longrightarrow>
        own core' \<and> counts thr (view_of core) (nums_of core) (view_of core') (nums_of core')"
    and section_counts: "own core \<Longrightarrow> mc_section mc core g = Some (core', effs, g') \<Longrightarrow>
        own core' \<and> view_of core' = view_of core \<and> nums_of core' = nums_of core"
    and background_counts: "own core \<Longrightarrow> mc_background mc core core' \<Longrightarrow>
        own core' \<and> view_of core' = view_of core \<and> nums_of core' = nums_of core"
    and report_counted: "own core \<Longrightarrow> valid r \<Longrightarrow> rm_Level r < 3 \<Longrightarrow>
        \<exists>core' effs. mc_handle mc core (InMsg (ReportM r)) = Some (core', effs, None) \<and>
          (rm_View r < view_of core' \<or> nums_of core' = bump (nums_of core) (rm_View r) (rm_Level r))"
begin

definition past_quorums :: "'core \<Rightarrow> 'g effect list \<Rightarrow> bool" where
  "past_quorums core tr \<longleftrightarrow> own core \<and> progress_ok thr (view_of core) (nums_of core)"

lemma handle_past:
  "past_quorums core tr \<Longrightarrow> mc_handle mc core i = Some (core', effs, err) \<Longrightarrow> past_quorums core' tr'"
  using handle_counts progress_counts unfolding past_quorums_def by blast

lemma handle_all_view:
  "past_quorums core tr \<Longrightarrow> handle_all mc core ms = Some (core', effs) \<Longrightarrow> view_of core \<le> view_of core'"
proof (induction ms arbitrary: core effs)
  case (Cons m ms)
  then obtain core1 effs1 err effs2 where 1: "mc_handle mc core (InMsg m) = Some (core1, effs1, err)"
      "handle_all mc core1 ms = Some (core', effs2)"
    by (auto simp: Option.bind_eq_Some_conv)
  have "view_of core \<le> view_of core1" using handle_counts[OF _ 1(1)] Cons.prems(1) by (simp add: past_quorums_def counts_def)
  also have "view_of core1 \<le> view_of core'" using Cons.IH[OF handle_past[OF Cons.prems(1) 1(1)] 1(2)] .
  finally show ?case .
qed simp

lemma reports_counted:
  assumes "past_quorums core tr" "\<And>r. r \<in> set rs \<Longrightarrow> valid r \<and> rm_View r = v \<and> rm_Level r = l" "l < 3"
  shows "\<exists>core' effs. handle_all mc core (map ReportM rs) = Some (core', effs) \<and> past_quorums core' tr' \<and>
    (v < view_of core' \<or> nums_of core' v l = nums_of core v l + int (length rs))"
  using assms(1,2)
proof (induction rs arbitrary: core tr)
  case Nil
  then show ?case by (simp add: past_quorums_def)
next
  case (Cons r rs)
  have r: "valid r" "rm_View r = v" "rm_Level r = l" using Cons.prems(2) by simp_all
  obtain core1 effs1 where 1: "mc_handle mc core (InMsg (ReportM r)) = Some (core1, effs1, None)"
      "v < view_of core1 \<or> nums_of core1 = bump (nums_of core) v l"
    using report_counted[of core r] Cons.prems(1) r assms(3) unfolding past_quorums_def by auto
  have p: "past_quorums core1 tr" using handle_past[OF Cons.prems(1) 1(1)] .
  from Cons.IH[OF this] Cons.prems(2) obtain core2 effs2 where 2: "handle_all mc core1 (map ReportM rs) = Some (core2, effs2)"
      "past_quorums core2 tr'" "v < view_of core2 \<or> nums_of core2 v l = nums_of core1 v l + int (length rs)"
    by auto
  have "view_of core1 \<le> view_of core2" using handle_all_view[OF p 2(1)] .
  then show ?case using 1 2 by (auto simp: bump_at)
qed

lemma quorum_advances:
  assumes "past_quorums core tr" "\<And>r. r \<in> set rs \<Longrightarrow> valid r \<and> rm_View r = v \<and> rm_Level r = l"
    and "l = LEVEL_2 \<and> rs \<noteq> [] \<or> (l = LEVEL_1 \<or> l = LEVEL_0) \<and> thr \<le> int (length rs)" "in_int64 v" "in_int64 (v + 1)"
  shows "\<exists>core' effs. handle_all mc core (map ReportM rs) = Some (core', effs) \<and> v < view_of core'"
proof -
  have "l < 3" using assms(3) by auto
  from reports_counted[OF assms(1,2) this] obtain core' effs where
    h: "handle_all mc core (map ReportM rs) = Some (core', effs)" and p: "past_quorums core' []"
    and n: "v < view_of core' \<or> nums_of core' v l = nums_of core v l + int (length rs)" by blast
  have "0 \<le> nums_of core v l" using assms(1) by (simp add: past_quorums_def progress_ok_def)
  moreover have "int (length rs) \<ge> 1" if "rs \<noteq> []" using that by (cases rs) simp_all
  ultimately have "v < view_of core' \<or> quorum_reported thr (nums_of core' v)"
    using n assms(3) by (auto simp: quorum_reported_def)
  then have "v < view_of core'" using p assms(4,5) by (auto simp: past_quorums_def progress_ok_def)
  with h show ?thesis by blast
qed

end

sublocale report_quorums \<subseteq> node_invariant mc "\<lambda>_. True" past_quorums "\<lambda>_. True" "\<lambda>_. True" "\<lambda>_ _. True"
proof
  fix core tr i core' effs err
  assume "past_quorums core tr" "mc_handle mc core i = Some (core', effs, err)"
  then show "past_quorums core' (tr @ effs) \<and> list_all (effect_ok (\<lambda>_. True) (\<lambda>_. True) (\<lambda>_ _. True)) effs"
    using handle_past by (simp add: handle_past)
next
  fix core tr g core' effs g'
  assume "past_quorums core tr" "mc_section mc core g = Some (core', effs, g')"
  then show "past_quorums core' (tr @ effs) \<and> list_all (effect_ok (\<lambda>_. True) (\<lambda>_. True) (\<lambda>_ _. True)) effs \<and> pred_option (\<lambda>_. True) g'"
    using section_counts[of core g core' effs g'] by (cases g') (auto simp: past_quorums_def)
next
  fix core tr core'
  assume "past_quorums core tr" "mc_background mc core core'"
  then show "past_quorums core' tr" using background_counts[of core core'] by (auto simp: past_quorums_def)
qed simp

section \<open>The lean protocol\<close>

definition lean_own :: "Committee \<Rightarrow> 'k SigService \<Rightarrow> ('k, 'db) Core \<Rightarrow> bool" where
  "lean_own c srvc core \<longleftrightarrow> co_committee core = c \<and> co_sigService core = srvc"

text \<open>What everything but a report leaves alone.\<close>

definition lean_frame :: "('k, 'db) Core \<Rightarrow> ('k, 'db) Core \<Rightarrow> bool" where
  "lean_frame core core' \<longleftrightarrow> co_committee core' = co_committee core \<and> co_sigService core' = co_sigService core \<and>
     co_view core' = co_view core \<and> co_reportNums core' = co_reportNums core"

lemma lean_frame_counts: "lean_own c srvc core \<Longrightarrow> lean_frame core core' \<Longrightarrow>
   lean_own c srvc core' \<and> counts thr (co_view core) (co_reportNums core) (co_view core') (co_reportNums core')"
  by (simp add: lean_own_def lean_frame_def counts_def)

lemma getSpbInstance_reportNums [simp]: "co_reportNums (getSpbInstance v n core) = co_reportNums core"
  by (simp add: getSpbInstance_def)

lemma processCoin_frame: "processCoin cx dx core leader view = Some (core', effs, err) \<Longrightarrow> lean_frame core core'"
  by (drule processCoin_outcome) (auto simp: lean_frame_def)

lemma handleElectMsg_frame: "handleElectMsg cx dx core e = Some (core', effs, err) \<Longrightarrow> lean_frame core core'"
  by (drule handleElectMsg_outcome) (auto simp: lean_frame_def dest!: processCoin_frame)

lemma Core_handle_frame:
  assumes "Core_handle cx dx core i = Some (core', effs, err)" "\<And>r. i \<noteq> InMsg (ReportM r)"
  shows "lean_frame core core'"
proof (cases i)
  case (InCall v n)
  then show ?thesis using assms by (simp add: lean_frame_def)
next
  case (InMsg m)
  show ?thesis
  proof (cases m)
    case (ProposeM p)
    then show ?thesis using assms InMsg handleProposeMsg_outcome[of cx dx core p core' effs err] by (auto simp: lean_frame_def)
  next
    case (VoteM v)
    then show ?thesis using assms InMsg handleVoteMsg_outcome[of cx core v core' effs err] by (auto simp: lean_frame_def)
  next
    case (FinVoteM fv)
    then show ?thesis using assms InMsg handleFinVoteMsg_outcome[of cx core fv core' effs err] by (auto simp: lean_frame_def)
  next
    case (SpeedVoteM sv)
    then show ?thesis using assms InMsg handleSpeedVoteMsg_outcome[of cx core sv core' effs err] by (auto simp: lean_frame_def)
  next
    case (ElectM e)
    then show ?thesis using assms InMsg handleElectMsg_frame by simp
  next
    case (RandomCoinM m)
    then show ?thesis using assms InMsg by (auto simp: handleCoinMsg_def lean_frame_def elim!: verifiedE dest!: processCoin_frame)
  qed (use assms InMsg in \<open>auto simp: lean_frame_def\<close>)
qed

lemma SPB_section_frame:
  assumes "SPB_section cx core g = Some (core', effs, g')"
  shows "lean_frame core core'"
proof -
  obtain view node t where g: "g = (view, node, t)" by (cases g) auto
  show ?thesis
  proof (cases t)
    case (VoteQuorum v)
    with assms g have "processVoteMsg_quorum cx core (spb_at core view node) v = Some (core', effs)"
      by (auto simp: Option.bind_eq_Some_conv)
    from processVoteMsg_quorum_outcome[OF this] show ?thesis by (auto simp: lean_frame_def)
  qed (use assms g in \<open>auto simp: lean_frame_def Option.bind_eq_Some_conv split: prod.splits\<close>)
qed

text \<open>The report handler, for a report that is neither old nor forged.\<close>

lemma advanceView_effect:
  assumes "advanceView cx core view qc docG = Some (core', effs)"
  shows "co_committee core' = co_committee core \<and> co_sigService core' = co_sigService core \<and>
    co_view core' = max (co_view core) view \<and> co_reportNums core' = co_reportNums core"
  using advanceView_outcome[OF assms] by auto

lemma handleReportMsg_eq:
  assumes "\<not> messageFilter core (rm_View r)" "ReportMsg_Verify cx (co_committee core) r = Some True"
  shows "handleReportMsg cx core r =
    (let nums = bump (co_reportNums core) (rm_View r) (rm_Level r) in
     if \<not> rm_Level r < 3 then None
     else if report_trigger (HightThreshold (co_committee core)) (nums (rm_View r)) then
       do { (core2, effs) \<leftarrow> advanceView cx (core\<lparr>co_reportNums := nums\<rparr>) (wrap64 (rm_View r + 1)) (rm_BlockQc r)
              (NewDocGQCMsg (rm_View r) (rm_Level r) []);
            Some (core2, effs, None) }
     else Some (core\<lparr>co_reportNums := nums\<rparr>, [], None))"
  using assms by (simp add: handleReportMsg_def verified_def Let_def bump_def report_trigger_def)

lemma handleReportMsg_effect:
  assumes "handleReportMsg cx core r = Some (core', effs, err)"
  shows "lean_frame core core' \<and> (messageFilter core (rm_View r) \<or> ReportMsg_Verify cx (co_committee core) r \<noteq> Some True) \<or>
    co_committee core' = co_committee core \<and> co_sigService core' = co_sigService core \<and>
    co_reportNums core' = bump (co_reportNums core) (rm_View r) (rm_Level r) \<and>
    co_view core' = (if report_trigger (HightThreshold (co_committee core)) (co_reportNums core' (rm_View r))
                     then max (co_view core) (wrap64 (rm_View r + 1)) else co_view core)"
proof (cases "messageFilter core (rm_View r) \<or> ReportMsg_Verify cx (co_committee core) r \<noteq> Some True")
  case True
  then have "core' = core" using assms by (auto simp: handleReportMsg_def elim!: verifiedE split: if_splits)
  then show ?thesis using True by (simp add: lean_frame_def)
next
  case False
  let ?nums = "bump (co_reportNums core) (rm_View r) (rm_Level r)"
  from False have f: "\<not> messageFilter core (rm_View r)" "ReportMsg_Verify cx (co_committee core) r = Some True" by simp_all
  note h = assms[unfolded handleReportMsg_eq[OF f] Let_def]
  show ?thesis
  proof (cases "report_trigger (HightThreshold (co_committee core)) (?nums (rm_View r))")
    case True
    with h have "advanceView cx (core\<lparr>co_reportNums := ?nums\<rparr>) (wrap64 (rm_View r + 1)) (rm_BlockQc r)
        (NewDocGQCMsg (rm_View r) (rm_Level r) []) = Some (core', effs)" by (auto simp: Option.bind_eq_Some_conv split: if_splits)
    from advanceView_effect[OF this] True show ?thesis by simp
  next
    case False
    with h have "core' = core\<lparr>co_reportNums := ?nums\<rparr>" by (simp split: if_splits)
    with False show ?thesis by simp
  qed
qed

lemma advanceView_returns:
  assumes "can_sign (co_sigService core)"
  shows "\<exists>core' effs. advanceView cx core view qc docG = Some (core', effs)"
proof (cases "generatorBlock (core\<lparr>co_view := view\<rparr>) view HEIGHT_1 qc")
  case (Pair b core1)
  then have "co_sigService core1 = co_sigService core" by (auto elim!: generatorBlockE)
  then obtain p where "NewProposeMsg cx (co_sigService core1) b = Some p"
    using assms New_msg_panics(1)[of cx "co_sigService core1" b] by (cases "NewProposeMsg cx (co_sigService core1) b") auto
  with Pair show ?thesis by (simp add: advanceView_def Let_def)
qed

lemma handleReportMsg_counted:
  assumes "ReportMsg_Verify cx (co_committee core) r = Some True" "rm_Level r < 3" "can_sign (co_sigService core)"
  shows "\<exists>core' effs. handleReportMsg cx core r = Some (core', effs, None) \<and>
    (rm_View r < co_view core' \<or> co_reportNums core' = bump (co_reportNums core) (rm_View r) (rm_Level r))"
proof (cases "messageFilter core (rm_View r)")
  case True
  then show ?thesis by (simp add: handleReportMsg_def messageFilter_def)
next
  case False
  let ?nums = "bump (co_reportNums core) (rm_View r) (rm_Level r)"
  obtain core2 effs2 where a: "advanceView cx (core\<lparr>co_reportNums := ?nums\<rparr>) (wrap64 (rm_View r + 1)) (rm_BlockQc r)
      (NewDocGQCMsg (rm_View r) (rm_Level r) []) = Some (core2, effs2)"
    using advanceView_returns[of "core\<lparr>co_reportNums := ?nums\<rparr>"] assms(3) by fastforce
  show ?thesis using a advanceView_effect[OF a] assms(2)
    by (auto simp: handleReportMsg_eq[OF False assms(1)] Let_def)
qed

interpretation lean_quorums: report_quorums "lean_machine cx dx c" "HightThreshold c" "lean_own c srvc"
    "\<lambda>r. ReportMsg_Verify cx c r = Some True \<and> can_sign srvc" co_view co_reportNums
  for cx :: "'k crypto_ext" and dx :: "'db store_ext" and c srvc
proof
  fix core i core' effs err
  assume own: "lean_own c srvc core" and "mc_handle (lean_machine cx dx c) core i = Some (core', effs, err)"
  then have h: "Core_handle cx dx core i = Some (core', effs, err)" by (simp add: lean_machine_def)
  show "lean_own c srvc core' \<and> counts (HightThreshold c) (co_view core) (co_reportNums core) (co_view core') (co_reportNums core')"
  proof (cases "\<exists>r. i = InMsg (ReportM r)")
    case True
    then obtain r where r: "handleReportMsg cx core r = Some (core', effs, err)" using h by auto
    from handleReportMsg_effect[OF r] lean_frame_counts[OF own] own show ?thesis
      by (auto simp: lean_own_def counts_def wrap64_id)
  next
    case False
    then show ?thesis using Core_handle_frame[OF h] lean_frame_counts[OF own] by blast
  qed
next
  fix core g core' effs g'
  assume "lean_own c srvc core" "mc_section (lean_machine cx dx c) core g = Some (core', effs, g')"
  then show "lean_own c srvc core' \<and> co_view core' = co_view core \<and> co_reportNums core' = co_reportNums core"
    using SPB_section_frame[of cx core g core' effs g'] by (auto simp: lean_machine_def lean_own_def lean_frame_def)
next
  fix core :: "('k, 'db) Core" and r
  assume "lean_own c srvc core" "ReportMsg_Verify cx c r = Some True \<and> can_sign srvc" "rm_Level r < 3"
  then show "\<exists>core' effs. mc_handle (lean_machine cx dx c) core (InMsg (ReportM r)) = Some (core', effs, None) \<and>
      (rm_View r < co_view core' \<or> co_reportNums core' = bump (co_reportNums core) (rm_View r) (rm_Level r))"
    using handleReportMsg_counted[of cx core r] by (simp add: lean_machine_def lean_own_def)
qed (auto simp: lean_machine_def Core_background_def lean_own_def)

lemma Core_boot_reports:
  assumes "Core_boot cx (NewCore i c pr pool db srvc) = Some (core, effs)"
  shows "co_committee core = c \<and> co_sigService core = srvc \<and> co_reportNums core = (\<lambda>_ _. 0)"
  using assms by (auto simp: Core_boot_def NewCore_def generatorBlock_def Option.bind_eq_Some_conv split: if_splits prod.splits)

text \<open>
  C10. Reports move a lean node on. Whatever the node has been through (any run, any
  interleaving, any messages), if it then handles valid reports of one level for a view - one of
  level 2, or a quorum of level 1 or 0 - it handles them without panic and is past that view,
  unless the view is the last of the type. No quorum is missed although the counts are compared with
  equality and earlier reports may have been counted already.
\<close>

theorem lean_reports_advance:
  assumes "Core_boot cx (NewCore i c pr pool db srvc) = Some (core, effs)" "can_sign srvc"
    and "node_run (lean_machine cx dx c) (\<lambda>_. True) (boot_node core effs) tr nd"
    and "\<And>r. r \<in> set rs \<Longrightarrow> ReportMsg_Verify cx c r = Some True \<and> rm_View r = v \<and> rm_Level r = l"
    and "l = LEVEL_2 \<and> rs \<noteq> [] \<or> (l = LEVEL_1 \<or> l = LEVEL_0) \<and> HightThreshold c \<le> int (length rs)"
    and "in_int64 v" "in_int64 (v + 1)"
  shows "\<exists>core' effs'. handle_all (lean_machine cx dx c) (nd_core nd) (map ReportM rs) = Some (core', effs') \<and> v < co_view core'"
proof -
  have "lean_quorums.past_quorums c srvc core effs"
    using Core_boot_reports[OF assms(1)] HightThreshold_pos[of c]
    by (simp add: lean_quorums.past_quorums_def lean_own_def progress_start)
  from lean_quorums.run_invariant[OF this _ assms(3)] have "lean_quorums.past_quorums c srvc (nd_core nd) (effs @ tr)" by simp
  from lean_quorums.quorum_advances[OF this _ assms(5-7)] assms(2,4) show ?thesis by blast
qed

theorem lean_reports_advance_witness:
  "\<exists>core' effs'. handle_all (lean_machine sample_cx (sample_dx []) (sample_committee 4)) (sample_core 0)
     (map ReportM [sample_report 1 0 LEVEL_0, sample_report 2 0 LEVEL_0, sample_report 3 0 LEVEL_0]) = Some (core', effs') \<and> 0 < co_view core'"
proof -
  let ?rs = "[sample_report 1 0 LEVEL_0, sample_report 2 0 LEVEL_0, sample_report 3 0 LEVEL_0]"
  let ?nd = "boot_node (sample_core 0) ([ESend 0 NONE (ProposeM sample_first), EEnq (ProposeM sample_first)] :: lean_go effect list)"
  have "\<exists>core' effs'. handle_all (lean_machine sample_cx (sample_dx []) (sample_committee 4)) (nd_core ?nd) (map ReportM ?rs) = Some (core', effs') \<and>
      0 < co_view core'"
    by (rule lean_reports_advance[OF sample_boot[unfolded sample_core_def] sample_can_sign, where v = 0 and l = LEVEL_0 and tr = "[]" and nd = ?nd and rs = ?rs])
       (auto simp: sample_core_def in_int64_def intro: node_run.start)
  then show ?thesis by (simp add: boot_node_def del: handle_all.simps)
qed

section \<open>The big protocol\<close>

definition big_own :: "Committee \<Rightarrow> 'k SigService \<Rightarrow> ('k, 'db) BigCore \<Rightarrow> bool" where
  "big_own c srvc core \<longleftrightarrow> bc_committee core = c \<and> bc_sigService core = srvc"

definition big_frame :: "('k, 'db) BigCore \<Rightarrow> ('k, 'db) BigCore \<Rightarrow> bool" where
  "big_frame core core' \<longleftrightarrow> bc_committee core' = bc_committee core \<and> bc_sigService core' = bc_sigService core \<and>
     bc_view core' = bc_view core \<and> bc_reportNums core' = bc_reportNums core"

lemma bspb_reportNums [simp]:
  "bc_reportNums (put_bspb v n s core) = bc_reportNums core" "bc_reportNums (BigCore_getSpbInstance v n core) = bc_reportNums core"
  by (simp_all add: BigCore_getSpbInstance_def put_bspb_def)

lemma BigCore_processCoin_frame:
  assumes "BigCore_processCoin cx dx core leader view = Some (core', effs, err)"
  shows "big_frame core core'"
proof (cases "BigCore_coin_commit dx (BigCore_getSpbInstance view leader core) (bspb_at core view leader)")
  case (Inl e)
  then show ?thesis using assms by (auto simp: BigCore_processCoin_def Let_def big_frame_def)
next
  case (Inr r)
  obtain core2 ceffs where r: "r = (core2, ceffs)" by (cases r)
  from BigCore_coin_commit_outcome[OF Inr[unfolded r]] have "big_frame core core2" by (auto simp: big_frame_def)
  moreover have "core' = core2" using assms Inr r by (auto simp: BigCore_processCoin_def Let_def Option.bind_eq_Some_conv split: prod.splits)
  ultimately show ?thesis by simp
qed

lemma BigCore_handleElectMsg_frame:
  assumes "BigCore_handleElectMsg cx dx core oe = Some (core', effs, err)"
  shows "big_frame core core'"
proof (cases "\<exists>e. oe = Some e \<and> ElectMsg_Verify cx e")
  case True
  then obtain e where e: "oe = Some e" "ElectMsg_Verify cx e" by blast
  obtain el res where add: "Elector_Add cx (bc_eletor core) e = Some (el, res)"
    using assms e by (cases "Elector_Add cx (bc_eletor core) e") (auto simp: BigCore_handleElectMsg_def)
  have "big_frame (core\<lparr>bc_eletor := el\<rparr>) core'"
    using assms e add by (cases res) (auto simp: BigCore_handleElectMsg_def Let_def big_frame_def split: if_splits dest!: BigCore_processCoin_frame)
  then show ?thesis by (simp add: big_frame_def)
qed (use assms in \<open>auto simp: BigCore_handleElectMsg_def big_frame_def Option.bind_eq_Some_conv split: if_splits\<close>)

lemma BigCore_handle_frame:
  assumes "BigCore_handle cx dx core i = Some (core', effs, err)" "\<And>r. i \<noteq> InMsg (ReportM r)"
  shows "big_frame core core'"
proof (cases i)
  case (InCall v n)
  then show ?thesis using assms by (simp add: big_frame_def)
next
  case (InMsg m)
  show ?thesis
  proof (cases m)
    case (ProposeM p)
    then show ?thesis using assms InMsg
      by (cases "storeBlock cx dx (bc_store core) (the (pm_B p))")
         (auto simp: BigCore_handleProposeMsg_def big_frame_def Option.bind_eq_Some_conv elim!: verifiedE split: option.splits)
  next
    case (SpeedVoteM sv)
    then show ?thesis using assms InMsg
      by (auto simp: BigCore_handleSpeedVoteMsg_def big_frame_def Let_def Option.bind_eq_Some_conv elim!: verifiedE)
  next
    case (ElectM e)
    then show ?thesis using assms InMsg BigCore_handleElectMsg_frame by simp
  qed (use assms InMsg in \<open>auto simp: BigCore_handleVoteMsg_def big_frame_def elim!: verifiedE\<close>)
qed

lemma BigCore_section_frame: "BigCore_section cx core (view, node, t) = Some (core', effs, g') \<Longrightarrow> big_frame core core'"
  by (erule BigCore_sectionE) (auto simp: big_frame_def dest!: BigCore_propose_outcome)

lemma BigCore_advanceView_effect:
  assumes "BigCore_advanceView cx core view qc = Some (core', effs)"
  shows "bc_committee core' = bc_committee core \<and> bc_sigService core' = bc_sigService core \<and>
    bc_view core' = max (bc_view core) view \<and> bc_reportNums core' = bc_reportNums core"
  using assms by (auto simp: BigCore_advanceView_def dest!: BigCore_propose_outcome split: if_splits)

lemma BigCore_handleReportMsg_eq:
  assumes "ReportMsg_Verify cx (bc_committee core) r = Some True"
  shows "BigCore_handleReportMsg cx core r =
    (let nums = bump (bc_reportNums core) (rm_View r) (rm_Level r) in
     if \<not> rm_Level r < 3 then None
     else if report_trigger (HightThreshold (bc_committee core)) (nums (rm_View r)) then
       do { (core2, effs) \<leftarrow> BigCore_advanceView cx (core\<lparr>bc_reportNums := nums\<rparr>) (wrap64 (rm_View r + 1)) (rm_BlockQc r);
            Some (core2, effs, None) }
     else Some (core\<lparr>bc_reportNums := nums\<rparr>, [], None))"
  using assms by (simp add: BigCore_handleReportMsg_def verified_def Let_def bump_def report_trigger_def)

lemma BigCore_handleReportMsg_effect:
  assumes "BigCore_handleReportMsg cx core r = Some (core', effs, err)"
  shows "big_frame core core' \<or>
    bc_committee core' = bc_committee core \<and> bc_sigService core' = bc_sigService core \<and>
    bc_reportNums core' = bump (bc_reportNums core) (rm_View r) (rm_Level r) \<and>
    bc_view core' = (if report_trigger (HightThreshold (bc_committee core)) (bc_reportNums core' (rm_View r))
                     then max (bc_view core) (wrap64 (rm_View r + 1)) else bc_view core)"
proof (cases "ReportMsg_Verify cx (bc_committee core) r = Some True")
  case False
  then have "core' = core" using assms by (auto simp: BigCore_handleReportMsg_def elim!: verifiedE)
  then show ?thesis by (simp add: big_frame_def)
next
  case True
  let ?nums = "bump (bc_reportNums core) (rm_View r) (rm_Level r)"
  note h = assms[unfolded BigCore_handleReportMsg_eq[OF True] Let_def]
  show ?thesis
  proof (cases "report_trigger (HightThreshold (bc_committee core)) (?nums (rm_View r))")
    case True
    with h have "BigCore_advanceView cx (core\<lparr>bc_reportNums := ?nums\<rparr>) (wrap64 (rm_View r + 1)) (rm_BlockQc r) = Some (core', effs)"
      by (auto simp: Option.bind_eq_Some_conv split: if_splits)
    from BigCore_advanceView_effect[OF this] True show ?thesis by simp
  next
    case False
    with h have "core' = core\<lparr>bc_reportNums := ?nums\<rparr>" by (simp split: if_splits)
    with False show ?thesis by simp
  qed
qed

lemma BigCore_propose_returns:
  assumes "can_sign (bc_sigService core)"
  shows "\<exists>core' effs. BigCore_propose cx core view h qc = Some (core', effs)"
proof (cases "BigCore_generatorBlock core view h qc")
  case (Pair b core1)
  then have "bc_sigService core1 = bc_sigService core" by (auto simp: BigCore_generatorBlock_def split: prod.splits)
  then obtain p where "NewProposeMsg cx (bc_sigService core1) b = Some p"
    using assms New_msg_panics(1)[of cx "bc_sigService core1" b] by (cases "NewProposeMsg cx (bc_sigService core1) b") auto
  with Pair show ?thesis by (simp add: BigCore_propose_def)
qed

lemma BigCore_handleReportMsg_counted:
  assumes "ReportMsg_Verify cx (bc_committee core) r = Some True" "rm_Level r < 3" "can_sign (bc_sigService core)"
  shows "\<exists>core' effs. BigCore_handleReportMsg cx core r = Some (core', effs, None) \<and>
    (rm_View r < bc_view core' \<or> bc_reportNums core' = bump (bc_reportNums core) (rm_View r) (rm_Level r))"
proof -
  let ?core1 = "core\<lparr>bc_reportNums := bump (bc_reportNums core) (rm_View r) (rm_Level r)\<rparr>"
  obtain core2 effs2 where a: "BigCore_advanceView cx ?core1 (wrap64 (rm_View r + 1)) (rm_BlockQc r) = Some (core2, effs2)"
    using assms(3) BigCore_propose_returns[of "?core1\<lparr>bc_view := wrap64 (rm_View r + 1)\<rparr>" cx] by (fastforce simp: BigCore_advanceView_def)
  show ?thesis using a BigCore_advanceView_effect[OF a] assms(2)
    by (auto simp: BigCore_handleReportMsg_eq[OF assms(1)] Let_def)
qed

interpretation big_quorums: report_quorums "big_machine cx dx c" "HightThreshold c" "big_own c srvc"
    "\<lambda>r. ReportMsg_Verify cx c r = Some True \<and> can_sign srvc" bc_view bc_reportNums
  for cx :: "'k crypto_ext" and dx :: "'db store_ext" and c srvc
proof
  fix core i core' effs err
  assume own: "big_own c srvc core" and "mc_handle (big_machine cx dx c) core i = Some (core', effs, err)"
  then have h: "BigCore_handle cx dx core i = Some (core', effs, err)" by (simp add: big_machine_def)
  show "big_own c srvc core' \<and> counts (HightThreshold c) (bc_view core) (bc_reportNums core) (bc_view core') (bc_reportNums core')"
  proof (cases "\<exists>r. i = InMsg (ReportM r)")
    case True
    then obtain r where r: "BigCore_handleReportMsg cx core r = Some (core', effs, err)" using h by auto
    from BigCore_handleReportMsg_effect[OF r] own show ?thesis
      by (auto simp: big_own_def big_frame_def counts_def wrap64_id)
  next
    case False
    then show ?thesis using BigCore_handle_frame[OF h] own by (simp add: big_own_def big_frame_def counts_def)
  qed
next
  fix core g core' effs g'
  assume "big_own c srvc core" "mc_section (big_machine cx dx c) core g = Some (core', effs, g')"
  then show "big_own c srvc core' \<and> bc_view core' = bc_view core \<and> bc_reportNums core' = bc_reportNums core"
    by (cases g) (auto simp: big_machine_def big_own_def big_frame_def dest!: BigCore_section_frame)
next
  fix core :: "('k, 'db) BigCore" and r
  assume "big_own c srvc core" "ReportMsg_Verify cx c r = Some True \<and> can_sign srvc" "rm_Level r < 3"
  then show "\<exists>core' effs. mc_handle (big_machine cx dx c) core (InMsg (ReportM r)) = Some (core', effs, None) \<and>
      (rm_View r < bc_view core' \<or> bc_reportNums core' = bump (bc_reportNums core) (rm_View r) (rm_Level r))"
    using BigCore_handleReportMsg_counted[of cx core r] by (simp add: big_machine_def big_own_def)
qed (auto simp: big_machine_def BigCore_background_def big_own_def)

lemma BigCore_boot_reports:
  assumes "BigCore_boot cx (NewBigCore i c pr pool db srvc) = Some (core, effs)"
  shows "bc_committee core = c \<and> bc_sigService core = srvc \<and> bc_reportNums core = (\<lambda>_ _. 0)"
  using assms by (auto simp: BigCore_boot_def NewBigCore_def dest!: BigCore_propose_outcome split: if_splits)

text \<open>The same for the big protocol.\<close>

theorem big_reports_advance:
  assumes "BigCore_boot cx (NewBigCore i c pr pool db srvc) = Some (core, effs)" "can_sign srvc"
    and "node_run (big_machine cx dx c) (\<lambda>_. True) (boot_node core effs) tr nd"
    and "\<And>r. r \<in> set rs \<Longrightarrow> ReportMsg_Verify cx c r = Some True \<and> rm_View r = v \<and> rm_Level r = l"
    and "l = LEVEL_2 \<and> rs \<noteq> [] \<or> (l = LEVEL_1 \<or> l = LEVEL_0) \<and> HightThreshold c \<le> int (length rs)"
    and "in_int64 v" "in_int64 (v + 1)"
  shows "\<exists>core' effs'. handle_all (big_machine cx dx c) (nd_core nd) (map ReportM rs) = Some (core', effs') \<and> v < bc_view core'"
proof -
  have "big_quorums.past_quorums c srvc core effs"
    using BigCore_boot_reports[OF assms(1)] HightThreshold_pos[of c]
    by (simp add: big_quorums.past_quorums_def big_own_def progress_start)
  from big_quorums.run_invariant[OF this _ assms(3)] have "big_quorums.past_quorums c srvc (nd_core nd) (effs @ tr)" by simp
  from big_quorums.quorum_advances[OF this _ assms(5-7)] assms(2,4) show ?thesis by blast
qed

end
