(* ===== verification/Node_Boot.thy ===== *)
theory Node_Boot
  imports Logger System
begin

text \<open>
  src/core/consensus.go, src/node/node.go and src/main.go: bringing up a node from its files. The
  waiting until every peer accepts a connection and the sleep after it have no result and are left
  out. \<open>listens\<close> says which addresses \<open>net.Listen\<close> can bind; a goroutine's panic ends the
  process.
\<close>

section \<open>Consensus\<close>

abbreviation (input) PAC_LEAN :: int where "PAC_LEAN \<equiv> 0"
abbreviation (input) PAC_BIG :: int where "PAC_BIG \<equiv> 1"
abbreviation (input) PAC_BIG_DAG :: int where "PAC_BIG_DAG \<equiv> 2"

text \<open>\<open>strings.Split\<close> at a separator of one character.\<close>

fun Split :: "char \<Rightarrow> string \<Rightarrow> string list" where
  "Split sep [] = [[]]"
| "Split sep (c # cs) =
     (if c = sep then [] # Split sep cs
      else case Split sep cs of [] \<Rightarrow> [[c]] | w # ws \<Rightarrow> (c # w) # ws)"

definition listen_address :: "Committee \<Rightarrow> node_id \<Rightarrow> string option" where
  "listen_address c i =
     (let parts = Split (CHR '':'') (Committee_Address c i) in
      if length parts \<le> 1 then None else Some ('':'' @ parts ! 1))"

datatype ('k, 'db) corer =
    LeanCorer "('k, 'db) Core"
  | BigCorer "('k, 'db) BigCore"
  | DAGCorer "('k, 'db) DAGBigCore"

definition Consensus ::
    "(string \<Rightarrow> bool) \<Rightarrow> node_id \<Rightarrow> Committee \<Rightarrow> Parameters \<Rightarrow> Pool \<Rightarrow> 'db \<Rightarrow> 'k SigService \<Rightarrow> (string \<times> ('k, 'db) corer) option" where
  "Consensus listens i c pr txpool db srvc =
     do { addr \<leftarrow> listen_address c i;
          if \<not> listens addr then None
          else if Protocol pr = PAC_LEAN then Some (addr, LeanCorer (NewCore i c pr txpool db srvc))
          else if Protocol pr = PAC_BIG then Some (addr, BigCorer (NewBigCore i c pr txpool db srvc))
          else if Protocol pr = PAC_BIG_DAG then Some (addr, DAGCorer (NewDAGBigCore i c pr txpool db srvc))
          else None }"

section \<open>A node\<close>

record ('k, 'db) booted =
  bt_logger :: logger
  bt_address :: string
  bt_corer :: "('k, 'db) corer"

definition log_file :: "string \<Rightarrow> string \<Rightarrow> int \<Rightarrow> string" where
  "log_file logPath level nodeID = logPath @ ''/node-'' @ level @ ''-'' @ Itoa nodeID @ ''.log''"

definition init_log :: "string \<Rightarrow> int \<Rightarrow> int \<Rightarrow> filesystem \<Rightarrow> (logger \<times> filesystem) option" where
  "init_log logPath logLevel nodeID fs =
     do { (w, fs) \<leftarrow> NewFileWriter (log_file logPath ''info'' nodeID) fs;
          let lg = SetOutput InfoLevel w default_logger;
          (w, fs) \<leftarrow> NewFileWriter (log_file logPath ''debug'' nodeID) fs;
          let lg = SetOutput DebugLevel w lg;
          (w, fs) \<leftarrow> NewFileWriter (log_file logPath ''warn'' nodeID) fs;
          let lg = SetOutput WarnLevel w lg;
          (w, fs) \<leftarrow> NewFileWriter (log_file logPath ''error'' nodeID) fs;
          let lg = SetOutput ErrorLevel w lg;
          Some (SetLevel logLevel lg, fs) }"

text \<open>\<open>None\<close> is a panic, \<open>Inl\<close> the error that \<open>NewNode\<close> returns.\<close>

definition NewNode ::
    "'k crypto_ext \<Rightarrow> 'db store_ext \<Rightarrow> ((string \<times> json) list \<Rightarrow> (string \<times> json) list) \<Rightarrow> (string \<Rightarrow> bool) \<Rightarrow>
     string \<Rightarrow> string \<Rightarrow> string \<Rightarrow> string \<Rightarrow> string \<Rightarrow> string \<Rightarrow> int \<Rightarrow> int \<Rightarrow> filesystem \<Rightarrow> (string + ('k, 'db) booted) option" where
  "NewNode cx dx order listens keysFile tssKeyFile committeeFile parametersFile storePath logPath logLevel nodeID fs =
     do { (lg, fs) \<leftarrow> init_log logPath logLevel nodeID fs;
          keys \<leftarrow> GenKeysFromFile keysFile fs;
          case keys of Inl e \<Rightarrow> Some (Inl e) | Inr (_, priKey) \<Rightarrow>
          do { ts \<leftarrow> GenTsKeyFromFile cx tssKeyFile fs;
               case ts of Inl e \<Rightarrow> Some (Inl e) | Inr shareKey \<Rightarrow>
               do { com \<leftarrow> GenCommitteeFromFile order committeeFile fs;
                    case com of Inl e \<Rightarrow> Some (Inl e) | Inr c \<Rightarrow>
                    (case GenParamatersFromFile parametersFile fs of
                       Inl e \<Rightarrow> Some (Inl e)
                     | Inr (poolParameters, coreParameters) \<Rightarrow>
                         do { txpool \<leftarrow> NewPool poolParameters (Committee_Size c) nodeID;
                              db \<leftarrow> NewDefaultNutsDB dx storePath;
                              (addr, co) \<leftarrow> Consensus listens nodeID c coreParameters txpool db \<lparr>ss_PriKey = priKey, ss_ShareKey = shareKey\<rparr>;
                              Some (Inr \<lparr>bt_logger = lg, bt_address = addr, bt_corer = co\<rparr>) }) } } }"



definition run_cmd ::
    "'k crypto_ext \<Rightarrow> 'db store_ext \<Rightarrow> ((string \<times> json) list \<Rightarrow> (string \<times> json) list) \<Rightarrow> (string \<Rightarrow> bool) \<Rightarrow>
     string \<Rightarrow> string \<Rightarrow> string \<Rightarrow> string \<Rightarrow> string \<Rightarrow> string \<Rightarrow> int \<Rightarrow> int \<Rightarrow> filesystem \<Rightarrow> ('k, 'db) booted option" where
  "run_cmd cx dx order listens keysFile tssKeyFile committeeFile parametersFile storePath logPath logLevel nodeID fs =
     do { r \<leftarrow> NewNode cx dx order listens keysFile tssKeyFile committeeFile parametersFile storePath logPath logLevel nodeID fs;
          case r of Inl e \<Rightarrow> None | Inr nd \<Rightarrow> Some nd }"

section \<open>Logs\<close>


section \<open>A configured network\<close>






section \<open>From the files to a running protocol\<close>













end
