(* ===== verification/Spec2Isabelle.thy ===== *)
theory Spec2Isabelle
  imports Committee Pool Lean_Votes Lean_Panics Big_Proposals Big_Panics DAG_Panics DAG_Stall Config Network Logger System Coins Progress Node_Boot
begin

text \<open>
  A verification of s2PAC (module \<open>bft/2pac\<close>), a research implementation in Go of three variants of
  an asynchronous Byzantine fault tolerant consensus protocol.

  \<^bold>\<open>The program.\<close> A node (\<open>node.NewNode\<close>) reads its keys, the committee and the parameters from JSON
  files, opens a database, and starts \<open>core.Consensus\<close>, which connects a transaction pool, a
  network sender and receiver, and one of three cores: \<open>Core\<close> (lean), \<open>BigCore\<close> (big) or
  \<open>DAGBigCore\<close> (big over a DAG). A core's main goroutine takes messages from a channel and runs one
  handler at a time. For every view and proposer it keeps an instance of strong provable
  broadcast (\<open>SPB\<close>, \<open>BigSPB\<close>, \<open>DAGBigSPB\<close>) whose methods run in goroutines of their own. A random leader
  of each view is elected from threshold signature shares. The leader's block, if it has a
  certificate, goes to a committer, which commits the chain or the DAG behind it.

  \<^bold>\<open>Theories and the code they model.\<close>
  \<^item> Pac_Prelude: types and conventions, generic lemmas.
  \<^item> Crypto, Keys: src/crypto/crypto.go. Keys, Encoding and Json contain what the program uses of
    \<open>encoding/hex\<close>, \<open>encoding/base64\<close>, \<open>strconv\<close> and \<open>encoding/json\<close>.
  \<^item> Committee: src/core/config.go. Messages: src/core/message.go, src/core/error.go.
  \<^item> Pool: src/pool. Store: src/store and \<open>storeBlock\<close>, \<open>getBlock\<close> of src/core/core.go.
  \<^item> Elector: src/core/elector.go. Commitor, DAG_Commitor: src/core/commitor.go, src/core/dag_commitor.go.
  \<^item> Runtime: the channels, goroutines and effects of a node, with src/core/transimtor.go. Gate: counters that
    fire when they reach a threshold. Protocol_Base: what the three cores share.
  \<^item> Lean_Core: src/core/core.go, src/core/spb.go; theorems in Lean_Safety, Lean_Panics, Lean_Votes.
  \<^item> Big_SPB, Big_Core: src/core/bigspb.go, src/core/bigcore.go; theorems in Big_Safety, Big_Proposals, Big_Panics.
  \<^item> DAG_Core: src/core/dag_bitspb.go, src/core/dag_bigcore.go; theorems in DAG_Safety, DAG_Panics, DAG_Stall.
  \<^item> Coins: the election inside running nodes of the three protocols. Progress: how reports move lean and
    big nodes to the next view.
  \<^item> Network: src/network and the receiving goroutine of src/core/transimtor.go. System: networks of
    nodes and an adversary.
  \<^item> Config: src/config/config.go. Logger: src/logger. Node_Boot: src/core/consensus.go, src/node/node.go, src/main.go.

  \<^bold>\<open>How the code is rendered.\<close> A struct is a record and an enumeration or the set of message types a
  datatype. A function that can panic returns an option, \<open>None\<close> being the panic; a Go
  \<open>error\<close> is the left part of a sum or an optional error. Pointers that may be nil are options. Go's \<open>int\<close> is
  an integer, with \<open>wrap64\<close> where the code adds to a view; \<open>uint8\<close> heights and levels and the atomic
  \<open>int32\<close> counters are words. Go maps are functions or association lists; where the order of an
  iteration can be seen, it is a parameter. A handler, and each critical section of a
  goroutine, is a function from the state to the new state and the effects it has, in the order of the
  code (\<open>effect\<close>: sending, enqueueing, committing, calling back, starting a goroutine, returning from
  \<open>Run\<close>, which is all that a node with an identifier below \<open>Faults\<close> does). Runtime's \<open>node_step\<close>
  interleaves them: one step is a handler, a section, one effect on a bounded channel,
  a delivery by the network, or a panic, which ends the node; a delivered message that is no \<open>ConsensusMessage\<close> panics. \<open>node_run\<close> collects the effects of a run, and \<open>exec\<close>
  runs a given schedule, which the witnesses evaluate.

  \<^bold>\<open>What is a parameter.\<close> \<open>crypto_ext\<close> holds SHA-256, Ed25519 and kyber's threshold scheme,
  \<open>store_ext\<close> nutsdb and gob on blocks, \<open>gob_ext\<close> gob on messages, \<open>filesystem\<close> the files; \<open>gen\<close> and \<open>tsgen\<close> are
  the keys drawn at random. What the theorems rely on is stated as named hypotheses, each with an instance
  (\<open>sample_cx\<close>, \<open>sample_dx\<close>, \<open>sample_gob\<close>, \<open>sample_fs\<close>): \<open>key_pair\<close>, \<open>recover_unique\<close>, \<open>setup_ok\<close>,
  \<open>kyber_ok\<close>, \<open>nutsdb_contract\<close>, \<open>gob_faithful\<close>, \<open>codec_ok\<close>, \<open>libraries_ok\<close>. They ask no more than the libraries
  promise: \<open>recover_unique\<close> speaks only of combinations of at least the polynomial's threshold of shares,
  \<open>nutsdb_contract\<close> lets every write fail.

  \<^bold>\<open>What is shown.\<close>
  \<^item> Proposals and reports: in every run a lean or big node proposes once per view, in increasing
    views; a big node sends at most one height-2 proposal per view; a DAG node's proposals advance and refer to a
    quorum of certificates; a lean node reports once per view.
  \<^item> Election: electors, and so running nodes, of one threshold group elect the same leader of a view,
    whatever the network delivers; the elector refines the abstract rule "combine the first quorum of shares".
  \<^item> Progress: after any run, a quorum of reports moves a lean or a big node past their view; by contrast, a
    DAG node that misses its moment stays in its view unless a report of that view comes, which no DAG node sends.
  \<^item> Commits: the committers commit in the order of the chain, respectively the whole history of a block,
    each digest at most once; exactly when a commit returns.
  \<^item> No panics: with its own keys in order, a node of each protocol never panics on
    well-formed messages, in every interleaving, and sends only well-formed messages, so that in a
    network of such nodes none panics; this includes the way from the files to the
    running node. Exactly which messages panic a lean node.
  \<^item> Quorums: when the thresholds guarantee an honest member in common.
  \<^item> Pool, store, codec, network and files: first-in-first-out without loss, batches as in a
    reference definition, round trips, ordered delivery to a peer.
  \<^item> What goes wrong: certificates from one voter's votes, certificates that mix votes, a leader dictated
    by one member's message, blocks that the committer takes for others, references that are never committed, blocked committers, elections, pools, nodes and senders, and messages that end the process.

  \<^bold>\<open>Locales.\<close> \<open>signed_message\<close> (Messages), \<open>byzantine_quorums\<close> (Committee), \<open>batcher\<close> (Pool), \<open>DB\<close> (Store),
  \<open>commitor_interface\<close> (Commitor), \<open>one_shot_gate\<close> (Gate), and for the protocols \<open>node_invariant\<close>, \<open>node_safe\<close>,
  \<open>node_tasks\<close> and \<open>advancing_proposer\<close> (Runtime), \<open>electing_node\<close> (Coins), \<open>report_quorums\<close> (Progress) and \<open>safe_members\<close> (System). Each is interpreted on the definitions of the program.

  \<^bold>\<open>Bounds and loops.\<close> Channel capacities are those of the code (\<open>recv_cap\<close>, \<open>send_cap\<close>, \<open>call_cap\<close>, \<open>blocks_cap\<close>, \<open>conn_cap\<close>).
  The committers' loops may not end and are \<open>partial_function (option)\<close>; when they return is a
  theorem. The JSON parser takes fuel; \<open>json_Decode\<close> gives it the length of the text, and \<open>json_Decode_fuel\<close> shows
  that no text is refused for want of more.

  \<^bold>\<open>Not modelled.\<close> Key generation (\<open>GenED25519Keys\<close>, \<open>GenTSKeys\<close>) is randomness inside libraries. Time (tickers,
  sleeps, the network delay parameters, which no code reads) and the text of log lines have no effect on
  the states. Waiting for peers in \<open>Consensus\<close>, the accept loop and \<open>AnalyzeBlock\<close> have no state. Flag
  parsing is cobra's. Data races on fields that two goroutines touch without a common lock are
  outside the model. A critical section is atomic, and so are the reads and writes of a handler, which come before its
  effects: \<open>processCoin\<close> reads an instance under its lock several times in a row, and a goroutine that stores a
  certificate between two of these reads is not modelled. JSON texts with fractions, exponents or escapes beyond
  ASCII, which no code of the program writes, are refused by \<open>json_Decode\<close>.
\<close>

end
